(* ===== verification/Prelude.thy ===== *)
theory Prelude
  imports Complex_Main "HOL-Library.Word" "HOL-Library.Multiset"
begin

section \<open>Shared types, collections and lemmas\<close>

text \<open>
  What every component theory shares: names for the machine types of the Go code, the
  collections of rewrite rules the component proofs use, and generic facts on lists, multisets
  and words.

  A \<open>uint64\<close> is a 64-bit word, so its arithmetic wraps as in Go. A Go \<open>int\<close> that counts
  elements of a slice is an \<open>int\<close>; where an \<open>int\<close> is computed from configuration values the
  two's complement wrap-around is written out with \<open>wrap_int\<close>. \<open>common.Hash\<close> and
  \<open>common.Address\<close> are arrays of bytes and are modelled as byte lists, of length 32 and 20.
\<close>

type_synonym u8 = "8 word"
type_synonym u16 = "16 word"
type_synonym u64 = "64 word"
type_synonym bytes = "8 word list"
type_synonym hash = bytes
type_synonym address = bytes

definition zero_hash :: hash where
  "zero_hash = replicate 32 0"

definition zero_address :: address where
  "zero_address = replicate 20 0"

lemma length_zero_hash [simp]: "length zero_hash = 32"
  by (simp add: zero_hash_def)

lemma length_zero_address [simp]: "length zero_address = 20"
  by (simp add: zero_address_def)

text \<open>The wrap-around of Go's 64-bit \<open>int\<close>.\<close>

definition wrap_int :: "int \<Rightarrow> int" where
  "wrap_int x = (x + 2 ^ 63) mod 2 ^ 64 - 2 ^ 63"

lemma wrap_int_id: "- (2 ^ 63) \<le> x \<Longrightarrow> x < 2 ^ 63 \<Longrightarrow> wrap_int x = x"
  by (simp add: wrap_int_def)

lemma wrap_int_bounds: "- (2 ^ 63) \<le> wrap_int x \<and> wrap_int x < 2 ^ 63"
  using pos_mod_bound [of "2 ^ 64 :: int" "x + 2 ^ 63"]
    pos_mod_sign [of "2 ^ 64 :: int" "x + 2 ^ 63"]
  by (simp add: wrap_int_def)

named_theorems pool_simps "rewrite rules for the transaction pools"
named_theorems db_simps "rewrite rules for the key-value store"

subsection \<open>Words without wrap-around\<close>

lemma unat_add_no_wrap:
  fixes a b :: u64
  assumes "unat a + unat b < 2 ^ 64"
  shows "unat (a + b) = unat a + unat b"
  using assms by (simp add: unat_word_ariths)

lemma unat_sub_no_wrap:
  fixes a b :: u64
  assumes "b \<le> a"
  shows "unat (a - b) = unat a - unat b"
  using assms by (simp add: unat_sub)

lemma u64_le_nat: "(a :: u64) \<le> b \<longleftrightarrow> unat a \<le> unat b"
  by (rule word_le_nat_alt)

lemma u64_less_nat: "(a :: u64) < b \<longleftrightarrow> unat a < unat b"
  by (rule word_less_nat_alt)

lemma unat_u64_bound [simp]: "unat (a :: u64) < 2 ^ 64"
  using unsigned_less [of a] by simp

lemma unat_u64_max [simp]: "unat (- 1 :: u64) = 18446744073709551615"
  by (simp add: unsigned_minus_1_eq_mask mask_eq_exp_minus_1)

lemma u64_max_nat: "(a :: u64) \<noteq> - 1 \<Longrightarrow> unat a + 1 < 2 ^ 64"
proof -
  assume "a \<noteq> - 1"
  then have "a < - 1" using word_order.not_eq_extremum by blast
  then show ?thesis by (simp add: u64_less_nat)
qed

subsection \<open>Lists\<close>

text \<open>Swapping two elements, as \<open>q[i], q[j] = q[j], q[i]\<close> does.\<close>

definition exchange :: "'a list \<Rightarrow> nat \<Rightarrow> nat \<Rightarrow> 'a list" where
  "exchange q i j = (let x = q ! i; y = q ! j in q[i := y, j := x])"

lemma length_exchange [simp]: "length (exchange q i j) = length q"
  by (simp add: exchange_def Let_def)

lemma nth_exchange:
  assumes "k < length q" and "i < length q" and "j < length q"
  shows "exchange q i j ! k = (if k = i then q ! j else if k = j then q ! i else q ! k)"
  using assms by (auto simp: exchange_def Let_def nth_list_update)

lemma exchange_permutes:
  assumes "i < length q" and "j < length q"
  shows mset_exchange [simp]: "mset (exchange q i j) = mset q"
    and set_exchange [simp]: "set (exchange q i j) = set q"
proof -
  show "mset (exchange q i j) = mset q" using assms by (simp add: exchange_def Let_def mset_swap)
  then show "set (exchange q i j) = set q" by (rule mset_eq_setD)
qed

lemma mset_snoc_last: "xs \<noteq> [] \<Longrightarrow> add_mset (last xs) (mset (butlast xs)) = mset xs"
  by (metis append_butlast_last_id mset.simps(1,2) mset_append union_mset_add_mset_right
      add.right_neutral)

lemma distinct_mset_eq: "mset xs = mset ys \<Longrightarrow> distinct xs = distinct ys"
  by (rule mset_eq_imp_distinct_iff)

lemma map_mset_eq: "mset xs = mset ys \<Longrightarrow> mset (map f xs) = mset (map f ys)"
  by simp

lemma sum_list_mset_eq:
  fixes f :: "'a \<Rightarrow> nat"
  assumes "mset xs = mset ys"
  shows "sum_list (map f xs) = sum_list (map f ys)"
  using assms by (metis mset_map sum_mset_sum_list)

end
