(* ===== verification/Metrics.thy ===== *)
theory Metrics
  imports Prelude
begin

section \<open>Counters: internal/metrics/metrics.go\<close>

text \<open>
  The counters that the components update. An \<open>atomic.Uint64\<close> is a word, whose \<open>Add\<close> wraps; an
  \<open>atomic.Int64\<close> is an integer, and what is stored in one is brought into its range where it is
  computed. The pointer to the counters may be nil: an option in the components.
\<close>

record metrics =
  BlockHeight :: u64
  BlocksProduced :: u64
  LastBlockTime :: int
  BlockTimeAvgMs :: int
  TxProcessed :: u64
  MempoolSize :: int
  MempoolRejected :: u64
  BaseFeeGwei :: int
  GasUsedTotal :: u64
  GasLimitTotal :: u64
  BatchesSubmitted :: u64
  LastBatchSize :: int
  RPCRequests :: u64
  RPCErrors :: u64
  LaneFastCount :: int
  LaneStdCount :: int
  LaneSlowCount :: int
  LaneFastGas :: u64
  LaneStdGas :: u64
  LaneSlowGas :: u64
  AdaptiveGasLimit :: u64
  AdaptiveMaxTx :: int
  AdaptiveUtilization :: int
  ReceiptsGenerated :: u64
  ReceiptsStored :: u64
  TasteScoreLookups :: u64
  TasteScoreAverage :: int
  OrderingProofsGenerated :: u64
  OrderingProofsVerified :: u64
  DABlobsPublished :: u64
  DABlobBytesTotal :: u64
  ComplianceScreens :: u64
  ComplianceFlagged :: u64

definition NewMetrics :: metrics where
  "NewMetrics = \<lparr>BlockHeight = 0, BlocksProduced = 0, LastBlockTime = 0, BlockTimeAvgMs = 0, TxProcessed = 0,
     MempoolSize = 0, MempoolRejected = 0, BaseFeeGwei = 0, GasUsedTotal = 0, GasLimitTotal = 0,
     BatchesSubmitted = 0, LastBatchSize = 0, RPCRequests = 0, RPCErrors = 0, LaneFastCount = 0,
     LaneStdCount = 0, LaneSlowCount = 0, LaneFastGas = 0, LaneStdGas = 0, LaneSlowGas = 0,
     AdaptiveGasLimit = 0, AdaptiveMaxTx = 0, AdaptiveUtilization = 0, ReceiptsGenerated = 0, ReceiptsStored = 0,
     TasteScoreLookups = 0, TasteScoreAverage = 0, OrderingProofsGenerated = 0, OrderingProofsVerified = 0,
     DABlobsPublished = 0, DABlobBytesTotal = 0, ComplianceScreens = 0, ComplianceFlagged = 0\<rparr>"

end
