(* ===== verification/Metrics_Page.thy ===== *)
theory Metrics_Page
  imports Metrics
begin

section \<open>The metrics page: handleMetrics and Serve of internal/metrics/metrics.go\<close>

text \<open>
  The text that a scrape reads: for each family its help, its type and its samples, and a blank line.
  \<open>scrape\<close> is a reader of that format; the page gives it back every counter with its value.
\<close>

subsection \<open>Decimal numbers, as fmt prints them\<close>

definition digit_char :: "nat \<Rightarrow> char" where
  "digit_char d = char_of (48 + d)"

fun show_nat :: "nat \<Rightarrow> string" where
  "show_nat n = (if n < 10 then [digit_char n] else show_nat (n div 10) @ [digit_char (n mod 10)])"

declare show_nat.simps [simp del]

definition show_int :: "int \<Rightarrow> string" where
  "show_int z = (if z < 0 then CHR ''-'' # show_nat (nat (- z)) else show_nat (nat z))"

subsection \<open>The page\<close>

definition nl :: char where
  "nl = CHR 0x0A"

record metric_family =
  mf_name :: string
  mf_help :: string
  mf_type :: string
  mf_samples :: "(string \<times> int) list"

definition family :: "string \<Rightarrow> string \<Rightarrow> string \<Rightarrow> (string \<times> int) list \<Rightarrow> metric_family" where
  "family n h t ss = \<lparr>mf_name = n, mf_help = h, mf_type = t, mf_samples = ss\<rparr>"

text \<open>A sample's label is part of its line; a family without labels has one sample.\<close>

definition metric_families :: "metrics \<Rightarrow> metric_family list" where
  "metric_families m =
  [family ''inso_sequencer_block_height''
     ''Current block height'' ''gauge'' [([], uint (BlockHeight m))],
   family ''inso_sequencer_blocks_produced_total''
     ''Total blocks produced'' ''counter'' [([], uint (BlocksProduced m))],
   family ''inso_sequencer_block_time_avg_ms''
     ''Average block time in milliseconds'' ''gauge'' [([], BlockTimeAvgMs m)],
   family ''inso_sequencer_tx_processed_total''
     ''Total transactions processed'' ''counter'' [([], uint (TxProcessed m))],
   family ''inso_sequencer_mempool_size''
     ''Current mempool depth'' ''gauge'' [([], MempoolSize m)],
   family ''inso_sequencer_mempool_rejected_total''
     ''Transactions rejected from mempool'' ''counter'' [([], uint (MempoolRejected m))],
   family ''inso_sequencer_base_fee_mgwei''
     ''Base fee in milli-gwei (gwei * 1000)'' ''gauge'' [([], BaseFeeGwei m)],
   family ''inso_sequencer_gas_used_total''
     ''Cumulative gas used'' ''counter'' [([], uint (GasUsedTotal m))],
   family ''inso_sequencer_gas_limit_total''
     ''Cumulative gas limit'' ''counter'' [([], uint (GasLimitTotal m))],
   family ''inso_sequencer_batches_submitted_total''
     ''Total L1 batches submitted'' ''counter'' [([], uint (BatchesSubmitted m))],
   family ''inso_sequencer_last_batch_size_bytes''
     ''Last batch size in bytes'' ''gauge'' [([], LastBatchSize m)],
   family ''inso_sequencer_rpc_requests_total''
     ''Total RPC requests'' ''counter'' [([], uint (RPCRequests m))],
   family ''inso_sequencer_rpc_errors_total''
     ''Total RPC errors'' ''counter'' [([], uint (RPCErrors m))],
   family ''inso_sequencer_lane_tx_count''
     ''Current transactions per execution lane'' ''gauge''
     [(''{lane=\"fast\"}'', LaneFastCount m), (''{lane=\"standard\"}'', LaneStdCount m), (''{lane=\"slow\"}'', LaneSlowCount m)],
   family ''inso_sequencer_lane_gas_total''
     ''Cumulative gas processed per lane'' ''counter''
     [(''{lane=\"fast\"}'', uint (LaneFastGas m)), (''{lane=\"standard\"}'', uint (LaneStdGas m)), (''{lane=\"slow\"}'', uint (LaneSlowGas m))],
   family ''inso_sequencer_adaptive_gas_limit''
     ''Current dynamic gas limit'' ''gauge'' [([], uint (AdaptiveGasLimit m))],
   family ''inso_sequencer_adaptive_max_tx''
     ''Current max transactions per block'' ''gauge'' [([], AdaptiveMaxTx m)],
   family ''inso_sequencer_adaptive_utilization_bps''
     ''Gas utilization EMA in basis points (0-10000)'' ''gauge'' [([], AdaptiveUtilization m)],
   family ''inso_sequencer_receipts_generated_total''
     ''Total compute receipts generated'' ''counter'' [([], uint (ReceiptsGenerated m))],
   family ''inso_sequencer_receipts_stored''
     ''Total compute receipts in store'' ''gauge'' [([], uint (ReceiptsStored m))],
   family ''inso_tastescore_lookups_total''
     ''Total on-chain TasteScore lookups'' ''counter'' [([], uint (TasteScoreLookups m))],
   family ''inso_tastescore_average''
     ''Average TasteScore (x10000 for precision)'' ''gauge'' [([], TasteScoreAverage m)],
   family ''inso_ordering_proofs_generated_total''
     ''Ordering proofs generated'' ''counter'' [([], uint (OrderingProofsGenerated m))],
   family ''inso_ordering_proofs_verified_total''
     ''Ordering proofs verified'' ''counter'' [([], uint (OrderingProofsVerified m))],
   family ''inso_da_blobs_published_total''
     ''DA blobs published'' ''counter'' [([], uint (DABlobsPublished m))],
   family ''inso_da_blob_bytes_total''
     ''Total DA blob bytes stored'' ''counter'' [([], uint (DABlobBytesTotal m))],
   family ''inso_compliance_screens_total''
     ''Compliance screens performed'' ''counter'' [([], uint (ComplianceScreens m))],
   family ''inso_compliance_flagged_total''
     ''Addresses flagged by compliance'' ''counter'' [([], uint (ComplianceFlagged m))]]"

definition sample_line :: "string \<Rightarrow> string \<times> int \<Rightarrow> string" where
  "sample_line name lv = name @ fst lv @ '' '' @ show_int (snd lv)"

definition family_lines :: "metric_family \<Rightarrow> string list" where
  "family_lines f = [''# HELP '' @ mf_name f @ '' '' @ mf_help f, ''# TYPE '' @ mf_name f @ '' '' @ mf_type f] @
     map (sample_line (mf_name f)) (mf_samples f) @ [[]]"

definition print_lines :: "string list \<Rightarrow> string" where
  "print_lines ls = concat (map (\<lambda>l. l @ [nl]) ls)"

definition handleMetrics :: "metrics \<Rightarrow> string" where
  "handleMetrics m = print_lines (concat (map family_lines (metric_families m)))"

text \<open>The probe of the metrics server, with the time in seconds.\<close>

definition metrics_health :: "int \<Rightarrow> string" where
  "metrics_health unix = ''{\"status\":\"ok\",\"service\":\"inso-sequencer\",\"timestamp\":'' @ show_int unix @ ''}''"

text \<open>The multiplexer of \<open>Serve\<close>: status, content type and body. Other paths have no handler.\<close>

definition Serve :: "int \<Rightarrow> metrics \<Rightarrow> string \<Rightarrow> int \<times> string \<times> string" where
  "Serve unix m path =
     (if path = ''/metrics'' then (200, ''text/plain; charset=utf-8'', handleMetrics m)
      else if path = ''/health'' then (200, ''application/json'', metrics_health unix)
      else (404, ''text/plain; charset=utf-8'', ''404 page not found'' @ [nl]))"

subsection \<open>Reading a page\<close>

definition digit_of :: "char \<Rightarrow> int" where
  "digit_of c = int (of_char c) - 48"

definition read_digits :: "string \<Rightarrow> int" where
  "read_digits s = foldl (\<lambda>acc c. acc * 10 + digit_of c) 0 s"

definition read_int :: "string \<Rightarrow> int" where
  "read_int s = (case s of [] \<Rightarrow> 0 | c # cs \<Rightarrow> if c = CHR ''-'' then - read_digits cs else read_digits s)"

fun lines_of :: "string \<Rightarrow> string list" where
  "lines_of [] = []"
| "lines_of (c # cs) = (if c = nl then [] # lines_of cs
     else (case lines_of cs of [] \<Rightarrow> [[c]] | l # ls \<Rightarrow> (c # l) # ls))"

definition read_sample :: "string \<Rightarrow> (string \<times> int) list" where
  "read_sample l = (if l = [] \<or> hd l = CHR ''#'' then []
     else [(takeWhile (\<lambda>c. c \<noteq> CHR '' '') l, read_int (tl (dropWhile (\<lambda>c. c \<noteq> CHR '' '') l)))])"

definition scrape :: "string \<Rightarrow> (string \<times> int) list" where
  "scrape page = concat (map read_sample (lines_of page))"

lemma digit_char_of [simp]: "d < 10 \<Longrightarrow> digit_of (digit_char d) = int d"
  by (simp add: digit_of_def digit_char_def)

lemma digit_char_plain: "d < 10 \<Longrightarrow> 48 \<le> (of_char (digit_char d) :: nat)"
  by (simp add: digit_char_def)

lemma read_digits_snoc [simp]: "read_digits (s @ [c]) = read_digits s * 10 + digit_of c"
  by (simp add: read_digits_def)

lemma read_show_nat: "read_digits (show_nat n) = int n"
proof (induction n rule: show_nat.induct)
  case (1 n)
  have one: "read_digits [c] = digit_of c" for c by (simp add: read_digits_def)
  show ?case
  proof (cases "n < 10")
    case False
    then have "read_digits (show_nat (n div 10)) = int (n div 10)" using 1 by simp
    then show ?thesis using False by (subst show_nat.simps) (simp add: zdiv_int zmod_int)
  qed (subst show_nat.simps, simp add: one)
qed

lemma show_nat_chars: "c \<in> set (show_nat n) \<Longrightarrow> 48 \<le> (of_char c :: nat)"
proof (induction n rule: show_nat.induct)
  case (1 n)
  then show ?case by (subst (asm) (2) show_nat.simps) (auto simp: digit_char_plain split: if_splits)
qed

lemma show_nat_plain: "CHR ''-'' \<notin> set (show_nat n)" "nl \<notin> set (show_nat n)" "show_nat n \<noteq> []"
proof -
  show "CHR ''-'' \<notin> set (show_nat n)" using show_nat_chars [of "CHR ''-''" n] by auto
  show "nl \<notin> set (show_nat n)" using show_nat_chars [of nl n] by (auto simp: nl_def)
  show "show_nat n \<noteq> []" by (subst show_nat.simps) simp
qed

lemma read_show_int: "read_int (show_int z) = z"
proof (cases "z < 0")
  case False
  obtain c cs where c: "show_nat (nat z) = c # cs" using show_nat_plain(3) by (cases "show_nat (nat z)") auto
  then have "c \<noteq> CHR ''-''" using show_nat_plain(1) [of "nat z"] by auto
  then show ?thesis using False c read_show_nat [of "nat z"] by (simp add: show_int_def read_int_def)
qed (simp add: show_int_def read_int_def read_show_nat)

lemma show_int_line: "nl \<notin> set (show_int z)"
  using show_nat_plain(2) by (simp add: show_int_def nl_def)

lemma lines_of_line: "nl \<notin> set l \<Longrightarrow> lines_of (l @ nl # rest) = l # lines_of rest"
  by (induction l) auto

lemma lines_of_print: "\<forall>l \<in> set ls. nl \<notin> set l \<Longrightarrow> lines_of (print_lines ls) = ls"
  by (induction ls) (simp_all add: print_lines_def lines_of_line)

subsection \<open>The page is readable\<close>

text \<open>Names and labels have no space and no newline and do not start a comment; helps and types are one line.\<close>

definition word_text :: "string \<Rightarrow> bool" where
  "word_text s \<longleftrightarrow> list_all (\<lambda>c. c \<noteq> CHR '' '' \<and> c \<noteq> nl) s"

definition family_ok :: "metric_family \<Rightarrow> bool" where
  "family_ok f \<longleftrightarrow> word_text (mf_name f) \<and> mf_name f \<noteq> [] \<and> hd (mf_name f) \<noteq> CHR ''#'' \<and>
     list_all (\<lambda>c. c \<noteq> nl) (mf_help f @ mf_type f) \<and> list_all (word_text \<circ> fst) (mf_samples f)"

lemma list_all_neq: "list_all (\<lambda>c. c \<noteq> x) s \<longleftrightarrow> x \<notin> set s"
  by (induction s) auto

lemma word_text_iff: "word_text s \<longleftrightarrow> CHR '' '' \<notin> set s \<and> nl \<notin> set s"
  unfolding word_text_def by (induction s) auto

lemma families_ok: "list_all family_ok (metric_families m)"
  by (simp add: metric_families_def family_def family_ok_def word_text_def nl_def)

definition family_samples :: "metric_family \<Rightarrow> (string \<times> int) list" where
  "family_samples f = map (\<lambda>lv. (mf_name f @ fst lv, snd lv)) (mf_samples f)"

definition all_samples :: "metrics \<Rightarrow> (string \<times> int) list" where
  "all_samples m = concat (map family_samples (metric_families m))"

lemma read_sample_line:
  assumes "word_text name" and "name \<noteq> []" and "hd name \<noteq> CHR ''#''" and "word_text (fst lv)"
  shows "read_sample (sample_line name lv) = [(name @ fst lv, snd lv)]"
proof -
  have w: "\<forall>c \<in> set (name @ fst lv). c \<noteq> CHR '' ''" using assms(1,4) by (auto simp: word_text_def list_all_iff)
  have l: "sample_line name lv = (name @ fst lv) @ CHR '' '' # show_int (snd lv)" by (simp add: sample_line_def)
  have t: "takeWhile (\<lambda>c. c \<noteq> CHR '' '') (sample_line name lv) = name @ fst lv"
    "dropWhile (\<lambda>c. c \<noteq> CHR '' '') (sample_line name lv) = CHR '' '' # show_int (snd lv)"
    unfolding l using w by (simp_all add: takeWhile_append2 dropWhile_append2)
  have "sample_line name lv \<noteq> [] \<and> hd (sample_line name lv) = hd name" using assms(2) by (simp add: sample_line_def)
  then show ?thesis using assms(3) t by (simp add: read_sample_def read_show_int)
qed

lemma family_lines_read:
  assumes "family_ok f"
  shows "concat (map read_sample (family_lines f)) = family_samples f"
proof -
  have "concat (map read_sample (map (sample_line (mf_name f)) lvs)) = map (\<lambda>lv. (mf_name f @ fst lv, snd lv)) lvs"
    if "\<forall>lv \<in> set lvs. word_text (fst lv)" for lvs
    using that assms by (induction lvs) (simp_all add: family_ok_def read_sample_line)
  moreover have "\<forall>lv \<in> set (mf_samples f). word_text (fst lv)" using assms by (simp add: family_ok_def list_all_iff)
  ultimately show ?thesis by (simp add: family_lines_def family_samples_def read_sample_def)
qed

lemma family_lines_plain: "family_ok f \<Longrightarrow> l \<in> set (family_lines f) \<Longrightarrow> nl \<notin> set l"
proof -
  assume f: "family_ok f" and l: "l \<in> set (family_lines f)"
  have n: "nl \<notin> set (mf_name f)" "nl \<notin> set (mf_help f)" "nl \<notin> set (mf_type f)"
    "\<forall>lv \<in> set (mf_samples f). nl \<notin> set (fst lv)"
    using f by (simp_all add: family_ok_def word_text_iff list_all_neq) (simp add: list_all_iff word_text_iff)
  have c: "nl \<notin> set ''# HELP ''" "nl \<notin> set ''# TYPE ''" "nl \<notin> set '' ''" by (simp_all add: nl_def)
  have s: "nl \<notin> set (sample_line (mf_name f) lv)" if "lv \<in> set (mf_samples f)" for lv
    using that n c show_int_line [of "snd lv"] unfolding sample_line_def set_append by blast
  consider "l = ''# HELP '' @ mf_name f @ '' '' @ mf_help f" | "l = ''# TYPE '' @ mf_name f @ '' '' @ mf_type f" | "l = []"
    | lv where "lv \<in> set (mf_samples f)" "l = sample_line (mf_name f) lv"
    using l unfolding family_lines_def by fastforce
  then show "nl \<notin> set l"
  proof cases
    case 1
    show ?thesis unfolding 1 set_append using n c by blast
  next
    case 2
    show ?thesis unfolding 2 set_append using n c by blast
  next
    case 4
    then show ?thesis using s by simp
  qed simp
qed

lemma scrape_page: "scrape (handleMetrics m) = all_samples m"
proof -
  have ok: "\<forall>f \<in> set (metric_families m). family_ok f" using families_ok by (simp add: list_all_iff)
  then have "lines_of (handleMetrics m) = concat (map family_lines (metric_families m))"
    unfolding handleMetrics_def using family_lines_plain by (intro lines_of_print) auto
  moreover have "concat (map read_sample (concat (map family_lines fs))) = concat (map family_samples fs)"
    if "\<forall>f \<in> set fs. family_ok f" for fs
    using that by (induction fs) (simp_all add: family_lines_read)
  ultimately show ?thesis using ok by (simp add: scrape_def all_samples_def)
qed

lemma samples_distinct: "distinct (map fst (all_samples m))"
  by (simp add: all_samples_def metric_families_def family_def family_samples_def)


end
