(* ===== verification/Float64.thy ===== *)
theory Float64
  imports Prelude "HOL-Library.Log_Nat"
begin

section \<open>IEEE 754 binary64 arithmetic\<close>

text \<open>
  Go's \<open>float64\<close>, executable. A finite value is the rational number it denotes; an operation is
  the exact rational operation followed by one rounding to nearest, ties to even, with 53 bits
  of precision, gradual underflow (exponents from \<open>-1074\<close>) and overflow to infinity. The two
  zeros are one value: the code never divides by a zero it computed and never inspects a sign
  bit, so the difference is not observable. Each operation rounds once: this is the unfused
  evaluation of Go's amd64 compiler. The same rounding with another precision and without the
  exponent range is what \<open>math/big.Float\<close> does (\<open>rnd p None\<close>).

  The lemmas: rounding is monotone, keeps every representable number, and so arithmetic on
  numbers in the unit interval stays there.
\<close>

datatype f64 = Fin rat | PInf | NInf | NaN

subsection \<open>Rounding\<close>

text \<open>Round half to even, to an integer.\<close>

definition rne :: "rat \<Rightarrow> int" where
  "rne x = (let f = \<lfloor>x\<rfloor>; d = x - of_int f in
     if d < 1 / 2 then f else if 1 / 2 < d then f + 1 else if even f then f else f + 1)"

text \<open>The binary logarithm of a positive rational, rounded down.\<close>

definition ilog2 :: "rat \<Rightarrow> int" where
  "ilog2 x = (case quotient_of x of (a, b) \<Rightarrow>
     let k = bitlen a - bitlen b in if 2 powi k \<le> x then k else k - 1)"

text \<open>
  The exponent of the last place of \<open>x\<close> with \<open>p\<close> bits; a lower bound \<open>Some e\<close> gives gradual
  underflow.
\<close>

definition ulp_exp :: "int \<Rightarrow> int option \<Rightarrow> rat \<Rightarrow> int" where
  "ulp_exp p emin x = (let e = ilog2 \<bar>x\<bar> - (p - 1) in
     case emin of None \<Rightarrow> e | Some m \<Rightarrow> max e m)"

definition rnd :: "int \<Rightarrow> int option \<Rightarrow> rat \<Rightarrow> rat" where
  "rnd p emin x = (if x = 0 then 0
     else let u = 2 powi (ulp_exp p emin x) in of_int (rne (x / u)) * u)"

definition rnd64 :: "rat \<Rightarrow> rat" where
  "rnd64 x = rnd 53 (Some (- 1074)) x"

text \<open>A result whose exponent would exceed \<open>1023\<close> is an infinity.\<close>

definition to_f64 :: "rat \<Rightarrow> f64" where
  "to_f64 x = (let r = rnd64 x in
     if r \<noteq> 0 \<and> 1024 \<le> ilog2 \<bar>r\<bar> then (if 0 < r then PInf else NInf) else Fin r)"

subsection \<open>Operations\<close>

fun fadd :: "f64 \<Rightarrow> f64 \<Rightarrow> f64" where
  "fadd (Fin x) (Fin y) = to_f64 (x + y)"
| "fadd NaN _ = NaN"
| "fadd _ NaN = NaN"
| "fadd PInf NInf = NaN"
| "fadd NInf PInf = NaN"
| "fadd PInf _ = PInf"
| "fadd _ PInf = PInf"
| "fadd NInf _ = NInf"
| "fadd _ NInf = NInf"

fun fneg :: "f64 \<Rightarrow> f64" where
  "fneg (Fin x) = Fin (- x)"
| "fneg PInf = NInf"
| "fneg NInf = PInf"
| "fneg NaN = NaN"

definition fsub :: "f64 \<Rightarrow> f64 \<Rightarrow> f64" where
  "fsub a b = fadd a (fneg b)"

definition inf_of_sign :: "bool \<Rightarrow> f64" where
  "inf_of_sign neg = (if neg then NInf else PInf)"

fun fmul :: "f64 \<Rightarrow> f64 \<Rightarrow> f64" where
  "fmul (Fin x) (Fin y) = to_f64 (x * y)"
| "fmul NaN _ = NaN"
| "fmul _ NaN = NaN"
| "fmul (Fin x) PInf = (if x = 0 then NaN else inf_of_sign (x < 0))"
| "fmul (Fin x) NInf = (if x = 0 then NaN else inf_of_sign (0 < x))"
| "fmul PInf (Fin y) = (if y = 0 then NaN else inf_of_sign (y < 0))"
| "fmul NInf (Fin y) = (if y = 0 then NaN else inf_of_sign (0 < y))"
| "fmul PInf PInf = PInf"
| "fmul PInf NInf = NInf"
| "fmul NInf PInf = NInf"
| "fmul NInf NInf = PInf"

fun fdiv :: "f64 \<Rightarrow> f64 \<Rightarrow> f64" where
  "fdiv (Fin x) (Fin y) =
     (if y = 0 then (if x = 0 then NaN else inf_of_sign (x < 0)) else to_f64 (x / y))"
| "fdiv NaN _ = NaN"
| "fdiv _ NaN = NaN"
| "fdiv (Fin x) _ = Fin 0"
| "fdiv PInf (Fin y) = inf_of_sign (y < 0)"
| "fdiv NInf (Fin y) = inf_of_sign (0 \<le> y)"
| "fdiv a b = NaN"

text \<open>The comparisons of Go: every comparison with a NaN is false, except \<open>!=\<close>.\<close>

fun flt :: "f64 \<Rightarrow> f64 \<Rightarrow> bool" where
  "flt (Fin x) (Fin y) = (x < y)"
| "flt NaN _ = False"
| "flt _ NaN = False"
| "flt NInf NInf = False"
| "flt NInf _ = True"
| "flt _ NInf = False"
| "flt PInf _ = False"
| "flt _ PInf = True"

definition feq :: "f64 \<Rightarrow> f64 \<Rightarrow> bool" where
  "feq a b \<longleftrightarrow> a = b \<and> a \<noteq> NaN"

definition fle :: "f64 \<Rightarrow> f64 \<Rightarrow> bool" where
  "fle a b \<longleftrightarrow> flt a b \<or> feq a b"

text \<open>Conversions: an integer to \<open>float64\<close>, and \<open>float64\<close> to an integer (towards zero).\<close>

definition f64_of_int :: "int \<Rightarrow> f64" where
  "f64_of_int n = to_f64 (of_int n)"

definition f64_of_u64 :: "u64 \<Rightarrow> f64" where
  "f64_of_u64 w = f64_of_int (uint w)"

definition trunc_rat :: "rat \<Rightarrow> int" where
  "trunc_rat x = (if 0 \<le> x then \<lfloor>x\<rfloor> else \<lceil>x\<rceil>)"

text \<open>
  Go leaves the conversion of a NaN, an infinity or a value out of the range of the integer type
  to the implementation; amd64 answers the least \<open>int64\<close>.
\<close>

definition f64_to_int :: "f64 \<Rightarrow> int" where
  "f64_to_int a = (case a of
     Fin x \<Rightarrow> let t = trunc_rat x in if - (2 ^ 63) \<le> t \<and> t < 2 ^ 63 then t else - (2 ^ 63)
   | _ \<Rightarrow> - (2 ^ 63))"

fun is_finite :: "f64 \<Rightarrow> bool" where
  "is_finite (Fin _) = True"
| "is_finite _ = False"

subsection \<open>The binary logarithm\<close>

lemma rat_powi_nat: "0 \<le> n \<Longrightarrow> (2 :: rat) powi n = 2 ^ nat n"
  by (simp add: power_int_def)

lemma bitlen_rat_bounds:
  assumes "0 < a"
  shows "(2 :: rat) powi (bitlen a - 1) \<le> of_int a" and "(of_int a :: rat) < 2 powi bitlen a"
proof -
  have pos: "1 \<le> bitlen a"
    using assms by (simp add: bitlen_def floorlog_def)
  have b: "2 ^ nat (bitlen a - 1) \<le> a" "a < 2 ^ nat (bitlen a)"
    using bitlen_bounds [OF assms] by auto
  have "(2 :: rat) ^ nat (bitlen a - 1) = of_int (2 ^ nat (bitlen a - 1))" by simp
  also have "\<dots> \<le> of_int a" using b(1) by (simp only: of_int_le_iff)
  finally show "(2 :: rat) powi (bitlen a - 1) \<le> of_int a"
    using pos by (simp add: rat_powi_nat)
  have "(of_int a :: rat) < of_int (2 ^ nat (bitlen a))" using b(2) by (simp only: of_int_less_iff)
  then show "(of_int a :: rat) < 2 powi bitlen a"
    using pos by (simp add: rat_powi_nat)
qed

lemma ilog2_bounds:
  assumes "0 < x"
  shows "2 powi ilog2 x \<le> x" and "x < 2 powi (ilog2 x + 1)"
proof -
  obtain a b where q: "quotient_of x = (a, b)" by (cases "quotient_of x")
  have b: "0 < b" using q by (rule quotient_of_denom_pos)
  have x: "x = of_int a / of_int b" using q by (rule quotient_of_div)
  have a: "0 < a" using assms b x by (simp add: zero_less_divide_iff)
  let ?k = "bitlen a - bitlen b"
  have up: "x < 2 powi (?k + 1)"
  proof -
    have "x < 2 powi bitlen a / of_int b"
      using bitlen_rat_bounds(2) [OF a] b by (simp add: x divide_strict_right_mono)
    also have "\<dots> \<le> 2 powi bitlen a / 2 powi (bitlen b - 1)"
      by (rule divide_left_mono) (use bitlen_rat_bounds(1) [OF b] b in auto)
    also have "\<dots> = 2 powi (?k + 1)"
      by (simp add: power_int_diff power_int_add)
    finally show ?thesis .
  qed
  have lo: "2 powi (?k - 1) \<le> x"
  proof -
    have "(2 :: rat) powi (?k - 1) = 2 powi (bitlen a - 1) / 2 powi bitlen b"
      by (simp add: power_int_diff)
    also have "\<dots> \<le> 2 powi (bitlen a - 1) / of_int b"
      by (rule divide_left_mono) (use bitlen_rat_bounds(2) [OF b] b in auto)
    also have "\<dots> \<le> x"
      using bitlen_rat_bounds(1) [OF a] b by (simp add: x divide_right_mono)
    finally show ?thesis .
  qed
  show "2 powi ilog2 x \<le> x" and "x < 2 powi (ilog2 x + 1)"
    using up lo by (auto simp: ilog2_def q Let_def)
qed

lemma ilog2_unique:
  assumes "2 powi k \<le> x" and "x < 2 powi (k + 1)"
  shows "ilog2 x = k"
proof -
  have x: "0 < x" using assms(1) by (rule less_le_trans [rotated]) simp
  have "(2 :: rat) powi ilog2 x < 2 powi (k + 1)" "(2 :: rat) powi k < 2 powi (ilog2 x + 1)"
    using ilog2_bounds [OF x] assms by linarith+
  then have "ilog2 x < k + 1" "k < ilog2 x + 1"
    by (metis not_less power_int_increasing one_le_numeral)+
  then show ?thesis by linarith
qed

lemma ilog2_mono:
  assumes "0 < x" and "x \<le> y"
  shows "ilog2 x \<le> ilog2 y"
proof (rule ccontr)
  assume "\<not> ?thesis"
  then have "(2 :: rat) powi (ilog2 y + 1) \<le> 2 powi ilog2 x"
    by (intro power_int_increasing) auto
  then show False
    using ilog2_bounds [OF assms(1)] ilog2_bounds [of y] assms by linarith
qed

subsection \<open>Rounding to an integer\<close>

lemma rne_of_int [simp]: "rne (of_int k) = k"
  by (simp add: rne_def)

lemma rne_bounds: "\<lfloor>x\<rfloor> \<le> rne x \<and> rne x \<le> \<lfloor>x\<rfloor> + 1"
  by (simp add: rne_def Let_def)

lemma rne_pow2 [simp]: "rne (2 ^ n) = 2 ^ n"
  by (metis of_int_numeral of_int_power rne_of_int)

lemma rne_error: "\<bar>x - of_int (rne x)\<bar> \<le> 1 / 2"
proof -
  have "of_int \<lfloor>x\<rfloor> \<le> x" "x < of_int \<lfloor>x\<rfloor> + 1" by linarith+
  moreover have "rne x = \<lfloor>x\<rfloor> \<and> x - of_int \<lfloor>x\<rfloor> \<le> 1 / 2 \<or> rne x = \<lfloor>x\<rfloor> + 1 \<and> 1 / 2 \<le> x - of_int \<lfloor>x\<rfloor>"
    by (auto simp: rne_def Let_def)
  ultimately show ?thesis by (elim disjE conjE) (simp_all add: abs_le_iff)
qed

lemma rne_mono:
  assumes "x \<le> y"
  shows "rne x \<le> rne y"
proof (cases "\<lfloor>x\<rfloor> = \<lfloor>y\<rfloor>")
  case True
  with assms show ?thesis by (simp add: rne_def Let_def)
next
  case False
  with assms have "\<lfloor>x\<rfloor> + 1 \<le> \<lfloor>y\<rfloor>"
    using floor_mono [OF assms] by linarith
  then show ?thesis
    using rne_bounds [of x] rne_bounds [of y] by linarith
qed

lemma rne_minus: "rne (- x) = - rne x"
proof (cases "x \<in> \<int>")
  case True
  then obtain k where "x = of_int k" by (auto elim: Ints_cases)
  then show ?thesis by (metis of_int_minus rne_of_int)
next
  case False
  then have fl: "\<lfloor>- x\<rfloor> = - \<lfloor>x\<rfloor> - 1"
  proof -
    have "of_int \<lfloor>x\<rfloor> \<noteq> x" using False by (metis Ints_of_int)
    then have "of_int \<lfloor>x\<rfloor> < x" using of_int_floor_le [of x] by linarith
    then show ?thesis by (intro floor_unique) linarith+
  qed
  show ?thesis by (auto simp: rne_def Let_def fl)
qed

subsection \<open>Rounding to a precision\<close>

lemma ulp_exp_ge: "ilog2 \<bar>x\<bar> - (p - 1) \<le> ulp_exp p emin x"
  by (simp add: ulp_exp_def Let_def split: option.split)

lemma ulp_exp_mono:
  assumes "0 < x" and "x \<le> y"
  shows "ulp_exp p emin x \<le> ulp_exp p emin y"
  using ilog2_mono [OF assms] assms by (auto simp: ulp_exp_def Let_def split: option.split)

lemma powi_split: "(2 :: rat) powi a = 2 powi (a - b) * 2 powi b"
  by (simp add: power_int_diff)

lemma rnd_minus [simp]: "rnd p emin (- x) = - rnd p emin x"
  by (simp add: rnd_def Let_def ulp_exp_def rne_minus)

lemma rnd_zero [simp]: "rnd p emin 0 = 0"
  by (simp add: rnd_def)

lemma rnd_nonneg: "0 \<le> x \<Longrightarrow> 0 \<le> rnd p emin x"
  using rne_mono [of 0 "x / 2 powi ulp_exp p emin x"] rne_of_int [of 0]
  by (simp add: rnd_def Let_def)

text \<open>A positive number rounds to at most the next power of two.\<close>

lemma rnd_le_power:
  assumes "0 < x" and "0 < p"
  shows "rne (x / 2 powi ulp_exp p emin x) \<le> 2 ^ nat p"
    and "rnd p emin x \<le> 2 powi (ulp_exp p emin x + p)"
proof -
  let ?e = "ulp_exp p emin x"
  have "x < 2 powi (ilog2 x + 1)" using assms(1) by (rule ilog2_bounds)
  also have "\<dots> \<le> 2 powi (?e + p)"
    using ulp_exp_ge [of x p emin] assms(1) by (intro power_int_increasing) auto
  finally have "x / 2 powi ?e \<le> 2 ^ nat p"
    using assms(2) by (simp add: divide_le_eq power_int_add rat_powi_nat mult.commute)
  then have "rne (x / 2 powi ?e) \<le> rne (of_int (2 ^ nat p))"
    by (intro rne_mono) simp
  then show 1: "rne (x / 2 powi ?e) \<le> 2 ^ nat p" by simp
  then have "(of_int (rne (x / 2 powi ?e)) :: rat) \<le> of_int (2 ^ nat p)" by (simp only: of_int_le_iff)
  then have "of_int (rne (x / 2 powi ?e)) * 2 powi ?e \<le> 2 powi p * (2 powi ?e :: rat)"
    using assms(2) by (intro mult_right_mono) (simp_all add: rat_powi_nat)
  then show "rnd p emin x \<le> 2 powi (?e + p)"
    using assms(1) by (simp add: rnd_def Let_def power_int_add mult.commute)
qed

text \<open>With the exponent range not binding, a positive number rounds to at least its power of two.\<close>

lemma rnd_ge_power:
  assumes "0 < x" and "0 < p" and "ulp_exp p emin x = ilog2 x - (p - 1)"
  shows "2 powi ilog2 x \<le> rnd p emin x"
proof -
  let ?e = "ulp_exp p emin x"
  have "2 powi (p - 1 + ?e) \<le> x" using ilog2_bounds(1) [OF assms(1)] assms(3) by simp
  then have "2 ^ nat (p - 1) \<le> x / 2 powi ?e"
    using assms(2) by (simp add: le_divide_eq power_int_add rat_powi_nat)
  then have "rne (of_int (2 ^ nat (p - 1))) \<le> rne (x / 2 powi ?e)"
    by (intro rne_mono) simp
  then have "(of_int (2 ^ nat (p - 1)) :: rat) \<le> of_int (rne (x / 2 powi ?e))"
    by (simp only: of_int_le_iff rne_of_int)
  then have "2 powi (p - 1) * 2 powi ?e \<le> of_int (rne (x / 2 powi ?e)) * (2 powi ?e :: rat)"
    using assms(2) by (intro mult_right_mono) (simp_all add: rat_powi_nat)
  moreover have "(2 :: rat) powi ilog2 x = 2 powi (p - 1) * 2 powi ?e"
    using assms(3) by (simp flip: power_int_add)
  ultimately show ?thesis
    using assms(1) by (simp add: rnd_def Let_def)
qed

lemma rnd_mono_pos:
  assumes "0 < x" and "x \<le> y" and "0 < p"
  shows "rnd p emin x \<le> rnd p emin y"
proof (cases "ulp_exp p emin x = ulp_exp p emin y")
  case True
  have "rne (x / 2 powi ulp_exp p emin y) \<le> rne (y / 2 powi ulp_exp p emin y)"
    using assms(2) by (intro rne_mono divide_right_mono) auto
  with True assms show ?thesis by (simp add: rnd_def Let_def)
next
  case False
  let ?ex = "ulp_exp p emin x" and ?ey = "ulp_exp p emin y"
  have lt: "?ex < ?ey" using False ulp_exp_mono [OF assms(1,2)] by (simp add: order_less_le)
  then have ey: "?ey = ilog2 y - (p - 1)"
    using assms by (auto simp: ulp_exp_def Let_def split: option.splits)
  have "rnd p emin x \<le> 2 powi (?ex + p)" using assms by (intro rnd_le_power)
  also have "\<dots> \<le> 2 powi ilog2 y" using lt ey by (intro power_int_increasing) auto
  also have "\<dots> \<le> rnd p emin y" using assms ey by (intro rnd_ge_power) auto
  finally show ?thesis .
qed

lemma rnd_mono:
  assumes "x \<le> y" and "0 < p"
  shows "rnd p emin x \<le> rnd p emin y"
proof -
  consider "0 < x" | "x \<le> 0" "0 \<le> y" | "y < 0" by linarith
  then show ?thesis
  proof cases
    case 1 then show ?thesis using assms by (intro rnd_mono_pos)
  next
    case 2 then show ?thesis
      using rnd_nonneg [of y p emin] rnd_nonneg [of "- x" p emin] by simp
  next
    case 3 then show ?thesis
      using rnd_mono_pos [of "- y" "- x" p emin] assms by simp
  qed
qed

subsection \<open>Representable numbers\<close>

lemma rnd_fix_less:
  assumes x: "x = of_int m * 2 powi e" and m: "\<bar>m\<bar> < 2 ^ nat p" and p: "0 < p"
    and e: "case emin of None \<Rightarrow> True | Some k \<Rightarrow> k \<le> e"
  shows "rnd p emin x = x"
proof (cases "x = 0")
  case False
  define u where "u = ulp_exp p emin x"
  have "\<bar>x\<bar> = of_int \<bar>m\<bar> * 2 powi e" by (simp add: x abs_mult)
  also have "(of_int \<bar>m\<bar> :: rat) < of_int (2 ^ nat p)" using m by (simp only: of_int_less_iff)
  then have "of_int \<bar>m\<bar> * 2 powi e < (2 powi (p + e) :: rat)"
    using p by (simp add: power_int_add rat_powi_nat)
  finally have "(2 :: rat) powi ilog2 \<bar>x\<bar> < 2 powi (p + e)"
    using ilog2_bounds(1) [of "\<bar>x\<bar>"] False by simp
  then have "ilog2 \<bar>x\<bar> < p + e"
    by (metis not_less power_int_increasing one_le_numeral)
  then have "u \<le> e"
    using e by (auto simp: u_def ulp_exp_def Let_def split: option.splits)
  then have "(2 :: rat) powi e = 2 ^ nat (e - u) * 2 powi u"
    using powi_split [of e u] by (simp add: rat_powi_nat)
  then have xu: "x / 2 powi u = of_int (m * 2 ^ nat (e - u))" by (simp add: x)
  have "of_int (rne (x / 2 powi u)) = x / 2 powi u" unfolding xu rne_of_int ..
  with False show ?thesis by (simp add: rnd_def Let_def flip: u_def)
qed simp

lemma rnd_fix:
  assumes x: "x = of_int m * 2 powi e" and m: "\<bar>m\<bar> \<le> 2 ^ nat p" and p: "1 < p"
    and e: "case emin of None \<Rightarrow> True | Some k \<Rightarrow> k \<le> e"
  shows "rnd p emin x = x"
proof (cases "\<bar>m\<bar> = 2 ^ nat p")
  case False
  with assms show ?thesis by (intro rnd_fix_less) auto
next
  case True
  define k :: int where "k = sgn m * 2 ^ nat (p - 1)"
  have p2: "nat p = Suc (nat (p - 1))" using p by simp
  have "m = sgn m * \<bar>m\<bar>" by (simp add: sgn_mult_abs)
  also have "\<dots> = 2 * k" unfolding True k_def p2 by simp
  finally have m2: "m = 2 * k" .
  have k: "\<bar>k\<bar> < 2 ^ nat p" unfolding p2 by (simp add: k_def abs_mult sgn_if)
  have xk: "x = of_int k * 2 powi (e + 1)" by (simp add: x m2 power_int_add)
  show ?thesis
    by (rule rnd_fix_less [OF xk k]) (use p e in \<open>auto split: option.splits\<close>)
qed

lemma abs_rne_le:
  assumes "0 < p"
  shows "\<bar>rne (x / 2 powi ulp_exp p emin x)\<bar> \<le> 2 ^ nat p"
proof -
  consider "x = 0" | "0 < x" | "x < 0" by linarith
  then show ?thesis
  proof cases
    case 1 then show ?thesis using rne_of_int [of 0] by simp
  next
    case 2
    then have "0 \<le> rne (x / 2 powi ulp_exp p emin x)"
      using rne_mono [of 0 "x / 2 powi ulp_exp p emin x"] rne_of_int [of 0] by simp
    with 2 assms show ?thesis using rnd_le_power(1) [of x p emin] by simp
  next
    case 3
    then have "0 \<le> rne (- x / 2 powi ulp_exp p emin x)"
      using rne_mono [of 0 "- x / 2 powi ulp_exp p emin x"] rne_of_int [of 0] by (simp add: divide_nonpos_pos)
    with 3 assms show ?thesis
      using rnd_le_power(1) [of "- x" p emin] rne_minus [of "x / 2 powi ulp_exp p emin x"]
      by (simp add: ulp_exp_def)
  qed
qed

lemma ulp_exp_ge_emin: "case emin of None \<Rightarrow> True | Some k \<Rightarrow> k \<le> ulp_exp p emin x"
  by (simp add: ulp_exp_def Let_def split: option.split)

lemma rnd_idem [simp]:
  assumes "1 < p"
  shows "rnd p emin (rnd p emin x) = rnd p emin x"
proof (cases "x = 0")
  case False
  have "rnd p emin x = of_int (rne (x / 2 powi ulp_exp p emin x)) * 2 powi ulp_exp p emin x"
    using False by (simp add: rnd_def Let_def)
  then show ?thesis
    by (rule rnd_fix) (use assms abs_rne_le ulp_exp_ge_emin in auto)
qed simp

text \<open>The rounding error is at most half a unit in the last place.\<close>

lemma rnd_error: "\<bar>x - rnd p emin x\<bar> \<le> 2 powi (ulp_exp p emin x) / 2"
proof (cases "x = 0")
  case False
  let ?u = "2 powi ulp_exp p emin x :: rat"
  have "x - rnd p emin x = (x / ?u - of_int (rne (x / ?u))) * ?u"
    using False by (simp add: rnd_def Let_def left_diff_distrib)
  then have "\<bar>x - rnd p emin x\<bar> = \<bar>x / ?u - of_int (rne (x / ?u))\<bar> * ?u"
    by (simp add: abs_mult)
  also have "\<dots> \<le> 1 / 2 * ?u" by (intro mult_right_mono rne_error) simp
  finally show ?thesis by simp
qed simp

subsection \<open>Binary64\<close>

lemma rnd64_mono: "x \<le> y \<Longrightarrow> rnd64 x \<le> rnd64 y"
  by (simp add: rnd64_def rnd_mono)

lemma rnd64_minus [simp]: "rnd64 (- x) = - rnd64 x"
  by (simp add: rnd64_def)

lemma rnd64_idem [simp]: "rnd64 (rnd64 x) = rnd64 x"
  by (simp add: rnd64_def)

lemma rnd64_zero [simp]: "rnd64 0 = 0"
  by (simp add: rnd64_def)

lemma rnd64_fix:
  "x = of_int m * 2 powi e \<Longrightarrow> \<bar>m\<bar> \<le> 2 ^ 53 \<Longrightarrow> - 1074 \<le> e \<Longrightarrow> rnd64 x = x"
  unfolding rnd64_def by (rule rnd_fix [where m = m and e = e]) simp_all

lemma rnd64_int [simp]: "\<bar>n\<bar> \<le> 2 ^ 53 \<Longrightarrow> rnd64 (of_int n) = of_int n"
  by (rule rnd64_fix [where e = 0]) simp_all

lemma rnd64_one [simp]: "rnd64 1 = 1"
  using rnd64_int [of 1] by simp

lemma rnd64_half [simp]: "rnd64 (1 / 2) = 1 / 2"
  by (rule rnd64_fix [where m = 1 and e = "-1"]) (simp_all add: power_int_minus)

lemma rnd64_eighths: "\<bar>m\<bar> \<le> 2 ^ 53 \<Longrightarrow> rnd64 (of_int m / 8) = of_int m / 8"
  by (rule rnd64_fix [where e = "-3"]) (simp_all add: power_int_minus)

lemma rnd64_nonneg: "0 \<le> x \<Longrightarrow> 0 \<le> rnd64 x"
  using rnd64_mono [of 0 x] by simp

lemma rnd64_le_one: "x \<le> 1 \<Longrightarrow> rnd64 x \<le> 1"
  using rnd64_mono [of x 1] by simp

lemma rnd64_powi: "- 1074 \<le> k \<Longrightarrow> rnd64 (2 powi k) = 2 powi k"
  by (rule rnd64_fix [where m = 1 and e = k]) simp_all

lemma rnd64_abs_le_powi:
  assumes "\<bar>x\<bar> \<le> 2 powi k" and "- 1074 \<le> k"
  shows "\<bar>rnd64 x\<bar> \<le> 2 powi k"
proof -
  have "x \<le> 2 powi k" "- x \<le> 2 powi k" using assms(1) by linarith+
  then have "rnd64 x \<le> rnd64 (2 powi k)" "rnd64 (- x) \<le> rnd64 (2 powi k)"
    by (auto intro: rnd64_mono simp del: rnd64_minus)
  with assms(2) show ?thesis by (simp add: rnd64_powi)
qed

lemma to_f64_finite:
  assumes "\<bar>x\<bar> \<le> 2 powi k" and "- 1074 \<le> k" and "k < 1024"
  shows "to_f64 x = Fin (rnd64 x)"
proof -
  have "ilog2 \<bar>rnd64 x\<bar> < 1024" if "rnd64 x \<noteq> 0"
  proof -
    have "(2 :: rat) powi ilog2 \<bar>rnd64 x\<bar> \<le> 2 powi k"
      by (rule order_trans [OF ilog2_bounds(1) rnd64_abs_le_powi [OF assms(1,2)]]) (use that in simp)
    then have "ilog2 \<bar>rnd64 x\<bar> \<le> k"
      using power_int_strict_increasing [of k "ilog2 \<bar>rnd64 x\<bar>" "2 :: rat"] by (fastforce simp: not_less)
    with assms(3) show ?thesis by simp
  qed
  then show ?thesis by (auto simp: to_f64_def Let_def)
qed

lemma to_f64_small: "\<bar>x\<bar> \<le> 2 ^ 64 \<Longrightarrow> to_f64 x = Fin (rnd64 x)"
  using to_f64_finite [of x 64] by (simp add: rat_powi_nat)

lemma to_f64_unit:
  assumes "0 \<le> x" and "x \<le> 1"
  shows "to_f64 x = Fin (rnd64 x)"
  using assms by (intro to_f64_small) auto

lemma f64_of_u64_fin: "f64_of_u64 w = Fin (rnd64 (of_int (uint w)))"
proof -
  have "uint w \<le> 2 ^ 64" using uint_bounded [of w] by simp
  then have "(of_int (uint w) :: rat) \<le> of_int (2 ^ 64)" by (simp only: of_int_le_iff)
  moreover have "0 \<le> (of_int (uint w) :: rat)" by (simp del: of_int_uint)
  ultimately have "\<bar>of_int (uint w) :: rat\<bar> \<le> 2 ^ 64" by (simp only: abs_of_nonneg of_int_power of_int_numeral)
  then show ?thesis unfolding f64_of_u64_def f64_of_int_def by (rule to_f64_small)
qed

text \<open>The values a \<open>float64\<close> variable can hold.\<close>

definition f64_valid :: "f64 \<Rightarrow> bool" where
  "f64_valid a = (case a of Fin x \<Rightarrow> to_f64 x = Fin x | _ \<Rightarrow> True)"

lemma f64_valid_rnd64: "f64_valid (Fin x) \<Longrightarrow> rnd64 x = x"
  by (auto simp: f64_valid_def to_f64_def Let_def split: if_splits)

lemma f64_valid_unit: "rnd64 x = x \<Longrightarrow> 0 \<le> x \<Longrightarrow> x \<le> 1 \<Longrightarrow> f64_valid (Fin x)"
  by (simp add: f64_valid_def to_f64_unit)

subsection \<open>Blending two numbers of the unit interval\<close>

lemma rnd64_one_minus_error:
  assumes "0 \<le> w" and "w \<le> 1"
  shows "rnd64 (1 - w) \<le> 1 - w + 1 / 2 ^ 54"
proof (cases "w = 0 \<or> w = 1")
  case False
  with assms have x: "0 < 1 - w" "1 - w < 2 powi 0" by auto
  have "(2 :: rat) powi ilog2 (1 - w) < 2 powi 0"
    using ilog2_bounds(1) [OF x(1)] x(2) by (rule order_le_less_trans)
  then have "ilog2 (1 - w) < 0"
    by (metis not_less power_int_increasing one_le_numeral)
  then have "ulp_exp 53 (Some (- 1074)) (1 - w) \<le> - 53"
    using x by (simp add: ulp_exp_def)
  then have "(2 :: rat) powi ulp_exp 53 (Some (- 1074)) (1 - w) \<le> 2 powi (- 53)"
    by (intro power_int_increasing) auto
  then have "(2 :: rat) powi ulp_exp 53 (Some (- 1074)) (1 - w) / 2 \<le> 1 / 2 ^ 54"
    by (simp add: power_int_minus)
  then show ?thesis
    using rnd_error [of "1 - w" 53 "Some (- 1074)"] unfolding rnd64_def by linarith
qed auto

lemma rnd64_add_complement:
  assumes "0 \<le> w" and "w \<le> 1"
  shows "rnd64 (w + rnd64 (1 - w)) \<le> 1"
proof -
  have "w + rnd64 (1 - w) \<le> 1 + 1 / 2 ^ 54"
    using rnd64_one_minus_error [OF assms] by simp
  then have "rnd64 (w + rnd64 (1 - w)) \<le> rnd64 (1 + 1 / 2 ^ 54)" by (rule rnd64_mono)
  also have "rnd64 (1 + 1 / 2 ^ 54) = 1"
  proof -
    have "ilog2 (1 + 1 / 2 ^ 54) = 0" by (rule ilog2_unique) (simp_all add: power_int_add)
    then have e: "ulp_exp 53 (Some (- 1074)) (1 + 1 / 2 ^ 54) = - 52" by (simp add: ulp_exp_def)
    have f: "\<lfloor>2 ^ 52 + 1 / 4 :: rat\<rfloor> = 2 ^ 52" by (rule floor_unique) simp_all
    have "rne (2 ^ 52 + 1 / 4) = 2 ^ 52" unfolding rne_def f Let_def by simp
    then show ?thesis unfolding rnd64_def rnd_def e by (simp add: power_int_minus field_simps)
  qed
  finally show ?thesis .
qed

text \<open>
  \<open>w * a + (1 - w) * b\<close>, as the code computes it, stays in the unit interval: the shape of
  every moving average and of the priority formula.
\<close>

lemma unit_blend:
  assumes w: "rnd64 w = w" "0 \<le> w" "w \<le> 1" and a: "0 \<le> a" "a \<le> 1" and b: "0 \<le> b" "b \<le> 1"
  obtains r where "fadd (fmul (Fin w) (Fin a)) (fmul (fsub (Fin 1) (Fin w)) (Fin b)) = Fin r"
    and "fadd (fmul (fsub (Fin 1) (Fin w)) (Fin b)) (fmul (Fin w) (Fin a)) = Fin r"
    and "r = rnd64 (rnd64 (w * a) + rnd64 (rnd64 (1 - w) * b))" and "0 \<le> r" and "r \<le> 1"
proof -
  define c where "c = rnd64 (1 - w)"
  have c: "0 \<le> c" "c \<le> 1" "rnd64 c = c"
    using w by (auto simp: c_def rnd64_nonneg rnd64_le_one)
  have wa: "0 \<le> w * a" "w * a \<le> w" using w a by (auto simp: mult_left_le)
  have cb: "0 \<le> c * b" "c * b \<le> c" using c b by (auto simp: mult_left_le)
  have p: "0 \<le> rnd64 (w * a)" "rnd64 (w * a) \<le> w"
    using rnd64_nonneg [OF wa(1)] rnd64_mono [OF wa(2)] w(1) by auto
  have q: "0 \<le> rnd64 (c * b)" "rnd64 (c * b) \<le> c"
    using rnd64_nonneg [OF cb(1)] rnd64_mono [OF cb(2)] c(3) by auto
  have s: "rnd64 (rnd64 (w * a) + rnd64 (c * b)) \<le> 1"
    using rnd64_mono [OF add_mono [OF p(2) q(2)]] rnd64_add_complement [OF w(2,3)]
    by (simp add: c_def)
  have f: "fsub (Fin 1) (Fin w) = Fin c" "fmul (Fin w) (Fin a) = Fin (rnd64 (w * a))"
    "fmul (Fin c) (Fin b) = Fin (rnd64 (c * b))"
    using w wa cb c by (simp_all add: fsub_def to_f64_unit c_def)
  have g: "to_f64 (rnd64 (w * a) + rnd64 (c * b)) = Fin (rnd64 (rnd64 (w * a) + rnd64 (c * b)))"
    using p q w c by (intro to_f64_small) simp
  show ?thesis
  proof (rule that)
    show "fadd (fmul (Fin w) (Fin a)) (fmul (fsub (Fin 1) (Fin w)) (Fin b)) =
        Fin (rnd64 (rnd64 (w * a) + rnd64 (c * b)))"
      by (simp only: f fadd.simps g)
    show "fadd (fmul (fsub (Fin 1) (Fin w)) (Fin b)) (fmul (Fin w) (Fin a)) =
        Fin (rnd64 (rnd64 (w * a) + rnd64 (c * b)))"
      by (simp only: f fadd.simps add.commute [of "rnd64 (c * b)"] g)
    show "rnd64 (rnd64 (w * a) + rnd64 (c * b)) = rnd64 (rnd64 (w * a) + rnd64 (rnd64 (1 - w) * b))"
      by (simp add: c_def)
    show "0 \<le> rnd64 (rnd64 (w * a) + rnd64 (c * b))" using p q by (intro rnd64_nonneg) simp
    show "rnd64 (rnd64 (w * a) + rnd64 (c * b)) \<le> 1" by (rule s)
  qed
qed

end
