(* ===== verification/Pkg_Types.thy ===== *)
theory Pkg_Types
  imports Float64
begin

section \<open>The shared types: pkg/types\<close>

text \<open>
  The data of \<open>pkg/types/block.go\<close> and \<open>pkg/types/transaction.go\<close>: L2 block headers and blocks,
  batches and their status, the metadata of a pending transaction and its priority, and the
  sequencer status. A transaction, a log and a receipt are values of go-ethereum: the records hold
  what the code reads from them (the accessors of a transaction, the fields of a receipt).
  Big integers are \<open>int\<close>, times are nanoseconds.

  The lemmas on \<open>ComputePriority\<close>: with a weight and a score in the unit interval the priority is
  a number of the unit interval, and it grows with the score and with a positive gas price.
\<close>

subsection \<open>go-ethereum values\<close>

record tx =
  tx_Hash :: hash
  tx_Type :: u8
  tx_Nonce :: u64
  tx_Gas :: u64
  tx_GasPrice :: int
  tx_GasTipCap :: int
  tx_GasFeeCap :: int
  tx_Value :: int
  tx_To :: "address option"
  tx_Data :: bytes

record log_entry =
  log_Address :: address
  log_Topics :: "hash list"
  log_Data :: bytes

record receipt =
  rc_Type :: u8
  rc_TxHash :: hash
  rc_Status :: u64
  rc_GasUsed :: u64
  rc_CumulativeGasUsed :: u64
  rc_BlockHash :: hash
  rc_BlockNumber :: int
  rc_TransactionIndex :: nat
  rc_ContractAddress :: address
  rc_Logs :: "log_entry list"
  rc_Bloom :: bytes

subsection \<open>Blocks and batches\<close>

record l1_origin =
  L1BlockNumber :: u64
  L1BlockHash :: hash
  L1Timestamp :: u64

definition no_l1_origin :: l1_origin where
  "no_l1_origin = \<lparr>L1BlockNumber = 0, L1BlockHash = zero_hash, L1Timestamp = 0\<rparr>"

record l2_header =
  hd_Number :: u64
  hd_Hash :: hash
  hd_ParentHash :: hash
  hd_Timestamp :: u64
  hd_StateRoot :: hash
  hd_GasUsed :: u64
  hd_GasLimit :: u64
  hd_TxCount :: int
  hd_SequencerAddr :: address
  hd_L1Origin :: l1_origin
  hd_BaseFee :: "int option"

record l2_block =
  bk_Header :: l2_header
  bk_Transactions :: "tx list"
  bk_Receipts :: "receipt list"

definition NewL2Block :: "l2_header \<Rightarrow> tx list \<Rightarrow> l2_block" where
  "NewL2Block h txs = \<lparr>bk_Header = h, bk_Transactions = txs, bk_Receipts = []\<rparr>"

datatype batch_status = BatchPending | BatchSubmitted | BatchConfirmed | BatchFinalized
  | BatchFailed | BatchStatusOther int

fun batch_status_string :: "batch_status \<Rightarrow> string" where
  "batch_status_string BatchPending = ''pending''"
| "batch_status_string BatchSubmitted = ''submitted''"
| "batch_status_string BatchConfirmed = ''confirmed''"
| "batch_status_string BatchFinalized = ''finalized''"
| "batch_status_string BatchFailed = ''failed''"
| "batch_status_string (BatchStatusOther _) = ''unknown''"

record batch =
  bt_Index :: u64
  bt_StartBlock :: u64
  bt_EndBlock :: u64
  bt_BlockCount :: int
  bt_L1TxHash :: hash
  bt_Timestamp :: int
  bt_SizeBytes :: u64
  bt_Status :: batch_status

subsection \<open>Pending transactions\<close>

record tx_meta =
  Tx :: tx
  TasteScore :: f64
  Priority :: f64
  ReceivedAt :: int
  Sender :: address
  Nonce :: u64
  GasPrice :: "int option"
  GasTipCap :: int
  GasFeeCap :: int

text \<open>
  The normalised gas price. \<open>big.Float.SetInt\<close> keeps the integer exactly, with a precision of at
  least 64 bits; \<open>Quo\<close> rounds to the larger precision of its arguments and \<open>Float64\<close> rounds once
  more; the ratio is capped at one. Without a positive gas price the factor is \<open>0.5\<close>.
\<close>

definition max_gwei :: int where
  "max_gwei = 100 * 1000000000"

definition gas_price_ratio :: "int \<Rightarrow> f64" where
  "gas_price_ratio p =
     to_f64 (rnd (max (max 64 (bitlen p)) (max 64 (bitlen max_gwei))) None (of_int p / of_int max_gwei))"

definition gas_price_factor :: "int option \<Rightarrow> f64" where
  "gas_price_factor gp = (case gp of
     None \<Rightarrow> Fin (1 / 2)
   | Some p \<Rightarrow> if 0 < p then
       (let ratio = gas_price_ratio p in if flt (Fin 1) ratio then Fin 1 else ratio)
     else Fin (1 / 2))"

definition ComputePriority :: "tx_meta \<Rightarrow> f64 \<Rightarrow> tx_meta" where
  "ComputePriority m w = m\<lparr>Priority :=
     fadd (fmul (fsub (Fin 1) w) (gas_price_factor (GasPrice m))) (fmul w (TasteScore m))\<rparr>"

record sequencer_status =
  st_IsSequencing :: bool
  st_CurrentBlock :: u64
  st_PendingTxCount :: int
  st_LastBatchIndex :: u64
  st_L1Head :: u64
  st_UptimeSeconds :: f64
  st_SequencerAddr :: address
  st_BlockTime :: int
  st_ChainID :: int

subsection \<open>The priority formula\<close>

lemma rnd_one_prec: "1 < p \<Longrightarrow> rnd p None 1 = 1"
  by (rule rnd_fix [where m = 1 and e = 0]) auto

lemma gas_ratio_mono:
  assumes "0 < p" and "p \<le> q" and "q < 2 ^ 64"
  shows "rnd (max (max 64 (bitlen p)) (max 64 (bitlen max_gwei))) None (of_int p / of_int max_gwei)
    \<le> rnd (max (max 64 (bitlen q)) (max 64 (bitlen max_gwei))) None (of_int q / of_int max_gwei)"
proof -
  have bl: "bitlen p \<le> 64" "bitlen q \<le> 64" "bitlen max_gwei \<le> 64"
    using assms bitlen_le_iff_power [of p 64] bitlen_le_iff_power [of q 64]
      bitlen_le_iff_power [of max_gwei 64] by (auto simp: max_gwei_def)
  have "(of_int p :: rat) / of_int max_gwei \<le> of_int q / of_int max_gwei"
    using assms(2) by (intro divide_right_mono) (auto simp: max_gwei_def)
  with bl show ?thesis by (simp add: max_def rnd_mono)
qed

text \<open>The factor is the rounded ratio, capped at one.\<close>

definition capped_ratio :: "int \<Rightarrow> rat" where
  "capped_ratio p = rnd64 (min 1
     (rnd (max (max 64 (bitlen p)) (max 64 (bitlen max_gwei))) None (of_int p / of_int max_gwei)))"

lemma gas_price_factor_pos:
  assumes "0 < p"
  shows "gas_price_factor (Some p) = Fin (capped_ratio p)"
proof -
  define r where "r = rnd (max (max 64 (bitlen p)) (max 64 (bitlen max_gwei))) None (of_int p / of_int max_gwei)"
  have r0: "0 \<le> r" unfolding r_def using assms by (intro rnd_nonneg) (simp add: max_gwei_def)
  show ?thesis
  proof (cases "r \<le> 1")
    case True
    then have "to_f64 r = Fin (rnd64 r)" "rnd64 r \<le> 1" using r0 by (auto intro: to_f64_unit rnd64_le_one)
    with True assms show ?thesis
      by (simp add: gas_price_factor_def gas_price_ratio_def capped_ratio_def flip: r_def)
  next
    case False
    then have ge: "1 \<le> rnd64 r" using rnd64_mono [of 1 r] by simp
    have "to_f64 r = Fin (rnd64 r) \<or> to_f64 r = PInf"
      using ge by (auto simp: to_f64_def Let_def)
    with False ge assms show ?thesis
      by (auto simp: gas_price_factor_def gas_price_ratio_def capped_ratio_def simp flip: r_def)
  qed
qed

lemma capped_ratio_unit: "0 < p \<Longrightarrow> 0 \<le> capped_ratio p \<and> capped_ratio p \<le> 1"
  unfolding capped_ratio_def
  by (auto intro!: rnd64_nonneg rnd64_le_one rnd_nonneg simp: max_gwei_def)

lemma capped_ratio_big: "max_gwei \<le> p \<Longrightarrow> capped_ratio p = 1"
proof -
  assume p: "max_gwei \<le> p"
  let ?q = "max (max 64 (bitlen p)) (max 64 (bitlen max_gwei))"
  have "(1 :: rat) \<le> of_int p / of_int max_gwei"
    using p by (simp add: max_gwei_def)
  then have "rnd ?q None 1 \<le> rnd ?q None (of_int p / of_int max_gwei)"
    by (intro rnd_mono) auto
  then show ?thesis by (simp add: capped_ratio_def rnd_one_prec)
qed

lemma capped_ratio_mono:
  assumes "0 < p" and "p \<le> q"
  shows "capped_ratio p \<le> capped_ratio q"
proof (cases "q < 2 ^ 64")
  case True
  show ?thesis
    unfolding capped_ratio_def
    using gas_ratio_mono [OF assms True] by (intro rnd64_mono min.mono) auto
next
  case False
  then have "capped_ratio q = 1" by (intro capped_ratio_big) (simp add: max_gwei_def)
  with capped_ratio_unit [OF assms(1)] show ?thesis by simp
qed

lemma gas_price_factor_unit:
  obtains g where "gas_price_factor gp = Fin g" and "0 \<le> g" and "g \<le> 1"
proof (cases "\<exists>p. gp = Some p \<and> 0 < p")
  case True
  then show ?thesis using that gas_price_factor_pos capped_ratio_unit by blast
next
  case False
  then have "gas_price_factor gp = Fin (1 / 2)"
    by (auto simp: gas_price_factor_def split: option.split)
  then show ?thesis by (intro that [of "1 / 2"]) auto
qed

text \<open>A weight or a score: a float of the unit interval.\<close>

definition unit_f64 :: "f64 \<Rightarrow> bool" where
  "unit_f64 a = (case a of Fin x \<Rightarrow> rnd64 x = x \<and> 0 \<le> x \<and> x \<le> 1 | _ \<Rightarrow> False)"

lemma unit_f64_elim:
  assumes "unit_f64 a"
  obtains x where "a = Fin x" and "rnd64 x = x" and "0 \<le> x" and "x \<le> 1"
  using assms that by (cases a) (auto simp: unit_f64_def)

lemma priority_value:
  assumes "unit_f64 (Fin w)" and "unit_f64 (Fin s)" and "gas_price_factor (GasPrice m) = Fin g"
    and "TasteScore m = Fin s"
  shows "Priority (ComputePriority m (Fin w)) =
      Fin (rnd64 (rnd64 (w * s) + rnd64 (rnd64 (1 - w) * g)))"
proof -
  obtain g' where g: "gas_price_factor (GasPrice m) = Fin g'" "0 \<le> g'" "g' \<le> 1"
    by (rule gas_price_factor_unit)
  then have g1: "0 \<le> g" "g \<le> 1" using assms(3) by auto
  have w: "rnd64 w = w" "0 \<le> w" "w \<le> 1" and s: "0 \<le> s" "s \<le> 1"
    using assms(1,2) by (auto simp: unit_f64_def)
  show ?thesis
    using assms(3,4) by (rule_tac unit_blend [OF w s g1]) (simp add: ComputePriority_def)
qed

text \<open>A concrete transaction, for the examples.\<close>

definition example_tx :: "u8 \<Rightarrow> u64 \<Rightarrow> int \<Rightarrow> tx" where
  "example_tx h gas price = \<lparr>tx_Hash = replicate 32 h, tx_Type = 0, tx_Nonce = 0, tx_Gas = gas,
     tx_GasPrice = price, tx_GasTipCap = price, tx_GasFeeCap = price, tx_Value = 0,
     tx_To = Some zero_address, tx_Data = []\<rparr>"

definition example_rc :: "u8 \<Rightarrow> receipt" where
  "example_rc h = \<lparr>rc_Type = 0, rc_TxHash = replicate 32 h, rc_Status = 1, rc_GasUsed = 21000,
     rc_CumulativeGasUsed = 21000, rc_BlockHash = zero_hash, rc_BlockNumber = 1, rc_TransactionIndex = 0,
     rc_ContractAddress = zero_address, rc_Logs = [], rc_Bloom = []\<rparr>"

definition example_block :: "u64 \<Rightarrow> l2_block" where
  "example_block n = \<lparr>bk_Header = \<lparr>hd_Number = n, hd_Hash = zero_hash, hd_ParentHash = zero_hash,
     hd_Timestamp = 0, hd_StateRoot = replicate 32 5, hd_GasUsed = 21000, hd_GasLimit = 30000000,
     hd_TxCount = 1, hd_SequencerAddr = zero_address, hd_L1Origin = no_l1_origin, hd_BaseFee = None\<rparr>,
     bk_Transactions = [example_tx 1 21000 0], bk_Receipts = [example_rc 1]\<rparr>"

definition example_batch :: "u64 \<Rightarrow> batch" where
  "example_batch i = \<lparr>bt_Index = i, bt_StartBlock = 1, bt_EndBlock = 2, bt_BlockCount = 2,
     bt_L1TxHash = zero_hash, bt_Timestamp = 0, bt_SizeBytes = 0, bt_Status = BatchSubmitted\<rparr>"

lemma unit_f64_simps [simp]: "unit_f64 (Fin 0)" "unit_f64 (Fin 1)" "unit_f64 (Fin (1 / 2))"
  by (simp_all add: unit_f64_def)

subsection \<open>Gas utilisation and its moving average\<close>

text \<open>
  \<open>float64(gasUsed) / float64(gasLimit)\<close> and the moving average of it: the block sizer
  (producer/adaptive.go) and the fee model (fees/model.go) both compute these two expressions.
\<close>

definition gas_utilization :: "u64 \<Rightarrow> u64 \<Rightarrow> f64" where
  "gas_utilization gasUsed gasLimit = fdiv (f64_of_u64 gasUsed) (f64_of_u64 gasLimit)"

definition ema_step :: "f64 \<Rightarrow> f64 \<Rightarrow> f64 \<Rightarrow> f64" where
  "ema_step alpha utilization ema =
     fadd (fmul alpha utilization) (fmul (fsub (Fin 1) alpha) ema)"

lemma gas_utilization_unit:
  assumes "gasLimit \<noteq> 0" and "gasUsed \<le> gasLimit"
  shows "unit_f64 (gas_utilization gasUsed gasLimit)"
proof -
  let ?u = "rnd64 (of_int (uint gasUsed))" and ?l = "rnd64 (of_int (uint gasLimit))"
  have "1 \<le> uint gasLimit" using assms(1) by (simp add: word_neq_0_conv word_less_def)
  then have "rnd64 1 \<le> ?l" by (intro rnd64_mono) (simp del: of_int_uint)
  then have l: "1 \<le> ?l" by simp
  have "uint gasUsed \<le> uint gasLimit" using assms(2) by (simp add: word_le_def)
  then have u: "0 \<le> ?u" "?u \<le> ?l"
    by (auto intro!: rnd64_mono rnd64_nonneg simp del: of_int_uint)
  then have q: "0 \<le> ?u / ?l" "?u / ?l \<le> 1" using l by auto
  then have "gas_utilization gasUsed gasLimit = Fin (rnd64 (?u / ?l))"
    using l by (simp add: gas_utilization_def f64_of_u64_fin to_f64_unit)
  then show ?thesis using q by (simp add: unit_f64_def rnd64_nonneg rnd64_le_one)
qed

lemma ema_step_unit:
  assumes "unit_f64 alpha" and "unit_f64 u" and "unit_f64 e"
  shows "unit_f64 (ema_step alpha u e)"
proof -
  obtain w a b where x: "alpha = Fin w" "rnd64 w = w" "0 \<le> w" "w \<le> 1" "u = Fin a" "0 \<le> a" "a \<le> 1"
      "e = Fin b" "0 \<le> b" "b \<le> 1"
    using assms by (auto elim!: unit_f64_elim)
  show ?thesis
    by (rule unit_blend [OF x(2-4) x(6,7) x(9,10)])
      (use x(1,5,8) in \<open>simp add: ema_step_def unit_f64_def\<close>)
qed

text \<open>Exact small numbers.\<close>

lemma to_f64_int: "\<bar>n\<bar> \<le> 2 ^ 53 \<Longrightarrow> to_f64 (of_int n) = Fin (of_int n)"
proof -
  assume n: "\<bar>n\<bar> \<le> 2 ^ 53"
  then have "\<bar>n\<bar> \<le> 2 ^ 64" by simp
  then have "(of_int \<bar>n\<bar> :: rat) \<le> of_int (2 ^ 64)" by (simp only: of_int_le_iff)
  then have "\<bar>of_int n :: rat\<bar> \<le> 2 ^ 64" by simp
  then show ?thesis using n by (simp add: to_f64_small)
qed

lemma f64_of_int_small: "\<bar>n\<bar> \<le> 2 ^ 53 \<Longrightarrow> f64_of_int n = Fin (of_int n)"
  by (simp add: f64_of_int_def to_f64_int)

lemma f64_of_u64_small: "uint w \<le> 2 ^ 53 \<Longrightarrow> f64_of_u64 w = Fin (of_int (uint w))"
  by (simp add: f64_of_u64_def f64_of_int_small del: of_int_uint)

lemma fmul_int: "\<bar>m * n\<bar> \<le> 2 ^ 53 \<Longrightarrow> fmul (Fin (of_int m)) (Fin (of_int n)) = Fin (of_int (m * n))"
  using to_f64_int [of "m * n"] by simp

lemma gas_utilization_zero: "l \<noteq> 0 \<Longrightarrow> gas_utilization 0 l = Fin 0"
proof -
  assume l: "l \<noteq> 0"
  then have "1 \<le> uint l" by (simp add: word_neq_0_conv word_less_def)
  then have "rnd64 1 \<le> rnd64 (of_int (uint l))" by (intro rnd64_mono) (simp del: of_int_uint)
  then show ?thesis by (simp add: gas_utilization_def f64_of_u64_fin to_f64_unit)
qed

end
