(* ===== verification/Adaptive.thy ===== *)
theory Adaptive
  imports Pkg_Types
begin

section \<open>Adaptive block sizing: internal/producer/adaptive.go\<close>

text \<open>
  \<open>AdaptiveBlockSizer\<close>: the gas limit and the transaction limit of the next block, moved after each
  block according to a moving average of the gas utilisation. The bounds of the configuration are
  an invariant when the step is not larger than the least gas limit; the subtraction of the step is
  one on \<open>uint64\<close>, and otherwise it wraps around.
\<close>

record sizer_config =
  MinGasLimit :: u64
  MaxGasLimit :: u64
  InitialGasLimit :: u64
  MinMaxTx :: int
  MaxMaxTx :: int
  InitialMaxTx :: int
  Alpha :: f64
  TargetUtilization :: f64
  AdjustStepBps :: u64

definition DefaultAdaptiveSizerConfig :: sizer_config where
  "DefaultAdaptiveSizerConfig = \<lparr>MinGasLimit = 15000000, MaxGasLimit = 60000000,
     InitialGasLimit = 30000000, MinMaxTx = 1000, MaxMaxTx = 10000, InitialMaxTx = 5000,
     Alpha = to_f64 (2 / 10), TargetUtilization = to_f64 (5 / 10), AdjustStepBps = 500\<rparr>"

record sizer =
  sz_currentGasLimit :: u64
  sz_currentMaxTx :: int
  sz_minGasLimit :: u64
  sz_maxGasLimit :: u64
  sz_minMaxTx :: int
  sz_maxMaxTx :: int
  sz_utilizationEMA :: f64
  sz_alpha :: f64
  sz_targetUtilization :: f64
  sz_adjustStepBps :: u64

definition NewAdaptiveBlockSizer :: "sizer_config \<Rightarrow> sizer" where
  "NewAdaptiveBlockSizer cfg =
     \<lparr>sz_currentGasLimit = InitialGasLimit cfg, sz_currentMaxTx = InitialMaxTx cfg,
      sz_minGasLimit = MinGasLimit cfg, sz_maxGasLimit = MaxGasLimit cfg,
      sz_minMaxTx = MinMaxTx cfg, sz_maxMaxTx = MaxMaxTx cfg,
      sz_utilizationEMA = TargetUtilization cfg, sz_alpha = Alpha cfg,
      sz_targetUtilization = TargetUtilization cfg, sz_adjustStepBps = AdjustStepBps cfg\<rparr>"

definition min64 :: "u64 \<Rightarrow> u64 \<Rightarrow> u64" where
  "min64 a b = (if a < b then a else b)"

definition max64 :: "u64 \<Rightarrow> u64 \<Rightarrow> u64" where
  "max64 a b = (if b < a then a else b)"

definition minInt :: "int \<Rightarrow> int \<Rightarrow> int" where
  "minInt a b = (if a < b then a else b)"

definition maxInt :: "int \<Rightarrow> int \<Rightarrow> int" where
  "maxInt a b = (if b < a then a else b)"

text \<open>The two steps of \<open>AdjustAfterBlock\<close>.\<close>

definition gas_step :: "sizer \<Rightarrow> u64" where
  "gas_step a = (sz_maxGasLimit a - sz_minGasLimit a) * sz_adjustStepBps a div 10000"

definition tx_step :: "sizer \<Rightarrow> int" where
  "tx_step a =
     (let txRange = wrap_int (sz_maxMaxTx a - sz_minMaxTx a);
          txStep = f64_to_int (fdiv (fmul (f64_of_int txRange) (f64_of_u64 (sz_adjustStepBps a))) (Fin 10000))
      in if txStep < 1 then 1 else txStep)"

text \<open>The constant \<open>0.1\<close>, as the double nearest to it.\<close>

definition util_margin :: f64 where
  "util_margin = to_f64 (1 / 10)"

definition sz_AdjustAfterBlock :: "sizer \<Rightarrow> u64 \<Rightarrow> u64 \<Rightarrow> sizer" where
  "sz_AdjustAfterBlock a gasUsed gasLimit =
     (if gasLimit = 0 then a
      else
        let utilization = gas_utilization gasUsed gasLimit;
            ema = ema_step (sz_alpha a) utilization (sz_utilizationEMA a);
            a1 = a\<lparr>sz_utilizationEMA := ema\<rparr>;
            step = gas_step a1; txStep = tx_step a1
        in if flt (fadd (sz_targetUtilization a1) util_margin) ema then
             a1\<lparr>sz_currentGasLimit := min64 (sz_currentGasLimit a1 + step) (sz_maxGasLimit a1),
                sz_currentMaxTx := minInt (wrap_int (sz_currentMaxTx a1 + txStep)) (sz_maxMaxTx a1)\<rparr>
           else if flt ema (fsub (sz_targetUtilization a1) util_margin) then
             a1\<lparr>sz_currentGasLimit := max64 (sz_currentGasLimit a1 - step) (sz_minGasLimit a1),
                sz_currentMaxTx := maxInt (wrap_int (sz_currentMaxTx a1 - txStep)) (sz_minMaxTx a1)\<rparr>
           else a1)"

definition sz_CurrentGasLimit :: "sizer \<Rightarrow> u64" where
  "sz_CurrentGasLimit a = sz_currentGasLimit a"

definition sz_CurrentMaxTx :: "sizer \<Rightarrow> int" where
  "sz_CurrentMaxTx a = sz_currentMaxTx a"

definition sz_UtilizationEMA :: "sizer \<Rightarrow> f64" where
  "sz_UtilizationEMA a = sz_utilizationEMA a"

definition sz_Stats :: "sizer \<Rightarrow> u64 \<times> int \<times> f64" where
  "sz_Stats a = (sz_currentGasLimit a, sz_currentMaxTx a, sz_utilizationEMA a)"

subsection \<open>The bounds\<close>

text \<open>
  A configuration whose steps do not wrap around: the gas step is at most the least gas limit, and
  the upper limits leave room for one step.
\<close>

definition sizer_sound :: "sizer \<Rightarrow> bool" where
  "sizer_sound a \<longleftrightarrow> sz_minGasLimit a \<le> sz_maxGasLimit a \<and> gas_step a \<le> sz_minGasLimit a \<and>
     unat (sz_maxGasLimit a) + unat (gas_step a) < 2 ^ 64 \<and>
     0 \<le> sz_minMaxTx a \<and> sz_minMaxTx a \<le> sz_maxMaxTx a \<and> sz_maxMaxTx a + tx_step a < 2 ^ 63 \<and>
     unit_f64 (sz_alpha a)"

definition sizer_bounded :: "sizer \<Rightarrow> bool" where
  "sizer_bounded a \<longleftrightarrow> sz_minGasLimit a \<le> sz_currentGasLimit a \<and> sz_currentGasLimit a \<le> sz_maxGasLimit a \<and>
     sz_minMaxTx a \<le> sz_currentMaxTx a \<and> sz_currentMaxTx a \<le> sz_maxMaxTx a"

lemma tx_step_pos: "1 \<le> tx_step a"
  by (simp add: tx_step_def Let_def)

lemma f64_to_int_bounds: "- (2 ^ 63) \<le> f64_to_int x \<and> f64_to_int x < 2 ^ 63"
  by (auto simp: f64_to_int_def Let_def split: f64.split)

text \<open>Only the moving average and the two limits change, and the steps depend on neither.\<close>

lemma adjust_config [simp]:
  "sz_minGasLimit (sz_AdjustAfterBlock a u l) = sz_minGasLimit a"
  "sz_maxGasLimit (sz_AdjustAfterBlock a u l) = sz_maxGasLimit a"
  "sz_minMaxTx (sz_AdjustAfterBlock a u l) = sz_minMaxTx a"
  "sz_maxMaxTx (sz_AdjustAfterBlock a u l) = sz_maxMaxTx a"
  "sz_alpha (sz_AdjustAfterBlock a u l) = sz_alpha a"
  "sz_targetUtilization (sz_AdjustAfterBlock a u l) = sz_targetUtilization a"
  "sz_adjustStepBps (sz_AdjustAfterBlock a u l) = sz_adjustStepBps a"
  by (simp_all add: sz_AdjustAfterBlock_def Let_def)

lemma steps_config:
  assumes "sz_minGasLimit b = sz_minGasLimit a" and "sz_maxGasLimit b = sz_maxGasLimit a"
    and "sz_minMaxTx b = sz_minMaxTx a" and "sz_maxMaxTx b = sz_maxMaxTx a"
    and "sz_adjustStepBps b = sz_adjustStepBps a"
  shows "gas_step b = gas_step a \<and> tx_step b = tx_step a"
  using assms by (simp add: gas_step_def tx_step_def)

lemma steps_ema [simp]: "gas_step (a\<lparr>sz_utilizationEMA := e\<rparr>) = gas_step a"
  "tx_step (a\<lparr>sz_utilizationEMA := e\<rparr>) = tx_step a"
  by (simp_all add: gas_step_def tx_step_def)

lemma adjust_steps [simp]: "gas_step (sz_AdjustAfterBlock a u l) = gas_step a"
  "tx_step (sz_AdjustAfterBlock a u l) = tx_step a"
  using steps_config [of "sz_AdjustAfterBlock a u l" a] by simp_all

lemma adjust_sound: "sizer_sound a \<Longrightarrow> sizer_sound (sz_AdjustAfterBlock a u l)"
  by (simp add: sizer_sound_def)

lemma expand_gas:
  assumes "sizer_sound a" and "sizer_bounded a"
  shows "sz_currentGasLimit a \<le> min64 (sz_currentGasLimit a + gas_step a) (sz_maxGasLimit a)"
    and "min64 (sz_currentGasLimit a + gas_step a) (sz_maxGasLimit a) \<le> sz_maxGasLimit a"
proof -
  have "unat (sz_currentGasLimit a) \<le> unat (sz_maxGasLimit a)"
    using assms(2) by (simp add: sizer_bounded_def u64_le_nat)
  then have "unat (sz_currentGasLimit a + gas_step a) = unat (sz_currentGasLimit a) + unat (gas_step a)"
    using assms(1) by (intro unat_add_no_wrap) (simp add: sizer_sound_def)
  then have "sz_currentGasLimit a \<le> sz_currentGasLimit a + gas_step a" by (simp add: u64_le_nat)
  then show "sz_currentGasLimit a \<le> min64 (sz_currentGasLimit a + gas_step a) (sz_maxGasLimit a)"
    using assms(2) by (simp add: min64_def sizer_bounded_def)
  show "min64 (sz_currentGasLimit a + gas_step a) (sz_maxGasLimit a) \<le> sz_maxGasLimit a"
    by (simp add: min64_def order_less_imp_le)
qed

lemma shrink_gas:
  assumes "sizer_sound a" and "sizer_bounded a"
  shows "max64 (sz_currentGasLimit a - gas_step a) (sz_minGasLimit a) \<le> sz_currentGasLimit a"
    and "sz_minGasLimit a \<le> max64 (sz_currentGasLimit a - gas_step a) (sz_minGasLimit a)"
proof -
  have "gas_step a \<le> sz_currentGasLimit a"
    using assms by (auto simp: sizer_sound_def sizer_bounded_def)
  then have "sz_currentGasLimit a - gas_step a \<le> sz_currentGasLimit a"
    by (simp add: u64_le_nat unat_sub_no_wrap)
  then show "max64 (sz_currentGasLimit a - gas_step a) (sz_minGasLimit a) \<le> sz_currentGasLimit a"
    using assms(2) by (simp add: max64_def sizer_bounded_def)
  show "sz_minGasLimit a \<le> max64 (sz_currentGasLimit a - gas_step a) (sz_minGasLimit a)"
    by (simp add: max64_def order_less_imp_le)
qed

lemma tx_steps_exact:
  assumes "sizer_sound a" and "sizer_bounded a"
  shows "wrap_int (sz_currentMaxTx a + tx_step a) = sz_currentMaxTx a + tx_step a"
    and "wrap_int (sz_currentMaxTx a - tx_step a) = sz_currentMaxTx a - tx_step a"
  using assms tx_step_pos [of a]
  by (auto simp: sizer_sound_def sizer_bounded_def intro!: wrap_int_id)

text \<open>Busy blocks never shrink the limits, idle blocks never grow them, both stay in their bounds.\<close>

definition busy :: "sizer \<Rightarrow> u64 \<Rightarrow> u64 \<Rightarrow> bool" where
  "busy a u l \<longleftrightarrow> flt (fadd (sz_targetUtilization a) util_margin)
     (ema_step (sz_alpha a) (gas_utilization u l) (sz_utilizationEMA a))"

definition idle :: "sizer \<Rightarrow> u64 \<Rightarrow> u64 \<Rightarrow> bool" where
  "idle a u l \<longleftrightarrow> \<not> busy a u l \<and> flt (ema_step (sz_alpha a) (gas_utilization u l) (sz_utilizationEMA a))
     (fsub (sz_targetUtilization a) util_margin)"

lemma adjust_gas_eq: "l \<noteq> 0 \<Longrightarrow> sz_currentGasLimit (sz_AdjustAfterBlock a u l) =
    (if busy a u l then min64 (sz_currentGasLimit a + gas_step a) (sz_maxGasLimit a)
     else if idle a u l then max64 (sz_currentGasLimit a - gas_step a) (sz_minGasLimit a)
     else sz_currentGasLimit a)"
  by (simp add: sz_AdjustAfterBlock_def Let_def busy_def idle_def)

lemma adjust_tx_eq: "l \<noteq> 0 \<Longrightarrow> sz_currentMaxTx (sz_AdjustAfterBlock a u l) =
    (if busy a u l then minInt (wrap_int (sz_currentMaxTx a + tx_step a)) (sz_maxMaxTx a)
     else if idle a u l then maxInt (wrap_int (sz_currentMaxTx a - tx_step a)) (sz_minMaxTx a)
     else sz_currentMaxTx a)"
  by (simp add: sz_AdjustAfterBlock_def Let_def busy_def idle_def)

lemma adjust_zero: "sz_AdjustAfterBlock a u 0 = a"
  by (simp add: sz_AdjustAfterBlock_def)

lemma adjust_bounded:
  assumes "sizer_sound a" and "sizer_bounded a"
  shows "sizer_bounded (sz_AdjustAfterBlock a u l)"
proof (cases "l = 0")
  case False
  have "sz_minGasLimit a \<le> sz_currentGasLimit a" "sz_currentGasLimit a \<le> sz_maxGasLimit a"
    using assms(2) by (simp_all add: sizer_bounded_def)
  with False show ?thesis
    using expand_gas [OF assms] shrink_gas [OF assms] tx_steps_exact [OF assms] assms tx_step_pos [of a]
    by (auto simp: sizer_bounded_def adjust_gas_eq adjust_tx_eq minInt_def maxInt_def sizer_sound_def)
qed (use assms in \<open>simp add: adjust_zero\<close>)

lemma adjust_ema_unit:
  assumes "unit_f64 (sz_alpha a)" and "unit_f64 (sz_utilizationEMA a)" and "u \<le> l"
  shows "unit_f64 (sz_utilizationEMA (sz_AdjustAfterBlock a u l))"
proof (cases "l = 0")
  case False
  then have "sz_utilizationEMA (sz_AdjustAfterBlock a u l)
      = ema_step (sz_alpha a) (gas_utilization u l) (sz_utilizationEMA a)"
    by (simp add: sz_AdjustAfterBlock_def Let_def)
  then show ?thesis
    using assms False by (simp add: ema_step_unit gas_utilization_unit)
qed (use assms in \<open>simp add: adjust_zero\<close>)

text \<open>A sequence of blocks, each with its gas used and its gas limit.\<close>

definition adjust_run :: "sizer \<Rightarrow> (u64 \<times> u64) list \<Rightarrow> sizer" where
  "adjust_run a blocks = fold (\<lambda>(u, l) a. sz_AdjustAfterBlock a u l) blocks a"

lemma adjust_run_facts:
  assumes "sizer_sound a" and "sizer_bounded a"
  shows "sizer_sound (adjust_run a bs) \<and> sizer_bounded (adjust_run a bs) \<and>
    sz_minGasLimit (adjust_run a bs) = sz_minGasLimit a \<and> sz_maxGasLimit (adjust_run a bs) = sz_maxGasLimit a \<and>
    sz_minMaxTx (adjust_run a bs) = sz_minMaxTx a \<and> sz_maxMaxTx (adjust_run a bs) = sz_maxMaxTx a"
  using assms
proof (induction bs arbitrary: a)
  case (Cons x bs)
  obtain u l where x: "x = (u, l)" by (cases x)
  from Cons.prems have "sizer_sound (sz_AdjustAfterBlock a u l)" "sizer_bounded (sz_AdjustAfterBlock a u l)"
    by (simp_all add: adjust_sound adjust_bounded)
  from Cons.IH [OF this] show ?case by (simp add: x adjust_run_def)
qed (simp add: adjust_run_def)

lemma adjust_run_ema:
  assumes "unit_f64 (sz_alpha a)" and "unit_f64 (sz_utilizationEMA a)" and "\<forall>(u, l) \<in> set bs. u \<le> l"
  shows "unit_f64 (sz_utilizationEMA (adjust_run a bs))"
  using assms
proof (induction bs arbitrary: a)
  case (Cons x bs)
  obtain u l where x: "x = (u, l)" by (cases x)
  from Cons.prems have "unit_f64 (sz_utilizationEMA (sz_AdjustAfterBlock a u l))"
    by (simp add: x adjust_ema_unit)
  with Cons.prems Cons.IH [of "sz_AdjustAfterBlock a u l"] show ?case by (simp add: x adjust_run_def)
qed (simp add: adjust_run_def)

lemma util_margin_bounds: "\<exists>m. util_margin = Fin m \<and> 0 \<le> m \<and> m \<le> 1 / 8"
proof -
  have "rnd64 (1 / 10) \<le> rnd64 (1 / 8)" by (rule rnd64_mono) simp
  moreover have "rnd64 (1 / 8) = 1 / 8" using rnd64_eighths [of 1] by simp
  ultimately show ?thesis by (simp add: util_margin_def to_f64_unit rnd64_nonneg)
qed

subsection \<open>Examples\<close>

definition example_sizer :: "u64 \<Rightarrow> sizer_config" where
  "example_sizer minGas = DefaultAdaptiveSizerConfig\<lparr>MinGasLimit := minGas, InitialGasLimit := minGas,
     Alpha := Fin (1 / 2)\<rparr>"

lemma default_target: "TargetUtilization DefaultAdaptiveSizerConfig = Fin (1 / 2)"
  using to_f64_unit [of "1 / 2"] by (simp add: DefaultAdaptiveSizerConfig_def)

lemma default_tx_step:
  assumes "sz_maxMaxTx a = 10000" and "sz_minMaxTx a = 1000" and "sz_adjustStepBps a = 500"
  shows "tx_step a = 450"
proof -
  have f: "f64_of_int 9000 = Fin 9000" "f64_of_u64 500 = Fin 500"
    using f64_of_int_small [of 9000] f64_of_u64_small [of 500] by simp_all
  have m: "fmul (Fin 9000) (Fin 500) = Fin 4500000" using fmul_int [of 9000 500] by simp
  have d: "fdiv (Fin 4500000) (Fin 10000) = Fin 450" using to_f64_int [of 450] by simp
  show ?thesis
    unfolding tx_step_def assms
    by (simp add: wrap_int_def f m d f64_to_int_def trunc_rat_def del: fmul.simps fdiv.simps)
qed

lemma default_alpha: "unit_f64 (Alpha DefaultAdaptiveSizerConfig)"
  using to_f64_unit [of "2 / 10"]
  by (simp add: DefaultAdaptiveSizerConfig_def unit_f64_def rnd64_nonneg rnd64_le_one)

lemma default_sound: "sizer_sound (NewAdaptiveBlockSizer DefaultAdaptiveSizerConfig)"
  using default_tx_step [of "NewAdaptiveBlockSizer DefaultAdaptiveSizerConfig"] default_alpha
  by (simp add: sizer_sound_def NewAdaptiveBlockSizer_def DefaultAdaptiveSizerConfig_def gas_step_def)

lemma default_bounded: "sizer_bounded (NewAdaptiveBlockSizer DefaultAdaptiveSizerConfig)"
  by (simp add: sizer_bounded_def NewAdaptiveBlockSizer_def DefaultAdaptiveSizerConfig_def)

lemma example_idle:
  assumes "l \<noteq> 0"
  shows "idle (NewAdaptiveBlockSizer (example_sizer g)) 0 l"
proof -
  obtain m where m: "util_margin = Fin m" "0 \<le> m" "m \<le> 1 / 8" using util_margin_bounds by blast
  have q: "rnd64 (1 / 4) = 1 / 4" using rnd64_eighths [of 2] by simp
  have b: "ema_step (Fin (1 / 2)) (Fin 0) (Fin (1 / 2)) = Fin (1 / 4)"
    using to_f64_unit [of "1 / 2"] to_f64_unit [of "1 / 4"] to_f64_unit [of 0]
    by (simp add: ema_step_def fsub_def q)
  have "3 / 8 \<le> rnd64 (1 / 2 - m)"
    using rnd64_mono [of "3 / 8" "1 / 2 - m"] rnd64_eighths [of 3] m by simp
  moreover have "fsub (Fin (1 / 2)) util_margin = Fin (rnd64 (1 / 2 - m))"
    using m(2,3) to_f64_unit [of "1 / 2 - m"] by (simp add: m(1) fsub_def)
  moreover have "1 / 2 \<le> rnd64 (1 / 2 + m)" using rnd64_mono [of "1 / 2" "1 / 2 + m"] m by simp
  moreover have "fadd (Fin (1 / 2)) util_margin = Fin (rnd64 (1 / 2 + m))"
    using m(2,3) to_f64_unit [of "1 / 2 + m"] by (simp add: m(1))
  ultimately show ?thesis
    using assms default_target
    by (simp add: idle_def busy_def NewAdaptiveBlockSizer_def example_sizer_def gas_utilization_zero b)
qed

subsection \<open>Properties\<close>

text \<open>The configured bounds are an invariant of the block sizer: after any sequence of blocks,
  full, empty or over their limit, the gas limit and the transaction limit lie within them, provided
  the gas step is at most the least gas limit and the upper limits leave room for a step.\<close>

theorem adaptive_bounds_kept:
  assumes "sizer_sound (NewAdaptiveBlockSizer cfg)" and "sizer_bounded (NewAdaptiveBlockSizer cfg)"
    and "a = adjust_run (NewAdaptiveBlockSizer cfg) blocks"
  shows "MinGasLimit cfg \<le> sz_CurrentGasLimit a \<and> sz_CurrentGasLimit a \<le> MaxGasLimit cfg \<and>
    MinMaxTx cfg \<le> sz_CurrentMaxTx a \<and> sz_CurrentMaxTx a \<le> MaxMaxTx cfg"
proof -
  have "sizer_bounded a" "sz_minGasLimit a = MinGasLimit cfg" "sz_maxGasLimit a = MaxGasLimit cfg"
      "sz_minMaxTx a = MinMaxTx cfg" "sz_maxMaxTx a = MaxMaxTx cfg"
    using adjust_run_facts [OF assms(1,2), of blocks] unfolding assms(3)
    by (simp_all add: NewAdaptiveBlockSizer_def)
  then show ?thesis by (simp add: sizer_bounded_def sz_CurrentGasLimit_def sz_CurrentMaxTx_def)
qed

lemma adaptive_bounds_kept_witness:
  "sz_CurrentGasLimit (adjust_run (NewAdaptiveBlockSizer DefaultAdaptiveSizerConfig)
     [(30000000, 30000000), (0, 30000000)]) \<le> 60000000"
  using adaptive_bounds_kept [OF default_sound default_bounded refl]
  by (simp add: DefaultAdaptiveSizerConfig_def)

text \<open>Without that condition the bounds break: when the gas limit is below the step, an idle
  block subtracts past zero on \<open>uint64\<close> and the new gas limit exceeds the configured maximum.\<close>

theorem adaptive_shrink_wraps:
  assumes "idle a gasUsed gasLimit" and "gasLimit \<noteq> 0" and "sz_currentGasLimit a < gas_step a"
    and "sz_minGasLimit a \<le> sz_maxGasLimit a" and "unat (sz_maxGasLimit a) + unat (gas_step a) < 2 ^ 64"
  shows "sz_maxGasLimit a < sz_CurrentGasLimit (sz_AdjustAfterBlock a gasUsed gasLimit)"
proof -
  let ?d = "sz_currentGasLimit a - gas_step a"
  have "\<not> busy a gasUsed gasLimit" using assms(1) by (simp add: idle_def)
  then have e: "sz_CurrentGasLimit (sz_AdjustAfterBlock a gasUsed gasLimit) = max64 ?d (sz_minGasLimit a)"
    using assms(1,2) by (simp add: sz_CurrentGasLimit_def adjust_gas_eq)
  have "unat ?d = 2 ^ 64 + unat (sz_currentGasLimit a) - unat (gas_step a)"
    using assms(3) by (simp add: unat_sub_if' word_less_nat_alt)
  then have "sz_maxGasLimit a < ?d" using assms(5) by (simp add: u64_less_nat)
  then show ?thesis unfolding e using assms(4) by (auto simp: max64_def)
qed

lemma adaptive_shrink_wraps_witness:
  "60000000 < sz_CurrentGasLimit
     (sz_AdjustAfterBlock (NewAdaptiveBlockSizer (example_sizer 1000000)) 0 1000000)"
  using adaptive_shrink_wraps [OF example_idle, of 1000000 1000000]
  by (simp add: NewAdaptiveBlockSizer_def example_sizer_def DefaultAdaptiveSizerConfig_def gas_step_def)

text \<open>The direction of the adjustment: a busy moving average never lowers the limits, an idle one
  never raises them, and in between they stay as they are.\<close>

theorem adaptive_direction:
  assumes "sizer_sound a" and "sizer_bounded a"
    and "a' = sz_AdjustAfterBlock a gasUsed gasLimit"
  shows "(if gasLimit = 0 then a' = a
     else if busy a gasUsed gasLimit then sz_currentGasLimit a \<le> sz_currentGasLimit a' \<and>
       sz_currentMaxTx a \<le> sz_currentMaxTx a'
     else if idle a gasUsed gasLimit then sz_currentGasLimit a' \<le> sz_currentGasLimit a \<and>
       sz_currentMaxTx a' \<le> sz_currentMaxTx a
     else sz_currentGasLimit a' = sz_currentGasLimit a \<and> sz_currentMaxTx a' = sz_currentMaxTx a)"
  using expand_gas(1) [OF assms(1,2)] shrink_gas(1) [OF assms(1,2)] tx_steps_exact [OF assms(1,2)]
    tx_step_pos [of a] assms(1,2)
  by (auto simp: assms(3) adjust_zero adjust_gas_eq adjust_tx_eq minInt_def maxInt_def sizer_bounded_def)

lemma adaptive_direction_witness:
  "sz_currentGasLimit (sz_AdjustAfterBlock (NewAdaptiveBlockSizer (example_sizer 15000000)) 0 15000000)
    \<le> 15000000"
proof -
  let ?a = "NewAdaptiveBlockSizer (example_sizer 15000000)"
  have "sizer_sound ?a"
    using default_tx_step [of ?a]
    by (simp add: sizer_sound_def NewAdaptiveBlockSizer_def example_sizer_def
        DefaultAdaptiveSizerConfig_def gas_step_def)
  moreover have "sizer_bounded ?a"
    by (simp add: sizer_bounded_def NewAdaptiveBlockSizer_def example_sizer_def
        DefaultAdaptiveSizerConfig_def) 
  moreover have "idle ?a 0 15000000" by (rule example_idle) simp
  ultimately show ?thesis
    using adaptive_direction [OF _ _ refl, of ?a 15000000 0]
    by (simp add: idle_def NewAdaptiveBlockSizer_def example_sizer_def DefaultAdaptiveSizerConfig_def)
qed

end
