(* ===== verification/Config.thy ===== *)
theory Config
  imports Adaptive
begin

section \<open>Configuration: internal/config/config.go\<close>

text \<open>
  The configuration records with the source's fields, the defaults, and \<open>Load\<close>. Durations are
  nanoseconds. The expansion of environment variables and the YAML decoder are parameters: the
  decoder overwrites the fields of a given configuration that the file names.
\<close>

record sequencer_config =
  sc_ListenAddr :: string
  sc_WSAddr :: string
  sc_BlockTime :: int
  sc_MaxBlockGas :: u64
  sc_MaxTxPerBlock :: int
  sc_ChainID :: u64
  sc_DataDir :: string

record l1_config =
  lc_RPCURL :: string
  lc_ChainID :: u64
  lc_BatchInboxAddr :: string
  lc_BatchSubmitterKey :: string
  lc_SubmissionInterval :: int

record tastescore_config =
  ts_Enabled :: bool
  ts_APIURL :: string
  ts_APIKey :: string
  ts_APIVersion :: string
  ts_Chains :: "string list"
  ts_OrderingWeight :: f64
  ts_CacheTTL :: int

record logging_config =
  lg_Level :: string
  lg_Format :: string

record metrics_config =
  mc_Enabled :: bool
  mc_Addr :: string

record did_config =
  di_Enabled :: bool
  di_RegistryAddress :: string

record sovereignty_config =
  sv_Enabled :: bool
  sv_EngineAddress :: string
  sv_OracleAddress :: string
  sv_SBTAddress :: string
  sv_FeeDiscounts :: bool

record adaptive_config =
  ac_Enabled :: bool
  ac_MinGasLimit :: u64
  ac_MaxGasLimit :: u64
  ac_MinMaxTx :: int
  ac_MaxMaxTx :: int
  ac_Alpha :: f64
  ac_TargetUtilization :: f64
  ac_AdjustStepBps :: u64

record config =
  cf_Sequencer :: sequencer_config
  cf_L1 :: l1_config
  cf_TasteScore :: tastescore_config
  cf_DID :: did_config
  cf_Sovereignty :: sovereignty_config
  cf_AdaptiveBlock :: adaptive_config
  cf_Logging :: logging_config
  cf_Metrics :: metrics_config

definition seconds :: "int \<Rightarrow> int" where
  "seconds n = n * 1000000000"

definition DefaultConfig :: config where
  "DefaultConfig = \<lparr>
     cf_Sequencer = \<lparr>sc_ListenAddr = ''0.0.0.0:8545'', sc_WSAddr = ''0.0.0.0:8546'', sc_BlockTime = 500000000,
       sc_MaxBlockGas = 30000000, sc_MaxTxPerBlock = 5000, sc_ChainID = 42069, sc_DataDir = ''/data''\<rparr>,
     cf_L1 = \<lparr>lc_RPCURL = ''http://localhost:8551'', lc_ChainID = 1, lc_BatchInboxAddr = '''',
       lc_BatchSubmitterKey = '''', lc_SubmissionInterval = seconds 30\<rparr>,
     cf_TasteScore = \<lparr>ts_Enabled = True, ts_APIURL = ''https://api.insoblokai.io'', ts_APIKey = '''',
       ts_APIVersion = ''v2'', ts_Chains = [''ethereum'', ''base'', ''arbitrum'', ''inso''],
       ts_OrderingWeight = to_f64 (3 / 10), ts_CacheTTL = seconds 60\<rparr>,
     cf_DID = \<lparr>di_Enabled = True, di_RegistryAddress = ''''\<rparr>,
     cf_Sovereignty = \<lparr>sv_Enabled = True, sv_EngineAddress = '''', sv_OracleAddress = '''', sv_SBTAddress = '''',
       sv_FeeDiscounts = True\<rparr>,
     cf_AdaptiveBlock = \<lparr>ac_Enabled = True, ac_MinGasLimit = 15000000, ac_MaxGasLimit = 60000000,
       ac_MinMaxTx = 1000, ac_MaxMaxTx = 10000, ac_Alpha = to_f64 (2 / 10),
       ac_TargetUtilization = to_f64 (5 / 10), ac_AdjustStepBps = 500\<rparr>,
     cf_Logging = \<lparr>lg_Level = ''info'', lg_Format = ''json''\<rparr>,
     cf_Metrics = \<lparr>mc_Enabled = True, mc_Addr = ''0.0.0.0:6060''\<rparr>\<rparr>"

record config_lib =
  cl_ExpandEnv :: "string \<Rightarrow> string"
  cl_Unmarshal :: "string \<Rightarrow> config \<Rightarrow> config option"

datatype config_error = ErrReadConfig | ErrParseConfig

text \<open>The content of the file, if it can be read, is an argument.\<close>

definition Load :: "config_lib \<Rightarrow> string option \<Rightarrow> config_error + config" where
  "Load L file = (case file of
     None \<Rightarrow> Inl ErrReadConfig
   | Some data \<Rightarrow> (case cl_Unmarshal L (cl_ExpandEnv L data) DefaultConfig of
       None \<Rightarrow> Inl ErrParseConfig | Some cfg \<Rightarrow> Inr cfg))"

text \<open>The sizer's configuration, as \<open>main\<close> puts it together from two sections.\<close>

definition sizer_config_of :: "config \<Rightarrow> sizer_config" where
  "sizer_config_of cfg = (let a = cf_AdaptiveBlock cfg; s = cf_Sequencer cfg in
     \<lparr>MinGasLimit = ac_MinGasLimit a, MaxGasLimit = ac_MaxGasLimit a, InitialGasLimit = sc_MaxBlockGas s,
      MinMaxTx = ac_MinMaxTx a, MaxMaxTx = ac_MaxMaxTx a, InitialMaxTx = sc_MaxTxPerBlock s,
      Alpha = ac_Alpha a, TargetUtilization = ac_TargetUtilization a, AdjustStepBps = ac_AdjustStepBps a\<rparr>)"

text \<open>The defaults of the two packages agree.\<close>

lemma default_sizer_config: "sizer_config_of DefaultConfig = DefaultAdaptiveSizerConfig"
  by (simp add: sizer_config_of_def DefaultConfig_def DefaultAdaptiveSizerConfig_def)

text \<open>A file that names nothing loads as the defaults.\<close>

lemma Load_blank:
  assumes "cl_Unmarshal L (cl_ExpandEnv L data) = Some"
  shows "Load L (Some data) = Inr DefaultConfig"
  using assms by (simp add: Load_def)

text \<open>
  What the components ask of a configuration: a weight between 0 and 1, room in the pool, and a sizer
  whose steps do not wrap and that starts within its bounds.
\<close>

definition config_sound :: "config \<Rightarrow> bool" where
  "config_sound cfg \<longleftrightarrow> unit_f64 (ts_OrderingWeight (cf_TasteScore cfg)) \<and>
     0 \<le> sc_MaxTxPerBlock (cf_Sequencer cfg) \<and> sc_MaxTxPerBlock (cf_Sequencer cfg) * 10 < 2 ^ 63 \<and>
     sizer_sound (NewAdaptiveBlockSizer (sizer_config_of cfg)) \<and>
     sizer_bounded (NewAdaptiveBlockSizer (sizer_config_of cfg))"

lemma default_weight: "unit_f64 (ts_OrderingWeight (cf_TasteScore DefaultConfig))"
  using to_f64_unit [of "3 / 10"]
  by (simp add: DefaultConfig_def unit_f64_def rnd64_nonneg rnd64_le_one)

lemma default_config_sound: "config_sound DefaultConfig"
proof -
  have "0 \<le> sc_MaxTxPerBlock (cf_Sequencer DefaultConfig)"
    "sc_MaxTxPerBlock (cf_Sequencer DefaultConfig) * 10 < 2 ^ 63"
    by (simp_all add: DefaultConfig_def)
  then show ?thesis
    unfolding config_sound_def default_sizer_config using default_weight default_sound default_bounded by blast
qed

end
