(* ===== verification/Go_Bytes.thy ===== *)
theory Go_Bytes
  imports Prelude
begin

section \<open>Bytes of integers, hashing\<close>

text \<open>
  What the code uses of Go's standard library on bytes: \<open>big.Int.Bytes\<close> and \<open>SetBytes\<close> (big-endian,
  without leading zeros), \<open>encoding/binary\<close> (eight bytes, big-endian) and \<open>crypto/sha256\<close>, written out
  from FIPS 180-4. go-ethereum's Keccak-256 and \<open>common.BytesToHash\<close> are parameters, in the record
  \<open>geth\<close>, with the documented laws that the proofs use.
\<close>

subsection \<open>Big-endian bytes\<close>

fun nat_bytes :: "nat \<Rightarrow> bytes" where
  "nat_bytes n = (if n = 0 then [] else nat_bytes (n div 256) @ [of_nat (n mod 256)])"

declare nat_bytes.simps [simp del]

definition bytes_nat :: "bytes \<Rightarrow> nat" where
  "bytes_nat bs = foldl (\<lambda>acc b. acc * 256 + unat b) 0 bs"

definition int_bytes :: "int \<Rightarrow> bytes" where
  "int_bytes n = nat_bytes (nat \<bar>n\<bar>)"

text \<open>\<open>new(big.Int).SetUint64(n).Bytes()\<close> and \<open>new(big.Int).SetBytes(data).Uint64()\<close>.\<close>

definition u64_bytes :: "u64 \<Rightarrow> bytes" where
  "u64_bytes n = nat_bytes (unat n)"

definition bytes_u64 :: "bytes \<Rightarrow> u64" where
  "bytes_u64 bs = of_nat (bytes_nat bs)"

text \<open>\<open>binary.Write(h, binary.BigEndian, n)\<close>.\<close>

definition be64 :: "u64 \<Rightarrow> bytes" where
  "be64 n = map (\<lambda>i. ucast (drop_bit (8 * (7 - i)) n)) [0..<8]"

lemma bytes_nat_Nil [simp]: "bytes_nat [] = 0"
  by (simp add: bytes_nat_def)

lemma bytes_nat_snoc [simp]: "bytes_nat (bs @ [b]) = bytes_nat bs * 256 + unat b"
  by (simp add: bytes_nat_def)

lemma nat_bytes_0 [simp]: "nat_bytes 0 = []"
  by (simp add: nat_bytes.simps)

lemma nat_bytes_pos: "0 < n \<Longrightarrow> nat_bytes n = nat_bytes (n div 256) @ [of_nat (n mod 256)]"
  by (subst nat_bytes.simps) simp

lemma unat_byte: "k < 256 \<Longrightarrow> unat (of_nat k :: u8) = k"
  by (simp add: unat_of_nat take_bit_nat_eq_self)

lemma bytes_nat_bytes [simp]: "bytes_nat (nat_bytes n) = n"
proof (induction n rule: less_induct)
  case (less n)
  show ?case
  proof (cases "n = 0")
    case False
    then have "bytes_nat (nat_bytes (n div 256)) = n div 256" by (intro less) simp
    then show ?thesis using False by (simp add: nat_bytes_pos unat_byte)
  qed simp
qed

lemma nat_bytes_inj [simp]: "nat_bytes m = nat_bytes n \<longleftrightarrow> m = n"
  by (metis bytes_nat_bytes)

lemma nat_bytes_Nil [simp]: "nat_bytes n = [] \<longleftrightarrow> n = 0"
  by (metis nat_bytes_0 nat_bytes_inj)

text \<open>Bytes without a leading zero are the bytes of their number.\<close>

lemma nat_bytes_of_bytes:
  assumes "bs = [] \<or> hd bs \<noteq> 0"
  shows "nat_bytes (bytes_nat bs) = bs"
  using assms
proof (induction bs rule: rev_induct)
  case (snoc b bs)
  show ?case
  proof (cases "bs = []")
    case True
    with snoc.prems have "0 < unat b" by (simp add: unat_gt_0)
    moreover have b: "unat b < 256" using unsigned_less [of b] by simp
    ultimately show ?thesis using True nat_bytes_pos [of "unat b"] bytes_nat_snoc [of "[]" b] by simp
  next
    case False
    then have "hd bs \<noteq> 0" using snoc.prems by simp
    then have ih: "nat_bytes (bytes_nat bs) = bs" using snoc.IH by simp
    then have "0 < bytes_nat bs" using False by (metis gr0I nat_bytes_0)
    moreover have "unat b < 256" using unsigned_less [of b] by simp
    ultimately show ?thesis
      using nat_bytes_pos [of "bytes_nat bs * 256 + unat b"] ih by (simp add: mult.commute)
  qed
qed simp

lemma bytes_u64_bytes [simp]: "bytes_u64 (u64_bytes n) = n"
  by (simp add: bytes_u64_def u64_bytes_def)

lemma u64_bytes_inj [simp]: "u64_bytes m = u64_bytes n \<longleftrightarrow> m = n"
  by (metis bytes_u64_bytes)

lemma nat_bytes_length: "n < 256 ^ k \<Longrightarrow> length (nat_bytes n) \<le> k"
proof (induction k arbitrary: n)
  case (Suc k)
  show ?case
  proof (cases "n = 0")
    case False
    have "n div 256 < 256 ^ k" using Suc.prems by (simp add: less_mult_imp_div_less mult.commute)
    then show ?thesis using Suc.IH False by (simp add: nat_bytes_pos)
  qed simp
qed simp

lemma u64_bytes_length: "length (u64_bytes n) \<le> 8"
  using nat_bytes_length [of "unat n" 8] unat_u64_bound [of n] by (simp add: u64_bytes_def)

lemma length_be64 [simp]: "length (be64 n) = 8"
  by (simp add: be64_def)

lemma be64_inj [simp]: "be64 m = be64 n \<longleftrightarrow> m = n"
proof
  assume eq: "be64 m = be64 n"
  show "m = n"
  proof (rule bit_word_eqI)
    fix k assume "k < LENGTH(64)"
    then have k: "k < 64" by simp
    have "be64 m ! (7 - k div 8) = be64 n ! (7 - k div 8)" using eq by simp
    then have "(ucast (drop_bit (8 * (k div 8)) m) :: u8) = ucast (drop_bit (8 * (k div 8)) n)"
      using k nth_upt [of 0 "7 - k div 8" 8] by (simp add: be64_def)
    then have "bit (ucast (drop_bit (8 * (k div 8)) m) :: u8) (k mod 8)
        = bit (ucast (drop_bit (8 * (k div 8)) n) :: u8) (k mod 8)" by simp
    then show "bit m k = bit n k" by (simp add: bit_ucast_iff bit_drop_bit_eq)
  qed
qed simp

subsection \<open>SHA-256\<close>

type_synonym u32 = "32 word"

unbundle bit_operations_syntax

text \<open>
  The constants of FIPS 180-4: the first 32 bits of the fractional parts of the cube roots of the first
  64 primes, and of the square roots of the first eight. \<open>root_bits k n b r\<close> is the largest number whose
  \<open>k\<close>-th power is at most \<open>n\<close>, found from bit \<open>b - 1\<close> down, above the bits \<open>r\<close> already known.
\<close>

fun root_bits :: "nat \<Rightarrow> int \<Rightarrow> nat \<Rightarrow> int \<Rightarrow> int" where
  "root_bits k n 0 r = r"
| "root_bits k n (Suc b) r = root_bits k n b (if (r + 2 ^ b) ^ k \<le> n then r + 2 ^ b else r)"

definition root_fraction :: "nat \<Rightarrow> int \<Rightarrow> u32" where
  "root_fraction k p = word_of_int (root_bits k (p * 2 ^ (32 * k)) 37 0)"

definition sha_primes :: "int list" where
  "sha_primes = filter (\<lambda>p. \<forall>d \<in> set [2..p - 1]. \<not> d dvd p) [2..311]"

definition sha_k :: "u32 list" where
  "sha_k = map (root_fraction 3) sha_primes"

definition sha_init :: "u32 list" where
  "sha_init = map (root_fraction 2) [2, 3, 5, 7, 11, 13, 17, 19]"

text \<open>Padding: a one bit, zeros up to 56 modulo 64 bytes, the bit length in eight bytes.\<close>

definition sha_pad :: "bytes \<Rightarrow> bytes" where
  "sha_pad m = m @ 0x80 # replicate ((119 - length m mod 64) mod 64) 0 @ be64 (of_nat (8 * length m))"

fun sha_words :: "bytes \<Rightarrow> u32 list" where
  "sha_words (a # b # c # d # bs) = (push_bit 24 (ucast a) OR push_bit 16 (ucast b)
     OR push_bit 8 (ucast c) OR ucast d) # sha_words bs"
| "sha_words _ = []"

definition sha_sigma :: "nat \<Rightarrow> nat \<Rightarrow> nat \<Rightarrow> u32 \<Rightarrow> u32" where
  "sha_sigma r s n x = word_rotr r x XOR word_rotr s x XOR drop_bit n x"

definition sha_Sigma :: "nat \<Rightarrow> nat \<Rightarrow> nat \<Rightarrow> u32 \<Rightarrow> u32" where
  "sha_Sigma r s n x = word_rotr r x XOR word_rotr s x XOR word_rotr n x"

text \<open>The schedule: 16 words of the block, extended to 64.\<close>

fun sha_extend :: "nat \<Rightarrow> u32 list \<Rightarrow> u32 list" where
  "sha_extend 0 w = w"
| "sha_extend (Suc k) w = (let t = length w in
     sha_extend k (w @ [sha_sigma 17 19 10 (w ! (t - 2)) + w ! (t - 7)
       + sha_sigma 7 18 3 (w ! (t - 15)) + w ! (t - 16)]))"

fun sha_round :: "u32 \<times> u32 \<Rightarrow> u32 list \<Rightarrow> u32 list" where
  "sha_round (k, w) [a, b, c, d, e, f, g, h] =
     (let t1 = h + sha_Sigma 6 11 25 e + ((e AND f) XOR (NOT e AND g)) + k + w;
          t2 = sha_Sigma 2 13 22 a + ((a AND b) XOR (a AND c) XOR (b AND c))
      in [t1 + t2, a, b, c, d + t1, e, f, g])"
| "sha_round _ s = s"

definition sha_block :: "bytes \<Rightarrow> u32 list \<Rightarrow> u32 list" where
  "sha_block b s = map2 (+) s (fold sha_round (zip sha_k (sha_extend 48 (sha_words b))) s)"

function sha_blocks :: "bytes \<Rightarrow> u32 list \<Rightarrow> u32 list" where
  "sha_blocks m s = (if m = [] then s else sha_blocks (drop 64 m) (sha_block (take 64 m) s))"
  by pat_completeness auto
termination
  by (relation "measure (\<lambda>(m, s). length m)") auto

declare sha_blocks.simps [simp del]

definition be32 :: "u32 \<Rightarrow> bytes" where
  "be32 n = [ucast (drop_bit 24 n), ucast (drop_bit 16 n), ucast (drop_bit 8 n), ucast n]"

definition sha256 :: "bytes \<Rightarrow> bytes" where
  "sha256 m = concat (map be32 (sha_blocks (sha_pad m) sha_init))"

lemma sha_round_length: "length (sha_round kw s) = length s"
  by (cases "(kw, s)" rule: sha_round.cases) (simp_all add: Let_def)

lemma sha_fold_length: "length (fold sha_round kws s) = length s"
  by (induction kws arbitrary: s) (simp_all add: sha_round_length)

lemma sha_blocks_length: "length (sha_blocks m s) = length s"
proof (induction m s rule: sha_blocks.induct)
  case (1 m s)
  then show ?case by (subst sha_blocks.simps) (simp add: sha_block_def sha_fold_length)
qed

lemma length_sha256 [simp]: "length (sha256 m) = 32"
proof -
  have "length (concat (map be32 ws)) = 4 * length ws" for ws
    by (induction ws) (simp_all add: be32_def)
  then show ?thesis by (simp add: sha256_def sha_blocks_length sha_init_def)
qed

subsection \<open>go-ethereum's hash functions\<close>

record geth =
  ge_Keccak256 :: "bytes \<Rightarrow> hash"
  ge_BytesToHash :: "bytes \<Rightarrow> hash"

text \<open>
  Keccak-256 gives 32 bytes. \<open>BytesToHash\<close> crops from the left what is longer and pads on the left
  what is shorter.
\<close>

definition crop_left :: "bytes \<Rightarrow> bytes" where
  "crop_left b = (if 32 < length b then drop (length b - 32) b else replicate (32 - length b) 0 @ b)"

definition geth_laws :: "geth \<Rightarrow> bool" where
  "geth_laws g \<longleftrightarrow> (\<forall>b. length (ge_Keccak256 g b) = 32) \<and> (\<forall>b. ge_BytesToHash g b = crop_left b)"

lemma length_crop_left [simp]: "length (crop_left b) = 32"
  by (simp add: crop_left_def)

lemma crop_left_id [simp]: "length b = 32 \<Longrightarrow> crop_left b = b"
  by (simp add: crop_left_def)

lemma geth_keccak_length: "geth_laws g \<Longrightarrow> length (ge_Keccak256 g b) = 32"
  by (simp add: geth_laws_def)

lemma geth_BytesToHash: "geth_laws g \<Longrightarrow> ge_BytesToHash g b = crop_left b"
  by (simp add: geth_laws_def)

text \<open>An instance of the parameters, for the examples: SHA-256 in the place of Keccak.\<close>

definition example_geth :: geth where
  "example_geth = \<lparr>ge_Keccak256 = sha256, ge_BytesToHash = crop_left\<rparr>"

lemma example_geth_laws [simp]: "geth_laws example_geth"
  by (simp add: geth_laws_def example_geth_def)

end
