(* ===== verification/Chain_DB.thy ===== *)
theory Chain_DB
  imports Go_Bytes Pkg_Types
begin

section \<open>The chain database: internal/execution/chaindb.go\<close>

text \<open>
  \<open>ChainDB\<close>: blocks, transactions, receipts and batches in a key-value store, and the cached number
  and state root of the latest block. The store (\<open>ethdb.Database\<close>) and the codecs (JSON, RLP) are
  not code of the repository: they are the parameters \<open>E\<close> (operations on a store of any type \<open>'d\<close>)
  and \<open>C\<close> (encoders and decoders), with the documented laws \<open>ethdb_laws\<close> and \<open>codec_laws\<close>. An
  operation of the store that fails gives \<open>None\<close>.
\<close>

subsection \<open>The store and the codecs\<close>

record 'd ethdb =
  ed_Get :: "'d \<Rightarrow> bytes \<Rightarrow> bytes option"
  ed_Put :: "'d \<Rightarrow> bytes \<Rightarrow> bytes \<Rightarrow> 'd option"
  ed_Write :: "'d \<Rightarrow> (bytes \<times> bytes) list \<Rightarrow> 'd option"

text \<open>A batch applies all its writes, in order; a later write to the same key wins.\<close>

definition ethdb_laws :: "'d ethdb \<Rightarrow> bool" where
  "ethdb_laws E \<longleftrightarrow>
     (\<forall>d k v d'. ed_Put E d k v = Some d' \<longrightarrow> (\<forall>k'. ed_Get E d' k' = (if k' = k then Some v else ed_Get E d k'))) \<and>
     (\<forall>d ops d'. ed_Write E d ops = Some d' \<longrightarrow> (\<forall>k'. ed_Get E d' k' =
        (case map_of (rev ops) k' of Some v \<Rightarrow> Some v | None \<Rightarrow> ed_Get E d k')))"

record codec =
  enc_block :: "l2_block \<Rightarrow> bytes option"
  dec_block :: "bytes \<Rightarrow> l2_block option"
  enc_tx :: "tx \<Rightarrow> bytes option"
  dec_tx :: "bytes \<Rightarrow> tx option"
  enc_receipt :: "receipt \<Rightarrow> bytes option"
  dec_receipt :: "bytes \<Rightarrow> receipt option"
  dec_receipt_rlp :: "bytes \<Rightarrow> receipt option"
  enc_batch :: "batch \<Rightarrow> bytes option"
  dec_batch :: "bytes \<Rightarrow> batch option"
  enc_origin :: "l1_origin \<Rightarrow> bytes option"
  dec_origin :: "bytes \<Rightarrow> l1_origin option"

definition codec_laws :: "codec \<Rightarrow> bool" where
  "codec_laws C \<longleftrightarrow> (\<forall>x b. enc_block C x = Some b \<longrightarrow> dec_block C b = Some x) \<and>
     (\<forall>x b. enc_tx C x = Some b \<longrightarrow> dec_tx C b = Some x) \<and>
     (\<forall>x b. enc_receipt C x = Some b \<longrightarrow> dec_receipt C b = Some x) \<and>
     (\<forall>x b. enc_batch C x = Some b \<longrightarrow> dec_batch C b = Some x) \<and>
     (\<forall>x b. enc_origin C x = Some b \<longrightarrow> dec_origin C b = Some x)"

subsection \<open>Keys\<close>

definition ascii :: "string \<Rightarrow> bytes" where
  "ascii s = map of_char s"

definition prefixBlock :: bytes where "prefixBlock = ascii ''b''"
definition prefixBlockHash :: bytes where "prefixBlockHash = ascii ''h''"
definition prefixReceipt :: bytes where "prefixReceipt = ascii ''r''"
definition prefixTx :: bytes where "prefixTx = ascii ''t''"
definition prefixTxBlock :: bytes where "prefixTxBlock = ascii ''tb''"
definition prefixBatch :: bytes where "prefixBatch = ascii ''bt''"
definition keyCurrentBlock :: bytes where "keyCurrentBlock = ascii ''current-block''"
definition keyLatestRoot :: bytes where "keyLatestRoot = ascii ''latest-root''"
definition keyLatestBatch :: bytes where "keyLatestBatch = ascii ''latest-batch-index''"
definition keyGenesisRoot :: bytes where "keyGenesisRoot = ascii ''genesis-root''"
definition keyL1Origin :: bytes where "keyL1Origin = ascii ''l1-origin''"

lemmas key_defs = prefixBlock_def prefixBlockHash_def prefixReceipt_def prefixTx_def prefixTxBlock_def
  prefixBatch_def keyCurrentBlock_def keyLatestRoot_def keyLatestBatch_def keyGenesisRoot_def
  keyL1Origin_def ascii_def

subsection \<open>Operations\<close>

datatype chain_error = ErrMarshalBlock | ErrEncodeTx hash | ErrEncodeReceipt hash | ErrWriteBatch
  | ErrUnmarshalBlock | ErrBlockMissing u64 hash | ErrDecodeTx | ErrDecodeReceipt | ErrMarshalBatch
  | ErrUnmarshalBatch | ErrPut | ErrNotFound | ErrMarshalOrigin | ErrUnmarshalOrigin

record 'd chain_db =
  cdb_db :: 'd
  cdb_currentBlock :: u64
  cdb_stateRoot :: hash

definition NewChainDB :: "'d ethdb \<Rightarrow> 'd \<Rightarrow> 'd chain_db" where
  "NewChainDB E d =
     \<lparr>cdb_db = d,
      cdb_currentBlock = (case ed_Get E d keyCurrentBlock of
        Some data \<Rightarrow> if data \<noteq> [] then bytes_u64 data else 0 | None \<Rightarrow> 0),
      cdb_stateRoot = (case ed_Get E d keyLatestRoot of
        Some data \<Rightarrow> if length data = 32 then data else zero_hash | None \<Rightarrow> zero_hash)\<rparr>"

fun tx_ops :: "codec \<Rightarrow> bytes \<Rightarrow> tx list \<Rightarrow> chain_error + (bytes \<times> bytes) list" where
  "tx_ops C numBytes [] = Inr []"
| "tx_ops C numBytes (t # ts) = (case enc_tx C t of
     None \<Rightarrow> Inl (ErrEncodeTx (tx_Hash t))
   | Some txRLP \<Rightarrow> (case tx_ops C numBytes ts of
       Inl e \<Rightarrow> Inl e
     | Inr ops \<Rightarrow> Inr ((prefixTx @ tx_Hash t, txRLP) # (prefixTxBlock @ tx_Hash t, numBytes) # ops)))"

fun receipt_ops :: "codec \<Rightarrow> receipt list \<Rightarrow> chain_error + (bytes \<times> bytes) list" where
  "receipt_ops C [] = Inr []"
| "receipt_ops C (r # rs) = (case enc_receipt C r of
     None \<Rightarrow> Inl (ErrEncodeReceipt (rc_TxHash r))
   | Some rcptJSON \<Rightarrow> (case receipt_ops C rs of
       Inl e \<Rightarrow> Inl e
     | Inr ops \<Rightarrow> Inr ((prefixReceipt @ rc_TxHash r, rcptJSON) # ops)))"

definition cdb_WriteBlock :: "'d ethdb \<Rightarrow> codec \<Rightarrow> 'd chain_db \<Rightarrow> l2_block \<Rightarrow> chain_error + 'd chain_db" where
  "cdb_WriteBlock E C c block =
     (case enc_block C block of
        None \<Rightarrow> Inl ErrMarshalBlock
      | Some blockData \<Rightarrow>
        let num = hd_Number (bk_Header block); numBytes = u64_bytes num in
        (case tx_ops C numBytes (bk_Transactions block) of
           Inl e \<Rightarrow> Inl e
         | Inr txs \<Rightarrow> (case receipt_ops C (bk_Receipts block) of
             Inl e \<Rightarrow> Inl e
           | Inr rcpts \<Rightarrow>
             (case ed_Write E (cdb_db c)
                ([(prefixBlock @ numBytes, blockData),
                  (prefixBlockHash @ hd_Hash (bk_Header block), numBytes)] @ txs @ rcpts @
                 [(keyCurrentBlock, numBytes), (keyLatestRoot, hd_StateRoot (bk_Header block))]) of
                None \<Rightarrow> Inl ErrWriteBatch
              | Some d \<Rightarrow> Inr (c\<lparr>cdb_db := d, cdb_currentBlock := num,
                  cdb_stateRoot := hd_StateRoot (bk_Header block)\<rparr>)))))"

definition cdb_ReadBlock :: "'d ethdb \<Rightarrow> codec \<Rightarrow> 'd chain_db \<Rightarrow> u64 \<Rightarrow> chain_error + l2_block option" where
  "cdb_ReadBlock E C c num = (case ed_Get E (cdb_db c) (prefixBlock @ u64_bytes num) of
     None \<Rightarrow> Inr None
   | Some data \<Rightarrow> (case dec_block C data of None \<Rightarrow> Inl ErrUnmarshalBlock | Some b \<Rightarrow> Inr (Some b)))"

definition cdb_ReadBlockByHash :: "'d ethdb \<Rightarrow> codec \<Rightarrow> 'd chain_db \<Rightarrow> hash \<Rightarrow> chain_error + l2_block option" where
  "cdb_ReadBlockByHash E C c h = (case ed_Get E (cdb_db c) (prefixBlockHash @ h) of
     None \<Rightarrow> Inr None
   | Some numBytes \<Rightarrow> (case ed_Get E (cdb_db c) (prefixBlock @ numBytes) of
       None \<Rightarrow> Inl (ErrBlockMissing (bytes_u64 numBytes) h)
     | Some data \<Rightarrow> (case dec_block C data of None \<Rightarrow> Inl ErrUnmarshalBlock | Some b \<Rightarrow> Inr (Some b))))"

definition cdb_ReadBlockHash :: "'d ethdb \<Rightarrow> codec \<Rightarrow> 'd chain_db \<Rightarrow> u64 \<Rightarrow> hash" where
  "cdb_ReadBlockHash E C c num = (case cdb_ReadBlock E C c num of
     Inr (Some b) \<Rightarrow> hd_Hash (bk_Header b) | _ \<Rightarrow> zero_hash)"

definition cdb_ReadTransaction :: "'d ethdb \<Rightarrow> codec \<Rightarrow> 'd chain_db \<Rightarrow> hash \<Rightarrow> chain_error + tx option" where
  "cdb_ReadTransaction E C c h = (case ed_Get E (cdb_db c) (prefixTx @ h) of
     None \<Rightarrow> Inr None
   | Some data \<Rightarrow> (case dec_tx C data of None \<Rightarrow> Inl ErrDecodeTx | Some t \<Rightarrow> Inr (Some t)))"

definition cdb_ReadReceipt :: "'d ethdb \<Rightarrow> codec \<Rightarrow> 'd chain_db \<Rightarrow> hash \<Rightarrow> chain_error + receipt option" where
  "cdb_ReadReceipt E C c h = (case ed_Get E (cdb_db c) (prefixReceipt @ h) of
     None \<Rightarrow> Inr None
   | Some data \<Rightarrow> (case dec_receipt C data of
       Some r \<Rightarrow> Inr (Some r)
     | None \<Rightarrow> (case dec_receipt_rlp C data of None \<Rightarrow> Inl ErrDecodeReceipt | Some r \<Rightarrow> Inr (Some r))))"

definition cdb_ReadTxBlockNumber :: "'d ethdb \<Rightarrow> 'd chain_db \<Rightarrow> hash \<Rightarrow> u64 \<times> bool" where
  "cdb_ReadTxBlockNumber E c h = (case ed_Get E (cdb_db c) (prefixTxBlock @ h) of
     None \<Rightarrow> (0, False) | Some data \<Rightarrow> (bytes_u64 data, True))"

definition cdb_WriteBatch :: "'d ethdb \<Rightarrow> codec \<Rightarrow> 'd chain_db \<Rightarrow> batch \<Rightarrow> chain_error + 'd chain_db" where
  "cdb_WriteBatch E C c bt = (case enc_batch C bt of
     None \<Rightarrow> Inl ErrMarshalBatch
   | Some data \<Rightarrow> let idxBytes = u64_bytes (bt_Index bt) in
     (case ed_Write E (cdb_db c) [(prefixBatch @ idxBytes, data), (keyLatestBatch, idxBytes)] of
        None \<Rightarrow> Inl ErrWriteBatch
      | Some d \<Rightarrow> Inr (c\<lparr>cdb_db := d\<rparr>)))"

definition cdb_ReadBatch :: "'d ethdb \<Rightarrow> codec \<Rightarrow> 'd chain_db \<Rightarrow> u64 \<Rightarrow> chain_error + batch option" where
  "cdb_ReadBatch E C c index = (case ed_Get E (cdb_db c) (prefixBatch @ u64_bytes index) of
     None \<Rightarrow> Inr None
   | Some data \<Rightarrow> (case dec_batch C data of None \<Rightarrow> Inl ErrUnmarshalBatch | Some b \<Rightarrow> Inr (Some b)))"

definition cdb_ReadLatestBatch :: "'d ethdb \<Rightarrow> codec \<Rightarrow> 'd chain_db \<Rightarrow> chain_error + batch option" where
  "cdb_ReadLatestBatch E C c = (case ed_Get E (cdb_db c) keyLatestBatch of
     None \<Rightarrow> Inr None
   | Some idxBytes \<Rightarrow> (case ed_Get E (cdb_db c) (prefixBatch @ idxBytes) of
       None \<Rightarrow> Inr None
     | Some data \<Rightarrow> (case dec_batch C data of None \<Rightarrow> Inl ErrUnmarshalBatch | Some b \<Rightarrow> Inr (Some b))))"

definition cdb_CurrentBlock :: "'d chain_db \<Rightarrow> u64" where
  "cdb_CurrentBlock c = cdb_currentBlock c"

definition cdb_LatestStateRoot :: "'d chain_db \<Rightarrow> hash" where
  "cdb_LatestStateRoot c = cdb_stateRoot c"

definition cdb_WriteGenesisRoot :: "'d ethdb \<Rightarrow> 'd chain_db \<Rightarrow> hash \<Rightarrow> chain_error + 'd chain_db" where
  "cdb_WriteGenesisRoot E c newRoot = (case ed_Put E (cdb_db c) keyGenesisRoot newRoot of
     None \<Rightarrow> Inl ErrPut | Some d \<Rightarrow> Inr (c\<lparr>cdb_db := d\<rparr>))"

definition cdb_ReadGenesisRoot :: "'d ethdb \<Rightarrow> geth \<Rightarrow> 'd chain_db \<Rightarrow> chain_error + hash" where
  "cdb_ReadGenesisRoot E g c = (case ed_Get E (cdb_db c) keyGenesisRoot of
     None \<Rightarrow> Inl ErrNotFound | Some data \<Rightarrow> Inr (ge_BytesToHash g data))"

definition cdb_WriteL1Origin :: "'d ethdb \<Rightarrow> codec \<Rightarrow> 'd chain_db \<Rightarrow> l1_origin \<Rightarrow> chain_error + 'd chain_db" where
  "cdb_WriteL1Origin E C c origin = (case enc_origin C origin of
     None \<Rightarrow> Inl ErrMarshalOrigin
   | Some data \<Rightarrow> (case ed_Put E (cdb_db c) keyL1Origin data of
       None \<Rightarrow> Inl ErrPut | Some d \<Rightarrow> Inr (c\<lparr>cdb_db := d\<rparr>)))"

definition cdb_ReadL1Origin :: "'d ethdb \<Rightarrow> codec \<Rightarrow> 'd chain_db \<Rightarrow> chain_error + l1_origin option" where
  "cdb_ReadL1Origin E C c = (case ed_Get E (cdb_db c) keyL1Origin of
     None \<Rightarrow> Inr None
   | Some data \<Rightarrow> (case dec_origin C data of None \<Rightarrow> Inl ErrUnmarshalOrigin | Some x \<Rightarrow> Inr (Some x)))"

subsection \<open>Which keys coincide\<close>

text \<open>The keys of the database as data, and their bytes.\<close>

datatype db_key = KBlock u64 | KBlockHash hash | KReceipt hash | KTx hash | KTxBlock hash | KBatch u64
  | KCurrentBlock | KLatestRoot | KLatestBatch | KGenesisRoot | KL1Origin

fun key_bytes :: "db_key \<Rightarrow> bytes" where
  "key_bytes (KBlock n) = prefixBlock @ u64_bytes n"
| "key_bytes (KBlockHash h) = prefixBlockHash @ h"
| "key_bytes (KReceipt h) = prefixReceipt @ h"
| "key_bytes (KTx h) = prefixTx @ h"
| "key_bytes (KTxBlock h) = prefixTxBlock @ h"
| "key_bytes (KBatch i) = prefixBatch @ u64_bytes i"
| "key_bytes KCurrentBlock = keyCurrentBlock"
| "key_bytes KLatestRoot = keyLatestRoot"
| "key_bytes KLatestBatch = keyLatestBatch"
| "key_bytes KGenesisRoot = keyGenesisRoot"
| "key_bytes KL1Origin = keyL1Origin"

fun key_ok :: "db_key \<Rightarrow> bool" where
  "key_ok (KBlockHash h) = (length h = 32)"
| "key_ok (KReceipt h) = (length h = 32)"
| "key_ok (KTx h) = (length h = 32)"
| "key_ok (KTxBlock h) = (length h = 32)"
| "key_ok _ = True"

text \<open>A block number whose first byte is the letter t, followed by a batch index.\<close>

definition clash :: "u64 \<Rightarrow> u64 \<Rightarrow> bool" where
  "clash n i \<longleftrightarrow> u64_bytes n = 0x74 # u64_bytes i"

fun keys_clash :: "db_key \<Rightarrow> db_key \<Rightarrow> bool" where
  "keys_clash (KBlock n) (KBatch i) = clash n i"
| "keys_clash (KBatch i) (KBlock n) = clash n i"
| "keys_clash _ _ = False"

lemma u64_bytes_short: "length xs = 32 \<Longrightarrow> u64_bytes n \<noteq> b # xs"
  using u64_bytes_length [of n] by auto

lemma key_bytes_eq:
  assumes "key_ok k" and "key_ok k'"
  shows "key_bytes k = key_bytes k' \<longleftrightarrow> k = k' \<or> keys_clash k k'"
  using assms u64_bytes_short
  by (cases k; cases k') (auto simp: key_defs clash_def)

subsection \<open>Lookups after writes\<close>

lemma ed_Write_get: "ethdb_laws E \<Longrightarrow> ed_Write E d ops = Some d' \<Longrightarrow>
    ed_Get E d' k = (case map_of (rev ops) k of Some v \<Rightarrow> Some v | None \<Rightarrow> ed_Get E d k)"
  unfolding ethdb_laws_def by blast

lemma ed_Put_get: "ethdb_laws E \<Longrightarrow> ed_Put E d k v = Some d' \<Longrightarrow>
    ed_Get E d' k' = (if k' = k then Some v else ed_Get E d k')"
  unfolding ethdb_laws_def by blast

definition on_bytes :: "(db_key \<times> bytes) list \<Rightarrow> (bytes \<times> bytes) list" where
  "on_bytes kops = map (\<lambda>(k, v). (key_bytes k, v)) kops"

lemma map_of_on_bytes:
  assumes "key_ok k" and "\<forall>(k', v) \<in> set kops. key_ok k' \<and> \<not> keys_clash k k'"
  shows "map_of (on_bytes kops) (key_bytes k) = map_of kops k"
  using assms(2)
proof (induction kops)
  case (Cons x kops)
  obtain k' v where x: "x = (k', v)" by (cases x)
  from Cons.prems x have ok: "key_ok k'" "\<not> keys_clash k k'" by auto
  then have "key_bytes k = key_bytes k' \<longleftrightarrow> k = k'" using key_bytes_eq [OF assms(1) ok(1)] by simp
  moreover have "map_of (on_bytes kops) (key_bytes k) = map_of kops k" using Cons by simp
  ultimately show ?case by (auto simp: x on_bytes_def)
qed (simp add: on_bytes_def)

lemma map_of_unique:
  assumes "(k, v) \<in> set xs" and "\<forall>v'. (k, v') \<in> set xs \<longrightarrow> v' = v"
  shows "map_of xs k = Some v"
  using assms by (metis map_of_SomeD weak_map_of_SomeI)

text \<open>The writes of a block, with their keys as data.\<close>

definition tx_kops :: "codec \<Rightarrow> bytes \<Rightarrow> tx list \<Rightarrow> (db_key \<times> bytes) list" where
  "tx_kops C numBytes ts = concat (map (\<lambda>t. [(KTx (tx_Hash t), the (enc_tx C t)), (KTxBlock (tx_Hash t), numBytes)]) ts)"

definition receipt_kops :: "codec \<Rightarrow> receipt list \<Rightarrow> (db_key \<times> bytes) list" where
  "receipt_kops C rs = map (\<lambda>r. (KReceipt (rc_TxHash r), the (enc_receipt C r))) rs"

definition block_kops :: "codec \<Rightarrow> l2_block \<Rightarrow> (db_key \<times> bytes) list" where
  "block_kops C b = (let n = hd_Number (bk_Header b) in
     [(KBlock n, the (enc_block C b)), (KBlockHash (hd_Hash (bk_Header b)), u64_bytes n)] @
     tx_kops C (u64_bytes n) (bk_Transactions b) @ receipt_kops C (bk_Receipts b) @
     [(KCurrentBlock, u64_bytes n), (KLatestRoot, hd_StateRoot (bk_Header b))])"

definition block_wf :: "l2_block \<Rightarrow> bool" where
  "block_wf b \<longleftrightarrow> length (hd_Hash (bk_Header b)) = 32 \<and> length (hd_StateRoot (bk_Header b)) = 32 \<and>
     (\<forall>t \<in> set (bk_Transactions b). length (tx_Hash t) = 32) \<and> inj_on tx_Hash (set (bk_Transactions b)) \<and>
     (\<forall>r \<in> set (bk_Receipts b). length (rc_TxHash r) = 32) \<and> inj_on rc_TxHash (set (bk_Receipts b))"

lemma tx_ops_kops: "tx_ops C n ts = Inr ops \<Longrightarrow>
    ops = on_bytes (tx_kops C n ts) \<and> (\<forall>t \<in> set ts. enc_tx C t \<noteq> None)"
  by (induction ts arbitrary: ops)
    (auto simp: tx_kops_def on_bytes_def split: option.splits sum.splits)

lemma receipt_ops_kops: "receipt_ops C rs = Inr ops \<Longrightarrow>
    ops = on_bytes (receipt_kops C rs) \<and> (\<forall>r \<in> set rs. enc_receipt C r \<noteq> None)"
  by (induction rs arbitrary: ops)
    (auto simp: receipt_kops_def on_bytes_def split: option.splits sum.splits)

lemma WriteBlock_ok:
  assumes "cdb_WriteBlock E C c b = Inr c'"
  shows "ed_Write E (cdb_db c) (on_bytes (block_kops C b)) = Some (cdb_db c')"
    and "cdb_currentBlock c' = hd_Number (bk_Header b)" and "cdb_stateRoot c' = hd_StateRoot (bk_Header b)"
    and "enc_block C b \<noteq> None" and "\<forall>t \<in> set (bk_Transactions b). enc_tx C t \<noteq> None"
    and "\<forall>r \<in> set (bk_Receipts b). enc_receipt C r \<noteq> None"
proof -
  let ?n = "u64_bytes (hd_Number (bk_Header b))"
  let ?ops = "\<lambda>data txs rcpts. [(prefixBlock @ ?n, data), (prefixBlockHash @ hd_Hash (bk_Header b), ?n)] @
         txs @ rcpts @ [(keyCurrentBlock, ?n), (keyLatestRoot, hd_StateRoot (bk_Header b))]"
  obtain data where w1: "enc_block C b = Some data"
    using assms by (cases "enc_block C b") (simp_all add: cdb_WriteBlock_def)
  obtain txs where w2: "tx_ops C ?n (bk_Transactions b) = Inr txs"
    using assms w1 by (cases "tx_ops C ?n (bk_Transactions b)") (simp_all add: cdb_WriteBlock_def)
  obtain rcpts where w3: "receipt_ops C (bk_Receipts b) = Inr rcpts"
    using assms w1 w2 by (cases "receipt_ops C (bk_Receipts b)") (simp_all add: cdb_WriteBlock_def)
  obtain d where w4: "ed_Write E (cdb_db c) (?ops data txs rcpts) = Some d"
    using assms w1 w2 w3 by (cases "ed_Write E (cdb_db c) (?ops data txs rcpts)")
      (simp_all add: cdb_WriteBlock_def)
  have w5: "c' = c\<lparr>cdb_db := d, cdb_currentBlock := hd_Number (bk_Header b),
         cdb_stateRoot := hd_StateRoot (bk_Header b)\<rparr>"
    using assms w1 w2 w3 w4 by (simp add: cdb_WriteBlock_def)
  note w = w1 w2 w3 w4 w5
  note t = tx_ops_kops [OF w(2)] and r = receipt_ops_kops [OF w(3)]
  have "on_bytes (block_kops C b) = [(prefixBlock @ ?n, data), (prefixBlockHash @ hd_Hash (bk_Header b), ?n)] @
      txs @ rcpts @ [(keyCurrentBlock, ?n), (keyLatestRoot, hd_StateRoot (bk_Header b))]"
    using w(1) t r by (simp add: block_kops_def on_bytes_def Let_def)
  then show "ed_Write E (cdb_db c) (on_bytes (block_kops C b)) = Some (cdb_db c')" using w(4,5) by simp
  show "cdb_currentBlock c' = hd_Number (bk_Header b)" "cdb_stateRoot c' = hd_StateRoot (bk_Header b)"
    using w(5) by simp_all
  show "enc_block C b \<noteq> None" "\<forall>t \<in> set (bk_Transactions b). enc_tx C t \<noteq> None"
    "\<forall>r \<in> set (bk_Receipts b). enc_receipt C r \<noteq> None" using w(1) t r by auto
qed

lemma block_kops_ok:
  assumes "block_wf b"
  shows "\<forall>(k, v) \<in> set (block_kops C b). key_ok k"
  using assms by (auto simp: block_kops_def Let_def block_wf_def tx_kops_def receipt_kops_def)

lemma block_kops_clash:
  "(\<And>i. k = KBatch i \<Longrightarrow> \<not> clash (hd_Number (bk_Header b)) i) \<Longrightarrow>
   \<forall>(k', v) \<in> set (block_kops C b). \<not> keys_clash k k'"
  by (cases k) (auto simp: block_kops_def Let_def tx_kops_def receipt_kops_def)

lemma WriteBlock_get:
  assumes "ethdb_laws E" and "block_wf b" and "cdb_WriteBlock E C c b = Inr c'" and "key_ok k"
    and "\<And>i. k = KBatch i \<Longrightarrow> \<not> clash (hd_Number (bk_Header b)) i"
  shows "ed_Get E (cdb_db c') (key_bytes k) = (case map_of (rev (block_kops C b)) k of
    Some v \<Rightarrow> Some v | None \<Rightarrow> ed_Get E (cdb_db c) (key_bytes k))"
proof -
  have "\<forall>(k', v) \<in> set (rev (block_kops C b)). key_ok k' \<and> \<not> keys_clash k k'"
    using block_kops_ok [OF assms(2), of C] block_kops_clash [OF assms(5), where C = C] by fastforce
  from map_of_on_bytes [OF assms(4) this]
  have "map_of (rev (on_bytes (block_kops C b))) (key_bytes k) = map_of (rev (block_kops C b)) k"
    by (simp add: on_bytes_def rev_map)
  then show ?thesis using ed_Write_get [OF assms(1) WriteBlock_ok(1) [OF assms(3)]] by simp
qed

lemma WriteBlock_hit:
  assumes "ethdb_laws E" and "block_wf b" and "cdb_WriteBlock E C c b = Inr c'"
    and "(k, v) \<in> set (block_kops C b)" and "\<forall>v'. (k, v') \<in> set (block_kops C b) \<longrightarrow> v' = v"
  shows "ed_Get E (cdb_db c') (key_bytes k) = Some v"
proof -
  have k: "key_ok k" using block_kops_ok [OF assms(2), of C] assms(4) by auto
  have nb: "k \<noteq> KBatch i" for i
    using assms(4) by (auto simp: block_kops_def Let_def tx_kops_def receipt_kops_def)
  have "map_of (rev (block_kops C b)) k = Some v"
    by (rule map_of_unique, use assms(4) in simp, unfold set_rev, rule assms(5))
  then show ?thesis using WriteBlock_get [OF assms(1-3) k] nb by simp
qed

lemma WriteBlock_miss:
  assumes "ethdb_laws E" and "block_wf b" and "cdb_WriteBlock E C c b = Inr c'" and "key_ok k"
    and "\<And>i. k = KBatch i \<Longrightarrow> \<not> clash (hd_Number (bk_Header b)) i"
    and "k \<notin> fst ` set (block_kops C b)"
  shows "ed_Get E (cdb_db c') (key_bytes k) = ed_Get E (cdb_db c) (key_bytes k)"
proof -
  have "map_of (rev (block_kops C b)) k = None" using assms(6) by (simp add: map_of_eq_None_iff)
  then show ?thesis using WriteBlock_get [OF assms(1-5)] by simp
qed

lemmas kops_defs = block_kops_def Let_def tx_kops_def receipt_kops_def

subsection \<open>Reading what was written\<close>

lemma codec_dec:
  assumes "codec_laws C"
  shows "enc_block C b = Some x \<Longrightarrow> dec_block C x = Some b" "enc_tx C t = Some x \<Longrightarrow> dec_tx C x = Some t"
    "enc_receipt C r = Some x \<Longrightarrow> dec_receipt C x = Some r" "enc_batch C bt = Some x \<Longrightarrow> dec_batch C x = Some bt"
    "enc_origin C l = Some x \<Longrightarrow> dec_origin C x = Some l"
  using assms by (auto simp: codec_laws_def)

text \<open>The value under each key that a block writes is determined by the block.\<close>

lemma block_kops_unique:
  assumes "block_wf b"
  shows "(KBlock n, v) \<in> set (block_kops C b) \<longleftrightarrow> n = hd_Number (bk_Header b) \<and> v = the (enc_block C b)"
    and "(KBlockHash h, v) \<in> set (block_kops C b) \<longleftrightarrow>
      h = hd_Hash (bk_Header b) \<and> v = u64_bytes (hd_Number (bk_Header b))"
    and "t \<in> set (bk_Transactions b) \<Longrightarrow>
      (KTx (tx_Hash t), v) \<in> set (block_kops C b) \<longleftrightarrow> v = the (enc_tx C t)"
    and "t \<in> set (bk_Transactions b) \<Longrightarrow>
      (KTxBlock (tx_Hash t), v) \<in> set (block_kops C b) \<longleftrightarrow> v = u64_bytes (hd_Number (bk_Header b))"
    and "r \<in> set (bk_Receipts b) \<Longrightarrow>
      (KReceipt (rc_TxHash r), v) \<in> set (block_kops C b) \<longleftrightarrow> v = the (enc_receipt C r)"
    and "(KCurrentBlock, v) \<in> set (block_kops C b) \<longleftrightarrow> v = u64_bytes (hd_Number (bk_Header b))"
    and "(KLatestRoot, v) \<in> set (block_kops C b) \<longleftrightarrow> v = hd_StateRoot (bk_Header b)"
  using assms by (auto simp: kops_defs block_wf_def dest: inj_onD)

definition written :: "'d ethdb \<Rightarrow> codec \<Rightarrow> l2_block \<Rightarrow> 'd chain_db \<Rightarrow> 'd chain_db \<Rightarrow> bool" where
  "written E C b c c' \<longleftrightarrow> ethdb_laws E \<and> codec_laws C \<and> block_wf b \<and> cdb_WriteBlock E C c b = Inr c'"

lemma written_hit:
  assumes "written E C b c c'" and "\<And>v'. (k, v') \<in> set (block_kops C b) \<longleftrightarrow> v' = v"
  shows "ed_Get E (cdb_db c') (key_bytes k) = Some v"
  using assms by (intro WriteBlock_hit [of E b C c]) (auto simp: written_def)

lemma written_dec:
  assumes "written E C b c c'"
  shows "block_wf b" and "dec_block C (the (enc_block C b)) = Some b"
    and "t \<in> set (bk_Transactions b) \<Longrightarrow> dec_tx C (the (enc_tx C t)) = Some t"
    and "r \<in> set (bk_Receipts b) \<Longrightarrow> dec_receipt C (the (enc_receipt C r)) = Some r"
proof -
  have w: "codec_laws C" "cdb_WriteBlock E C c b = Inr c'" using assms by (simp_all add: written_def)
  show "block_wf b" using assms by (simp add: written_def)
  show "dec_block C (the (enc_block C b)) = Some b"
    using WriteBlock_ok(4) [OF w(2)] codec_dec(1) [OF w(1), of b] by auto
  show "dec_tx C (the (enc_tx C t)) = Some t" if "t \<in> set (bk_Transactions b)"
    using WriteBlock_ok(5) [OF w(2)] that codec_dec(2) [OF w(1), of t] by auto
  show "dec_receipt C (the (enc_receipt C r)) = Some r" if "r \<in> set (bk_Receipts b)"
    using WriteBlock_ok(6) [OF w(2)] that codec_dec(3) [OF w(1), of r] by auto
qed

text \<open>A block that was written has transactions that the codec encodes.\<close>

lemma written_encodes:
  assumes "written E C b c c'" and "t \<in> set (bk_Transactions b)"
  shows "enc_tx C t \<noteq> None"
proof -
  obtain ops where "tx_ops C (u64_bytes (hd_Number (bk_Header b))) (bk_Transactions b) = Inr ops"
    using assms(1) by (auto simp: written_def cdb_WriteBlock_def Let_def split: option.splits sum.splits)
  then show ?thesis using tx_ops_kops assms(2) by blast
qed

lemma ReadBlock_written:
  assumes "written E C b c c'"
  shows "cdb_ReadBlock E C c' (hd_Number (bk_Header b)) = Inr (Some b)"
  using written_hit [OF assms, of "KBlock (hd_Number (bk_Header b))" "the (enc_block C b)"]
    written_dec(1,2) [OF assms] by (simp add: block_kops_unique cdb_ReadBlock_def)

lemma ReadBlockByHash_written:
  assumes "written E C b c c'"
  shows "cdb_ReadBlockByHash E C c' (hd_Hash (bk_Header b)) = Inr (Some b)"
  using written_hit [OF assms, of "KBlock (hd_Number (bk_Header b))" "the (enc_block C b)"]
    written_hit [OF assms, of "KBlockHash (hd_Hash (bk_Header b))" "u64_bytes (hd_Number (bk_Header b))"]
    written_dec(1,2) [OF assms] by (simp add: block_kops_unique cdb_ReadBlockByHash_def)

lemma ReadTransaction_written:
  assumes "written E C b c c'" and "t \<in> set (bk_Transactions b)"
  shows "cdb_ReadTransaction E C c' (tx_Hash t) = Inr (Some t)"
    and "cdb_ReadTxBlockNumber E c' (tx_Hash t) = (hd_Number (bk_Header b), True)"
  using written_hit [OF assms(1), of "KTx (tx_Hash t)" "the (enc_tx C t)"]
    written_hit [OF assms(1), of "KTxBlock (tx_Hash t)" "u64_bytes (hd_Number (bk_Header b))"]
    written_dec(1,3) [OF assms(1)] assms(2)
  by (simp_all add: block_kops_unique cdb_ReadTransaction_def cdb_ReadTxBlockNumber_def)

lemma ReadReceipt_written:
  assumes "written E C b c c'" and "r \<in> set (bk_Receipts b)"
  shows "cdb_ReadReceipt E C c' (rc_TxHash r) = Inr (Some r)"
  using written_hit [OF assms(1), of "KReceipt (rc_TxHash r)" "the (enc_receipt C r)"]
    written_dec(1,4) [OF assms(1)] assms(2)
  by (simp add: block_kops_unique cdb_ReadReceipt_def)

lemma u64_bytes_Nil: "u64_bytes n = [] \<Longrightarrow> n = 0"
  by (simp add: u64_bytes_def unat_eq_0)

text \<open>A database that is opened again has the same current block and state root.\<close>

lemma NewChainDB_written:
  assumes "written E C b c c'"
  shows "NewChainDB E (cdb_db c') = c'"
proof -
  have get: "ed_Get E (cdb_db c') keyCurrentBlock = Some (u64_bytes (hd_Number (bk_Header b)))"
    "ed_Get E (cdb_db c') keyLatestRoot = Some (hd_StateRoot (bk_Header b))"
    using written_hit [OF assms, of KCurrentBlock] written_hit [OF assms, of KLatestRoot]
      written_dec(1) [OF assms] by (simp_all add: block_kops_unique)
  have "cdb_WriteBlock E C c b = Inr c'" using assms by (simp add: written_def)
  note f = WriteBlock_ok(2,3) [OF this]
  have len: "length (hd_StateRoot (bk_Header b)) = 32" using written_dec(1) [OF assms] by (simp add: block_wf_def)
  have n: "(if u64_bytes n \<noteq> [] then bytes_u64 (u64_bytes n) else 0) = n" for n
    using u64_bytes_Nil [of n] by (cases "u64_bytes n = []") simp_all
  show ?thesis unfolding NewChainDB_def get option.case n len using f by (cases c') simp
qed

lemma ReadBlock_other:
  assumes "written E C b c c'" and "n \<noteq> hd_Number (bk_Header b)"
  shows "cdb_ReadBlock E C c' n = cdb_ReadBlock E C c n"
proof -
  have "KBlock n \<notin> fst ` set (block_kops C b)" using assms(2) by (auto simp: kops_defs)
  then have "ed_Get E (cdb_db c') (key_bytes (KBlock n)) = ed_Get E (cdb_db c) (key_bytes (KBlock n))"
    using assms(1) by (intro WriteBlock_miss [of E b C c]) (auto simp: written_def)
  then show ?thesis by (simp add: cdb_ReadBlock_def)
qed

lemma ReadBatch_other:
  assumes "written E C b c c'" and "\<not> clash (hd_Number (bk_Header b)) i"
  shows "cdb_ReadBatch E C c' i = cdb_ReadBatch E C c i"
proof -
  have "KBatch i \<notin> fst ` set (block_kops C b)" by (auto simp: kops_defs)
  then have "ed_Get E (cdb_db c') (key_bytes (KBatch i)) = ed_Get E (cdb_db c) (key_bytes (KBatch i))"
    using assms by (intro WriteBlock_miss [of E b C c]) (auto simp: written_def)
  then show ?thesis by (simp add: cdb_ReadBatch_def)
qed

subsection \<open>Batches\<close>

lemma WriteBatch_get:
  assumes "ethdb_laws E" and "cdb_WriteBatch E C c bt = Inr c'" and "key_ok k"
    and "\<not> keys_clash k (KBatch (bt_Index bt))"
  shows "ed_Get E (cdb_db c') (key_bytes k) =
      (if k = KLatestBatch then Some (u64_bytes (bt_Index bt))
       else if k = KBatch (bt_Index bt) then enc_batch C bt else ed_Get E (cdb_db c) (key_bytes k))"
    and "enc_batch C bt \<noteq> None"
proof -
  obtain data d where w: "enc_batch C bt = Some data" "c' = c\<lparr>cdb_db := d\<rparr>"
      "ed_Write E (cdb_db c) (on_bytes [(KBatch (bt_Index bt), data), (KLatestBatch, u64_bytes (bt_Index bt))]) = Some d"
    using assms(2) by (auto simp: cdb_WriteBatch_def Let_def on_bytes_def split: option.splits)
  let ?ks = "[(KLatestBatch, u64_bytes (bt_Index bt)), (KBatch (bt_Index bt), data)]"
  have "\<forall>(k', v) \<in> set ?ks. key_ok k' \<and> \<not> keys_clash k k'" using assms(4) by (cases k) auto
  from map_of_on_bytes [OF assms(3) this]
  have "map_of (rev (on_bytes [(KBatch (bt_Index bt), data), (KLatestBatch, u64_bytes (bt_Index bt))])) (key_bytes k)
      = map_of ?ks k" by (simp add: on_bytes_def)
  then show "ed_Get E (cdb_db c') (key_bytes k) =
      (if k = KLatestBatch then Some (u64_bytes (bt_Index bt))
       else if k = KBatch (bt_Index bt) then enc_batch C bt else ed_Get E (cdb_db c) (key_bytes k))"
    using ed_Write_get [OF assms(1) w(3)] w(1,2) by simp
  show "enc_batch C bt \<noteq> None" using w(1) by simp
qed

lemma WriteBatch_fields: "cdb_WriteBatch E C c bt = Inr c' \<Longrightarrow>
    cdb_currentBlock c' = cdb_currentBlock c \<and> cdb_stateRoot c' = cdb_stateRoot c"
  by (auto simp: cdb_WriteBatch_def Let_def split: option.splits)

text \<open>Where the keys clash, the batch replaces the block.\<close>

lemma WriteBatch_clash:
  assumes "ethdb_laws E" and "cdb_WriteBatch E C c bt = Inr c'" and "clash n (bt_Index bt)"
  shows "ed_Get E (cdb_db c') (key_bytes (KBlock n)) = enc_batch C bt"
proof -
  have "key_bytes (KBlock n) = key_bytes (KBatch (bt_Index bt))"
    using assms(3) key_bytes_eq [of "KBlock n" "KBatch (bt_Index bt)"] by simp
  then show ?thesis using WriteBatch_get(1) [OF assms(1,2), of "KBatch (bt_Index bt)"] by simp
qed

subsection \<open>Any sequence of writes\<close>

inductive db_reach :: "'d ethdb \<Rightarrow> codec \<Rightarrow> 'd chain_db \<Rightarrow> bool" for E C where
  Open: "db_reach E C (NewChainDB E d)"
| Block: "db_reach E C c \<Longrightarrow> block_wf b \<Longrightarrow> cdb_WriteBlock E C c b = Inr c' \<Longrightarrow> db_reach E C c'"
| Batch: "db_reach E C c \<Longrightarrow> cdb_WriteBatch E C c bt = Inr c' \<Longrightarrow> db_reach E C c'"
| Genesis: "db_reach E C c \<Longrightarrow> cdb_WriteGenesisRoot E c h = Inr c' \<Longrightarrow> db_reach E C c'"
| Origin: "db_reach E C c \<Longrightarrow> cdb_WriteL1Origin E C c l = Inr c' \<Longrightarrow> db_reach E C c'"

lemma NewChainDB_db [simp]: "cdb_db (NewChainDB E d) = d"
  by (simp add: NewChainDB_def)

text \<open>The cached fields depend on two keys only.\<close>

lemma NewChainDB_cong:
  assumes "NewChainDB E (cdb_db c) = c" and "cdb_currentBlock c' = cdb_currentBlock c"
    and "cdb_stateRoot c' = cdb_stateRoot c"
    and "ed_Get E (cdb_db c') keyCurrentBlock = ed_Get E (cdb_db c) keyCurrentBlock"
    and "ed_Get E (cdb_db c') keyLatestRoot = ed_Get E (cdb_db c) keyLatestRoot"
  shows "NewChainDB E (cdb_db c') = c'"
  using assms by (cases c; cases c') (simp add: NewChainDB_def)

lemma reopen_same:
  assumes "ethdb_laws E" and "codec_laws C" and "db_reach E C c"
  shows "NewChainDB E (cdb_db c) = c"
  using assms(3)
proof induction
  case (Open d)
  then show ?case by simp
next
  case (Block c b c')
  then show ?case using assms(1,2) NewChainDB_written [of E C b c c'] by (simp add: written_def)
next
  case (Batch c bt c')
  show ?case
    using Batch(3) WriteBatch_fields [OF Batch(2)] WriteBatch_get(1) [OF assms(1) Batch(2), of KCurrentBlock]
      WriteBatch_get(1) [OF assms(1) Batch(2), of KLatestRoot]
    by (intro NewChainDB_cong [of E c c']) simp_all
next
  case (Genesis c h c')
  then obtain d where d: "ed_Put E (cdb_db c) keyGenesisRoot h = Some d" "c' = c\<lparr>cdb_db := d\<rparr>"
    by (auto simp: cdb_WriteGenesisRoot_def split: option.splits)
  show ?case
    using Genesis(3) d ed_Put_get [OF assms(1) d(1)]
    by (intro NewChainDB_cong [of E c c']) (simp_all add: key_defs)
next
  case (Origin c l c')
  then obtain d v where d: "ed_Put E (cdb_db c) keyL1Origin v = Some d" "c' = c\<lparr>cdb_db := d\<rparr>"
    by (auto simp: cdb_WriteL1Origin_def split: option.splits)
  show ?case
    using Origin(3) d ed_Put_get [OF assms(1) d(1)]
    by (intro NewChainDB_cong [of E c c']) (simp_all add: key_defs)
qed

subsection \<open>An instance of the parameters\<close>

text \<open>A store in memory, and codecs that know one block, one transaction, one receipt, one batch.\<close>

definition mem_db :: "(bytes \<rightharpoonup> bytes) ethdb" where
  "mem_db = \<lparr>ed_Get = (\<lambda>d k. d k), ed_Put = (\<lambda>d k v. Some (d(k \<mapsto> v))),
     ed_Write = (\<lambda>d ops. Some (d ++ map_of (rev ops)))\<rparr>"

lemma mem_db_laws: "ethdb_laws mem_db"
  by (auto simp: ethdb_laws_def mem_db_def map_add_def split: option.splits)

definition only :: "'a \<Rightarrow> 'a \<Rightarrow> bytes option" where
  "only x y = (if y = x then Some [1] else None)"

definition only_dec :: "'a \<Rightarrow> bytes \<Rightarrow> 'a option" where
  "only_dec x b = (if b = [1] then Some x else None)"

definition example_codec :: "l2_block \<Rightarrow> batch \<Rightarrow> codec" where
  "example_codec b bt = \<lparr>enc_block = only b, dec_block = only_dec b,
     enc_tx = only (example_tx 1 21000 0), dec_tx = only_dec (example_tx 1 21000 0),
     enc_receipt = only (example_rc 1), dec_receipt = only_dec (example_rc 1), dec_receipt_rlp = (\<lambda>_. None),
     enc_batch = only bt, dec_batch = only_dec bt,
     enc_origin = only no_l1_origin, dec_origin = only_dec no_l1_origin\<rparr>"

lemma example_codec_laws: "codec_laws (example_codec b bt)"
  by (auto simp: codec_laws_def example_codec_def only_def only_dec_def split: if_splits)

lemma example_block_wf: "block_wf (example_block n)"
  by (simp add: block_wf_def example_block_def example_tx_def example_rc_def)

lemma example_write: "\<exists>c'. cdb_WriteBlock mem_db (example_codec (example_block n) bt)
    (NewChainDB mem_db Map.empty) (example_block n) = Inr c'"
proof -
  let ?C = "example_codec (example_block n) bt"
  have "enc_block ?C (example_block n) = Some [1]"
    "tx_ops ?C m (bk_Transactions (example_block n)) = Inr [(prefixTx @ replicate 32 1, [1]), (prefixTxBlock @ replicate 32 1, m)]"
    "receipt_ops ?C (bk_Receipts (example_block n)) = Inr [(prefixReceipt @ replicate 32 1, [1])]" for m
    by (simp_all add: example_codec_def only_def example_block_def example_tx_def example_rc_def)
  then show ?thesis by (simp add: cdb_WriteBlock_def Let_def mem_db_def)
qed

lemma example_written: "\<exists>c'. written mem_db (example_codec (example_block n) bt) (example_block n)
    (NewChainDB mem_db Map.empty) c'"
  using example_write [of n bt] by (simp add: written_def mem_db_laws example_codec_laws example_block_wf)

subsection \<open>Properties\<close>

text \<open>C18. What a block writes can be read back: the block by its number and by its hash, every
  transaction with the number of its block, every receipt; and the latest number and state root are
  those of the block.\<close>

theorem chaindb_read_after_write:
  assumes "ethdb_laws E" and "codec_laws C" and "block_wf b" and "cdb_WriteBlock E C c b = Inr c'"
  shows "cdb_ReadBlock E C c' (hd_Number (bk_Header b)) = Inr (Some b) \<and>
    cdb_ReadBlockByHash E C c' (hd_Hash (bk_Header b)) = Inr (Some b) \<and>
    (\<forall>t \<in> set (bk_Transactions b). cdb_ReadTransaction E C c' (tx_Hash t) = Inr (Some t) \<and>
      cdb_ReadTxBlockNumber E c' (tx_Hash t) = (hd_Number (bk_Header b), True)) \<and>
    (\<forall>r \<in> set (bk_Receipts b). cdb_ReadReceipt E C c' (rc_TxHash r) = Inr (Some r)) \<and>
    cdb_CurrentBlock c' = hd_Number (bk_Header b) \<and> cdb_LatestStateRoot c' = hd_StateRoot (bk_Header b)"
proof -
  have w: "written E C b c c'" using assms by (simp add: written_def)
  show ?thesis
    using ReadBlock_written [OF w] ReadBlockByHash_written [OF w] ReadTransaction_written [OF w]
      ReadReceipt_written [OF w] WriteBlock_ok(2,3) [OF assms(4)]
    by (simp add: cdb_CurrentBlock_def cdb_LatestStateRoot_def)
qed

lemma chaindb_read_after_write_witness:
  "\<exists>c'. cdb_WriteBlock mem_db (example_codec (example_block 3) (example_batch 0))
      (NewChainDB mem_db Map.empty) (example_block 3) = Inr c' \<and>
    cdb_ReadBlock mem_db (example_codec (example_block 3) (example_batch 0)) c' 3 = Inr (Some (example_block 3))"
proof -
  obtain c' where c': "cdb_WriteBlock mem_db (example_codec (example_block 3) (example_batch 0))
      (NewChainDB mem_db Map.empty) (example_block 3) = Inr c'" using example_write by blast
  have "hd_Number (bk_Header (example_block 3)) = 3" by (simp add: example_block_def)
  then show ?thesis
    using c' chaindb_read_after_write [OF mem_db_laws example_codec_laws example_block_wf c'] by auto
qed

text \<open>C31. Writing a block leaves every other block as it was, and every batch whose key it does not
  share; writing a batch leaves every block as it was whose key it does not share.\<close>

theorem chaindb_frame:
  assumes "ethdb_laws E" and "codec_laws C" and "block_wf b" and "cdb_WriteBlock E C c b = Inr c1"
    and "cdb_WriteBatch E C c bt = Inr c2"
  shows "(n \<noteq> hd_Number (bk_Header b) \<longrightarrow> cdb_ReadBlock E C c1 n = cdb_ReadBlock E C c n) \<and>
    (\<not> clash (hd_Number (bk_Header b)) i \<longrightarrow> cdb_ReadBatch E C c1 i = cdb_ReadBatch E C c i) \<and>
    (\<not> clash n (bt_Index bt) \<longrightarrow> cdb_ReadBlock E C c2 n = cdb_ReadBlock E C c n) \<and>
    cdb_ReadBatch E C c2 (bt_Index bt) = Inr (Some bt) \<and> cdb_ReadLatestBatch E C c2 = Inr (Some bt)"
proof -
  have w: "written E C b c c1" using assms by (simp add: written_def)
  note g = WriteBatch_get [OF assms(1,5)]
  have "enc_batch C bt \<noteq> None" using g(2) [of KLatestBatch] by simp
  then obtain x where x: "enc_batch C bt = Some x" "dec_batch C x = Some bt"
    using codec_dec(4) [OF assms(2)] by auto
  show ?thesis
    using ReadBlock_other [OF w] ReadBatch_other [OF w] g(1) [of "KBlock n"] g(1) [of KLatestBatch]
      g(1) [of "KBatch (bt_Index bt)"] x
    by (simp add: cdb_ReadBlock_def cdb_ReadBatch_def cdb_ReadLatestBatch_def)
qed

lemma chaindb_frame_witness:
  "\<exists>c1 c2. cdb_WriteBlock mem_db (example_codec (example_block 3) (example_batch 7))
      (NewChainDB mem_db Map.empty) (example_block 3) = Inr c1 \<and>
    cdb_ReadBlock mem_db (example_codec (example_block 3) (example_batch 7)) c1 4 = Inr None \<and>
    cdb_ReadLatestBatch mem_db (example_codec (example_block 3) (example_batch 7)) c2 = Inr (Some (example_batch 7))"
proof -
  let ?C = "example_codec (example_block 3) (example_batch 7)" and ?c = "NewChainDB mem_db Map.empty"
  obtain c1 where c1: "cdb_WriteBlock mem_db ?C ?c (example_block 3) = Inr c1" using example_write by blast
  obtain c2 where c2: "cdb_WriteBatch mem_db ?C ?c (example_batch 7) = Inr c2"
    by (simp add: cdb_WriteBatch_def example_codec_def only_def mem_db_def Let_def)
  have "cdb_ReadBlock mem_db ?C ?c 4 = Inr None" by (simp add: cdb_ReadBlock_def mem_db_def)
  then show ?thesis
    using c1 chaindb_frame [OF mem_db_laws example_codec_laws example_block_wf c1 c2, of 4 0]
    by (auto simp: example_block_def)
qed

text \<open>The only keys of the database that coincide are those of a block and of a batch: block
  \<open>n\<close> and batch \<open>i\<close> share a key exactly if the bytes of \<open>n\<close> are the letter t and the bytes of
  \<open>i\<close>.\<close>

theorem chaindb_key_clashes:
  assumes "key_ok k" and "key_ok k'"
  shows "key_bytes k = key_bytes k' \<longleftrightarrow> k = k' \<or>
    (\<exists>n i. {k, k'} = {KBlock n, KBatch i} \<and> u64_bytes n = 0x74 # u64_bytes i)"
proof -
  have "keys_clash k k' \<longleftrightarrow> (\<exists>n i. {k, k'} = {KBlock n, KBatch i} \<and> u64_bytes n = 0x74 # u64_bytes i)"
    by (cases k; cases k') (auto simp: clash_def doubleton_eq_iff)
  then show ?thesis using key_bytes_eq [OF assms] by simp
qed

lemma chaindb_key_clashes_witness: "key_bytes (KBlock 1) \<noteq> key_bytes (KTx (replicate 32 0))"
  using chaindb_key_clashes [of "KBlock 1" "KTx (replicate 32 0)"] by (auto simp: doubleton_eq_iff)

text \<open>The clash is reachable: after block 116 and batch 0, or block 29697 and batch 1, reading the
  block decodes the bytes of the batch.\<close>

theorem chaindb_batch_overwrites_block:
  assumes "ethdb_laws E" and "cdb_WriteBatch E C c bt = Inr c'"
    and "(n, bt_Index bt) \<in> {(116, 0), (29697, 1)}"
  shows "cdb_ReadBlock E C c' n = (case dec_block C (the (enc_batch C bt)) of
    None \<Rightarrow> Inl ErrUnmarshalBlock | Some b \<Rightarrow> Inr (Some b))"
proof -
  have "nat_bytes 116 = [0x74]" "nat_bytes 29697 = [0x74, 1]" "nat_bytes 1 = [1]"
    by (simp_all add: nat_bytes_pos)
  then have "clash n (bt_Index bt)" using assms(3) by (auto simp: clash_def u64_bytes_def)
  from WriteBatch_clash [OF assms(1,2) this] show ?thesis
    using WriteBatch_get(2) [OF assms(1,2), of KLatestBatch] by (auto simp: cdb_ReadBlock_def)
qed

lemma chaindb_batch_overwrites_block_witness:
  "\<exists>c'. cdb_WriteBatch mem_db (example_codec (example_block 116) (example_batch 0))
      (NewChainDB mem_db Map.empty) (example_batch 0) = Inr c' \<and>
    cdb_ReadBlock mem_db (example_codec (example_block 116) (example_batch 0)) c' 116 \<noteq> Inr None"
proof -
  let ?C = "example_codec (example_block 116) (example_batch 0)"
  obtain c' where c': "cdb_WriteBatch mem_db ?C (NewChainDB mem_db Map.empty) (example_batch 0) = Inr c'"
    by (simp add: cdb_WriteBatch_def example_codec_def only_def mem_db_def Let_def)
  show ?thesis
    using c' chaindb_batch_overwrites_block [OF mem_db_laws c', of 116]
    by (auto simp: example_batch_def example_codec_def only_def only_dec_def)
qed

text \<open>Recovery: after any sequence of writes from an opened database, opening the stored data again
  gives the same chain database, with the same current block and state root.\<close>

theorem chaindb_reopen:
  assumes "ethdb_laws E" and "codec_laws C" and "db_reach E C c"
  shows "NewChainDB E (cdb_db c) = c"
  using assms by (rule reopen_same)

lemma chaindb_reopen_witness:
  "\<exists>c'. cdb_CurrentBlock c' = 3 \<and> NewChainDB mem_db (cdb_db c') = c'"
proof -
  obtain c' where c': "cdb_WriteBlock mem_db (example_codec (example_block 3) (example_batch 0))
      (NewChainDB mem_db Map.empty) (example_block 3) = Inr c'" using example_write by blast
  have "db_reach mem_db (example_codec (example_block 3) (example_batch 0)) c'"
    by (rule db_reach.Block [OF db_reach.Open example_block_wf c'])
  from chaindb_reopen [OF mem_db_laws example_codec_laws this] show ?thesis
    using WriteBlock_ok(2) [OF c'] by (intro exI [of _ c']) (simp add: cdb_CurrentBlock_def example_block_def)
qed

end
