(* ===== verification/Evm.thy ===== *)
theory Evm
  imports Go_Bytes Pkg_Types
begin

section \<open>Execution of transactions: internal/execution/evm.go\<close>

text \<open>
  \<open>EVMExecutor\<close>: the loop that executes the transactions of a block against a state, the execution
  of one transaction (checks, gas purchase, call, refund, fees, receipt), read-only calls and the
  gas estimate by binary search.

  The state database and the virtual machine are go-ethereum's: the record \<open>evm_lib\<close> holds the
  operations the code calls, on a state of any type \<open>'s\<close>. A state is a value, so reverting to a
  snapshot is going back to the value taken there. \<open>uint64\<close> gas is \<open>u64\<close>, \<open>uint256\<close> amounts are
  words of 256 bits, big integers are \<open>int\<close>.
\<close>

type_synonym u256 = "256 word"

record block_ctx =
  bc_GetHash :: "u64 \<Rightarrow> hash"
  bc_Coinbase :: address
  bc_BlockNumber :: int
  bc_Time :: u64
  bc_GasLimit :: u64
  bc_BaseFee :: int
  bc_BlobBaseFee :: "int option"
  bc_Random :: hash

record tx_ctx =
  tc_Origin :: address
  tc_GasPrice :: int

text \<open>
  What the code calls of go-ethereum. \<open>Call\<close> and \<open>Create\<close> answer the state after the call, the
  returned bytes, the gas left over, and an error of the execution, if any.
\<close>

record 's evm_lib =
  sd_GetNonce :: "'s \<Rightarrow> address \<Rightarrow> u64"
  sd_SetNonce :: "'s \<Rightarrow> address \<Rightarrow> u64 \<Rightarrow> 's"
  sd_GetBalance :: "'s \<Rightarrow> address \<Rightarrow> u256"
  sd_AddBalance :: "'s \<Rightarrow> address \<Rightarrow> u256 \<Rightarrow> 's"
  sd_SubBalance :: "'s \<Rightarrow> address \<Rightarrow> u256 \<Rightarrow> 's"
  sd_SetTxContext :: "'s \<Rightarrow> hash \<Rightarrow> nat \<Rightarrow> 's"
  sd_GetRefund :: "'s \<Rightarrow> u64"
  sd_GetLogs :: "'s \<Rightarrow> hash \<Rightarrow> u64 \<Rightarrow> log_entry list"
  ev_Call :: "block_ctx \<Rightarrow> tx_ctx \<Rightarrow> 's \<Rightarrow> address \<Rightarrow> address \<Rightarrow> bytes \<Rightarrow> u64 \<Rightarrow> u256 \<Rightarrow> 's \<times> bytes \<times> u64 \<times> string option"
  ev_Create :: "block_ctx \<Rightarrow> tx_ctx \<Rightarrow> 's \<Rightarrow> address \<Rightarrow> bytes \<Rightarrow> u64 \<Rightarrow> u256 \<Rightarrow> 's \<times> bytes \<times> u64 \<times> string option"
  ev_Sender :: "tx \<Rightarrow> address option"
  ev_IntrinsicGas :: "tx \<Rightarrow> u64 option"
  ev_CreateAddress :: "address \<Rightarrow> u64 \<Rightarrow> address"
  ev_CreateBloom :: "receipt \<Rightarrow> bytes"
  ev_CalcBlobFee :: int

subsection \<open>One transaction\<close>

datatype exec_error = InvalidSender | NonceMismatch u64 u64 | InsufficientBalance int int
  | IntrinsicGasFailed | IntrinsicGasTooLow u64 u64

record exec_result =
  er_Receipt :: receipt
  er_GasUsed :: u64
  er_VMErr :: "string option"

text \<open>\<open>uint256.FromBig\<close> keeps the low 256 bits.\<close>

definition from_big :: "int \<Rightarrow> u256" where
  "from_big n = word_of_int n"

text \<open>
  The second half of \<open>applyTransaction\<close>, once the call has left over \<open>leftover\<close> gas: the refund,
  the payments and the receipt.
\<close>

definition refund_of :: "u64 \<Rightarrow> u64 \<Rightarrow> u64" where
  "refund_of gasUsed counter =
     (let maxRefund = gasUsed div 2 in if maxRefund < counter then maxRefund else counter)"

definition settle :: "'s evm_lib \<Rightarrow> block_ctx \<Rightarrow> tx \<Rightarrow> address \<Rightarrow> u64 \<Rightarrow> nat \<Rightarrow> 's \<Rightarrow> u64 \<Rightarrow> string option \<Rightarrow>
    's \<times> exec_result" where
  "settle L ctx t sender cumulativeGas txIndex s leftover vmErr =
     (let used = tx_Gas t - leftover;
          refund = refund_of used (sd_GetRefund L s);
          gasUsed = used - refund;
          s1 = sd_AddBalance L s sender (from_big (int (unat (leftover + refund)) * tx_GasPrice t));
          s2 = sd_AddBalance L s1 (bc_Coinbase ctx) (from_big (int (unat gasUsed) * tx_GasPrice t));
          rc = \<lparr>rc_Type = tx_Type t, rc_TxHash = tx_Hash t,
                rc_Status = (if vmErr = None then 1 else 0), rc_GasUsed = gasUsed,
                rc_CumulativeGasUsed = cumulativeGas + gasUsed, rc_BlockHash = zero_hash,
                rc_BlockNumber = bc_BlockNumber ctx, rc_TransactionIndex = txIndex,
                rc_ContractAddress = (if tx_To t = None then ev_CreateAddress L sender (tx_Nonce t) else zero_address),
                rc_Logs = sd_GetLogs L s2 (tx_Hash t) (word_of_int (bc_BlockNumber ctx)), rc_Bloom = []\<rparr>
      in (s2, \<lparr>er_Receipt = rc\<lparr>rc_Bloom := ev_CreateBloom L rc\<rparr>, er_GasUsed = gasUsed, er_VMErr = vmErr\<rparr>))"

definition applyTransaction :: "'s evm_lib \<Rightarrow> 's \<Rightarrow> tx \<Rightarrow> block_ctx \<Rightarrow> u64 \<Rightarrow> nat \<Rightarrow> 's \<times> (exec_error + exec_result)" where
  "applyTransaction L s t ctx cumulativeGas txIndex =
     (case ev_Sender L t of
        None \<Rightarrow> (s, Inl InvalidSender)
      | Some sender \<Rightarrow>
        let stateNonce = sd_GetNonce L s sender in
        if tx_Nonce t \<noteq> stateNonce then (s, Inl (NonceMismatch (tx_Nonce t) stateNonce))
        else
          let gasCost = int (unat (tx_Gas t)) * tx_GasPrice t;
              totalCost = gasCost + tx_Value t;
              balance = uint (sd_GetBalance L s sender) in
          if balance < totalCost then (s, Inl (InsufficientBalance balance totalCost))
          else
            let txCtx = \<lparr>tc_Origin = sender, tc_GasPrice = tx_GasPrice t\<rparr>;
                s1 = sd_SetTxContext L s (tx_Hash t) txIndex;
                s2 = sd_SubBalance L s1 sender (from_big gasCost);
                s3 = (if tx_To t \<noteq> None then sd_SetNonce L s2 sender (stateNonce + 1) else s2) in
            (case ev_IntrinsicGas L t of
               None \<Rightarrow> (s3, Inl IntrinsicGasFailed)
             | Some intrinsicGas \<Rightarrow>
               if tx_Gas t < intrinsicGas then (s3, Inl (IntrinsicGasTooLow (tx_Gas t) intrinsicGas))
               else
                 let gas = tx_Gas t - intrinsicGas; value = from_big (tx_Value t) in
                 (case (case tx_To t of
                          None \<Rightarrow> ev_Create L ctx txCtx s3 sender (tx_Data t) gas value
                        | Some to \<Rightarrow> ev_Call L ctx txCtx s3 sender to (tx_Data t) gas value) of
                    (s4, outp, leftover, vmErr) \<Rightarrow>
                      (case settle L ctx t sender cumulativeGas txIndex s4 leftover vmErr of
                         (s5, result) \<Rightarrow> (s5, Inr result)))))"

subsection \<open>The transactions of a block\<close>

record exec_ctx =
  ec_BlockNumber :: int
  ec_Timestamp :: u64
  ec_Coinbase :: address
  ec_GasLimit :: u64
  ec_BaseFee :: int
  ec_ParentHash :: hash

definition getHashFunc :: "hash \<Rightarrow> u64 \<Rightarrow> u64 \<Rightarrow> hash" where
  "getHashFunc parentHash blockNum n = (if n = blockNum - 1 then parentHash else zero_hash)"

definition exec_block_ctx :: "'s evm_lib \<Rightarrow> exec_ctx \<Rightarrow> block_ctx" where
  "exec_block_ctx L ctx = \<lparr>bc_GetHash = getHashFunc (ec_ParentHash ctx) (word_of_int (ec_BlockNumber ctx)),
     bc_Coinbase = ec_Coinbase ctx, bc_BlockNumber = ec_BlockNumber ctx, bc_Time = ec_Timestamp ctx,
     bc_GasLimit = ec_GasLimit ctx, bc_BaseFee = ec_BaseFee ctx, bc_BlobBaseFee = Some (ev_CalcBlobFee L),
     bc_Random = zero_hash\<rparr>"

text \<open>The loop; its state is the state database, the results, the skipped and the cumulative gas.\<close>

fun exec_loop :: "'s evm_lib \<Rightarrow> block_ctx \<Rightarrow> nat \<Rightarrow> tx list \<Rightarrow>
    's \<times> exec_result list \<times> tx list \<times> u64 \<Rightarrow> 's \<times> exec_result list \<times> tx list \<times> u64" where
  "exec_loop L bctx i [] st = st"
| "exec_loop L bctx i (t # ts) (s, executed, skipped, cumulativeGas) =
     (if bc_GasLimit bctx < cumulativeGas + tx_Gas t then
        exec_loop L bctx (Suc i) ts (s, executed, skipped @ [t], cumulativeGas)
      else
        (case applyTransaction L s t bctx cumulativeGas i of
           (s', Inl err) \<Rightarrow> exec_loop L bctx (Suc i) ts (s, executed, skipped @ [t], cumulativeGas)
         | (s', Inr result) \<Rightarrow>
             let cumulativeGas' = cumulativeGas + er_GasUsed result;
                 result' = result\<lparr>er_Receipt := (er_Receipt result)\<lparr>rc_CumulativeGasUsed := cumulativeGas'\<rparr>\<rparr>
             in exec_loop L bctx (Suc i) ts (s', executed @ [result'], skipped, cumulativeGas')))"

definition ExecuteTransactions :: "'s evm_lib \<Rightarrow> 's \<Rightarrow> tx list \<Rightarrow> exec_ctx \<Rightarrow>
    's \<times> exec_result list \<times> tx list \<times> u64" where
  "ExecuteTransactions L s txs ctx = exec_loop L (exec_block_ctx L ctx) 0 txs (s, [], [], 0)"

subsection \<open>Read-only calls and the gas estimate\<close>

record message =
  ms_From :: address
  ms_To :: "address option"
  ms_Data :: bytes
  ms_GasLimit :: u64
  ms_GasPrice :: int
  ms_Value :: "int option"

text \<open>The result: the state after the call, the returned bytes, the gas used and the error.\<close>

definition ev_CallContract :: "'s evm_lib \<Rightarrow> 's \<Rightarrow> message \<Rightarrow> block_ctx \<Rightarrow> 's \<times> bytes \<times> u64 \<times> string option" where
  "ev_CallContract L s msg bctx =
     (let txCtx = \<lparr>tc_Origin = ms_From msg, tc_GasPrice = ms_GasPrice msg\<rparr>;
          gas = (if ms_GasLimit msg = 0 then (- 1) div 2 else ms_GasLimit msg);
          value = (case ms_Value msg of None \<Rightarrow> 0 | Some v \<Rightarrow> from_big v) in
      (case (case ms_To msg of
               None \<Rightarrow> ev_Create L bctx txCtx s (ms_From msg) (ms_Data msg) gas value
             | Some to \<Rightarrow> ev_Call L bctx txCtx s (ms_From msg) to (ms_Data msg) gas value) of
         (s', result, leftover, err) \<Rightarrow> (s', result, gas - leftover, err)))"

text \<open>Whether the call succeeds with this gas limit; each probe starts from the same state.\<close>

definition probe :: "'s evm_lib \<Rightarrow> 's \<Rightarrow> message \<Rightarrow> block_ctx \<Rightarrow> u64 \<Rightarrow> bool" where
  "probe L s msg bctx gas = (case ev_CallContract L s (msg\<lparr>ms_GasLimit := gas\<rparr>) bctx of
     (_, _, _, err) \<Rightarrow> err = None)"

text \<open>The search; on \<open>uint64\<close> it could run forever, so not returning is \<open>None\<close>.\<close>

partial_function (option) estimate_loop :: "(u64 \<Rightarrow> bool) \<Rightarrow> u64 \<Rightarrow> u64 \<Rightarrow> u64 option" where
  "estimate_loop succeeds lo hi =
     (if lo + 1 < hi then
        (let mid = (lo + hi) div 2 in
         if \<not> succeeds mid then estimate_loop succeeds mid hi else estimate_loop succeeds lo mid)
      else Some hi)"

definition ev_EstimateGas :: "'s evm_lib \<Rightarrow> 's \<Rightarrow> message \<Rightarrow> block_ctx \<Rightarrow> u64 option" where
  "ev_EstimateGas L s msg bctx =
     (let lo = (if ms_To msg = None then 53000 else 21000); hi = bc_GasLimit bctx in
      (case ev_CallContract L s (msg\<lparr>ms_GasLimit := hi\<rparr>) bctx of
         (_, _, gasUsedAtMax, errMax) \<Rightarrow>
           if errMax \<noteq> None then
             (if 0 < gasUsedAtMax then
                (let estimate = gasUsedAtMax * 120 div 100 in Some (if hi < estimate then hi else estimate))
              else if ms_To msg = None then Some 3000000 else Some 100000)
           else estimate_loop (probe L s msg bctx) lo hi))"

subsection \<open>Gas\<close>

text \<open>The machine never returns more gas than it was given.\<close>

definition evm_gas_law :: "'s evm_lib \<Rightarrow> bool" where
  "evm_gas_law L \<longleftrightarrow>
     (\<forall>c x s a b d g v s' o' l e. ev_Call L c x s a b d g v = (s', o', l, e) \<longrightarrow> l \<le> g) \<and>
     (\<forall>c x s a d g v s' o' l e. ev_Create L c x s a d g v = (s', o', l, e) \<longrightarrow> l \<le> g)"

lemma refund_of_le: "unat (refund_of used counter) \<le> unat used div 2"
proof -
  have "unat (used div 2) = unat used div 2" by (simp add: unat_div)
  then show ?thesis by (auto simp: refund_of_def Let_def not_less word_le_nat_alt)
qed

lemma settle_parts:
  assumes "leftover \<le> tx_Gas t" and "settle L ctx t sender cum i s leftover vmErr = (s', r)"
  shows "unat (er_GasUsed r) = unat (tx_Gas t) - unat leftover
      - unat (refund_of (tx_Gas t - leftover) (sd_GetRefund L s))"
    and "unat (leftover + refund_of (tx_Gas t - leftover) (sd_GetRefund L s)) + unat (er_GasUsed r) = unat (tx_Gas t)"
    and "rc_TxHash (er_Receipt r) = tx_Hash t" and "rc_GasUsed (er_Receipt r) = er_GasUsed r"
    and "rc_Status (er_Receipt r) = (if vmErr = None then 1 else 0)"
proof -
  let ?used = "tx_Gas t - leftover" and ?ref = "refund_of (tx_Gas t - leftover) (sd_GetRefund L s)"
  have used: "unat ?used = unat (tx_Gas t) - unat leftover" using assms(1) by (rule unat_sub_no_wrap)
  have le: "unat leftover \<le> unat (tx_Gas t)" using assms(1) by (simp add: u64_le_nat)
  have ref: "unat ?ref \<le> unat ?used" using refund_of_le [of ?used "sd_GetRefund L s"] by linarith
  have gas: "er_GasUsed r = ?used - ?ref" using assms(2) by (auto simp: settle_def Let_def)
  have "unat (?used - ?ref) = unat ?used - unat ?ref" using ref by (intro unat_sub_no_wrap) (simp add: u64_le_nat)
  then show g: "unat (er_GasUsed r) = unat (tx_Gas t) - unat leftover - unat ?ref" using gas used by simp
  have "unat (leftover + ?ref) = unat leftover + unat ?ref"
    using used le ref unat_u64_bound [of "tx_Gas t"] by (intro unat_add_no_wrap) linarith
  then show "unat (leftover + ?ref) + unat (er_GasUsed r) = unat (tx_Gas t)" using g used le ref by linarith
  show "rc_TxHash (er_Receipt r) = tx_Hash t" "rc_GasUsed (er_Receipt r) = er_GasUsed r"
    "rc_Status (er_Receipt r) = (if vmErr = None then 1 else 0)"
    using assms(2) by (auto simp: settle_def Let_def)
qed

text \<open>A transaction that is executed: the states before and after the machine ran.\<close>

definition prepared :: "'s evm_lib \<Rightarrow> 's \<Rightarrow> tx \<Rightarrow> nat \<Rightarrow> address \<Rightarrow> 's" where
  "prepared L s t i sender =
     (let s2 = sd_SubBalance L (sd_SetTxContext L s (tx_Hash t) i) sender
        (from_big (int (unat (tx_Gas t)) * tx_GasPrice t)) in
      if tx_To t \<noteq> None then sd_SetNonce L s2 sender (sd_GetNonce L s sender + 1) else s2)"

definition run_evm :: "'s evm_lib \<Rightarrow> block_ctx \<Rightarrow> tx \<Rightarrow> address \<Rightarrow> 's \<Rightarrow> u64 \<Rightarrow> 's \<times> bytes \<times> u64 \<times> string option" where
  "run_evm L ctx t sender s gas =
     (let txCtx = \<lparr>tc_Origin = sender, tc_GasPrice = tx_GasPrice t\<rparr>; value = from_big (tx_Value t) in
      case tx_To t of None \<Rightarrow> ev_Create L ctx txCtx s sender (tx_Data t) gas value
      | Some to \<Rightarrow> ev_Call L ctx txCtx s sender to (tx_Data t) gas value)"

lemma applyTransaction_ok:
  assumes "applyTransaction L s t ctx cum i = (s', Inr r)"
  obtains sender intrinsicGas s4 outp leftover vmErr
  where "ev_Sender L t = Some sender" and "tx_Nonce t = sd_GetNonce L s sender"
    and "int (unat (tx_Gas t)) * tx_GasPrice t + tx_Value t \<le> uint (sd_GetBalance L s sender)"
    and "ev_IntrinsicGas L t = Some intrinsicGas" and "intrinsicGas \<le> tx_Gas t"
    and "run_evm L ctx t sender (prepared L s t i sender) (tx_Gas t - intrinsicGas) = (s4, outp, leftover, vmErr)"
    and "settle L ctx t sender cum i s4 leftover vmErr = (s', r)"
proof -
  obtain sender where sender: "ev_Sender L t = Some sender"
    using assms by (cases "ev_Sender L t") (simp_all add: applyTransaction_def)
  have nonce: "tx_Nonce t = sd_GetNonce L s sender"
    using assms sender by (simp add: applyTransaction_def Let_def split: if_splits)
  have bal: "\<not> uint (sd_GetBalance L s sender) < int (unat (tx_Gas t)) * tx_GasPrice t + tx_Value t"
    using assms sender nonce by (simp add: applyTransaction_def Let_def split: if_splits)
  obtain ig where ig: "ev_IntrinsicGas L t = Some ig"
    using assms sender nonce bal by (cases "ev_IntrinsicGas L t") (simp_all add: applyTransaction_def Let_def)
  have gas: "\<not> tx_Gas t < ig"
    using assms sender nonce bal ig by (simp add: applyTransaction_def Let_def split: if_splits)
  obtain s4 outp leftover vmErr where
    run: "run_evm L ctx t sender (prepared L s t i sender) (tx_Gas t - ig) = (s4, outp, leftover, vmErr)"
    by (metis prod_cases4)
  obtain s5 r' where st: "settle L ctx t sender cum i s4 leftover vmErr = (s5, r')" by fastforce
  have "applyTransaction L s t ctx cum i = (s5, Inr r')"
    using sender nonce bal ig gas run [unfolded run_evm_def prepared_def Let_def] st
    unfolding applyTransaction_def Let_def by simp
  then have "settle L ctx t sender cum i s4 leftover vmErr = (s', r)" using assms st by simp
  then show ?thesis using sender nonce bal ig gas run by (intro that) auto
qed

lemma run_evm_gas:
  assumes "evm_gas_law L" and "run_evm L ctx t sender s gas = (s', outp, leftover, vmErr)"
  shows "leftover \<le> gas"
proof -
  have "ev_Call L c x s a b d g v = (s', o', l, e) \<Longrightarrow> l \<le> g" for c x s a b d g v s' o' l e
    using conjunct1 [OF assms(1) [unfolded evm_gas_law_def]] by blast
  moreover have "ev_Create L c x s a d g v = (s', o', l, e) \<Longrightarrow> l \<le> g" for c x s a d g v s' o' l e
    using conjunct2 [OF assms(1) [unfolded evm_gas_law_def]] by blast
  ultimately show ?thesis
    using assms(2) unfolding run_evm_def Let_def by (cases "tx_To t") simp_all
qed

lemma applyTransaction_gas:
  assumes "evm_gas_law L" and "applyTransaction L s t ctx cum i = (s', Inr r)"
  shows "unat (er_GasUsed r) \<le> unat (tx_Gas t)" and "rc_TxHash (er_Receipt r) = tx_Hash t"
    and "rc_GasUsed (er_Receipt r) = er_GasUsed r"
proof -
  obtain sender ig s4 outp leftover vmErr
    where a: "ig \<le> tx_Gas t"
      "run_evm L ctx t sender (prepared L s t i sender) (tx_Gas t - ig) = (s4, outp, leftover, vmErr)"
      "settle L ctx t sender cum i s4 leftover vmErr = (s', r)"
    using assms(2) by (rule applyTransaction_ok)
  have "leftover \<le> tx_Gas t - ig" using run_evm_gas [OF assms(1) a(2)] .
  then have "leftover \<le> tx_Gas t" using a(1) by (simp add: u64_le_nat unat_sub_no_wrap)
  from settle_parts [OF this a(3)]
  show "unat (er_GasUsed r) \<le> unat (tx_Gas t)" "rc_TxHash (er_Receipt r) = tx_Hash t"
    "rc_GasUsed (er_Receipt r) = er_GasUsed r" by simp_all
qed

subsection \<open>The loop\<close>

text \<open>The transactions at the places marked true.\<close>

fun select :: "bool list \<Rightarrow> 'a list \<Rightarrow> 'a list" where
  "select (b # bs) (x # xs) = (if b then x # select bs xs else select bs xs)"
| "select _ _ = []"

text \<open>Each receipt has the gas used, and as cumulative gas the sum so far.\<close>

fun running :: "u64 \<Rightarrow> exec_result list \<Rightarrow> bool" where
  "running c [] = True"
| "running c (r # rs) = (rc_GasUsed (er_Receipt r) = er_GasUsed r \<and>
     rc_CumulativeGasUsed (er_Receipt r) = c + er_GasUsed r \<and> running (c + er_GasUsed r) rs)"

lemma running_gas: "running c rs \<Longrightarrow> r \<in> set rs \<Longrightarrow> rc_GasUsed (er_Receipt r) = er_GasUsed r"
  by (induction c rs rule: running.induct) auto

definition loop_ok :: "'s evm_lib \<Rightarrow> block_ctx \<Rightarrow> tx list \<Rightarrow> u64 \<Rightarrow>
    exec_result list \<Rightarrow> tx list \<Rightarrow> u64 \<Rightarrow> bool" where
  "loop_ok L bctx ts cum new skipped cum' \<longleftrightarrow>
     (\<exists>marks. length marks = length ts \<and> map (\<lambda>r. rc_TxHash (er_Receipt r)) new = map tx_Hash (select marks ts) \<and>
        skipped = select (map Not marks) ts) \<and>
     running cum new \<and> unat cum' = unat cum + sum_list (map (\<lambda>r. unat (er_GasUsed r)) new) \<and>
     unat cum' \<le> unat (bc_GasLimit bctx)"

lemma loop_ok_skip:
  assumes "loop_ok L bctx ts cum new skipped cum'"
  shows "loop_ok L bctx (t # ts) cum new (t # skipped) cum'"
proof -
  obtain marks where "length marks = length ts" "map (\<lambda>r. rc_TxHash (er_Receipt r)) new = map tx_Hash (select marks ts)"
      "skipped = select (map Not marks) ts"
    using assms by (auto simp: loop_ok_def)
  then have "\<exists>marks. length marks = length (t # ts) \<and>
      map (\<lambda>r. rc_TxHash (er_Receipt r)) new = map tx_Hash (select marks (t # ts)) \<and>
      t # skipped = select (map Not marks) (t # ts)"
    by (intro exI [of _ "False # marks"]) simp
  with assms show ?thesis by (simp add: loop_ok_def)
qed

lemma loop_ok_take:
  assumes "loop_ok L bctx ts (cum + er_GasUsed r) new skipped cum'" and "rc_TxHash (er_Receipt r) = tx_Hash t"
    and "rc_GasUsed (er_Receipt r) = er_GasUsed r" and "rc_CumulativeGasUsed (er_Receipt r) = cum + er_GasUsed r"
    and "unat (cum + er_GasUsed r) = unat cum + unat (er_GasUsed r)"
  shows "loop_ok L bctx (t # ts) cum (r # new) skipped cum'"
proof -
  obtain marks where "length marks = length ts" "map (\<lambda>r. rc_TxHash (er_Receipt r)) new = map tx_Hash (select marks ts)"
      "skipped = select (map Not marks) ts"
    using assms by (auto simp: loop_ok_def)
  then have "\<exists>marks. length marks = length (t # ts) \<and>
      map (\<lambda>r. rc_TxHash (er_Receipt r)) (r # new) = map tx_Hash (select marks (t # ts)) \<and>
      skipped = select (map Not marks) (t # ts)"
    using assms(2) by (intro exI [of _ "True # marks"]) simp
  with assms show ?thesis by (simp add: loop_ok_def)
qed

lemma exec_loop_ok:
  assumes "evm_gas_law L" and "\<forall>t \<in> set ts. unat (bc_GasLimit bctx) + unat (tx_Gas t) < 2 ^ 64"
    and "unat cum \<le> unat (bc_GasLimit bctx)"
    and "exec_loop L bctx i ts (s, executed, skipped, cum) = (s', executed', skipped', cum')"
  shows "\<exists>new sk. executed' = executed @ new \<and> skipped' = skipped @ sk \<and> loop_ok L bctx ts cum new sk cum'"
  using assms(2-4)
proof (induction ts arbitrary: i s executed skipped cum)
  case Nil
  then show ?case by (simp add: loop_ok_def)
next
  case (Cons t ts)
  have fit: "\<forall>t \<in> set ts. unat (bc_GasLimit bctx) + unat (tx_Gas t) < 2 ^ 64" using Cons.prems(1) by simp
  have add: "unat (cum + tx_Gas t) = unat cum + unat (tx_Gas t)"
    using Cons.prems(1,2) by (intro unat_add_no_wrap) auto
  have skip: ?case if "exec_loop L bctx (Suc i) ts (s, executed, skipped @ [t], cum) = (s', executed', skipped', cum')"
    using Cons.IH [OF fit Cons.prems(2) that] loop_ok_skip [of L bctx ts cum _ _ cum' t] by fastforce
  show ?case
  proof (cases "bc_GasLimit bctx < cum + tx_Gas t")
    case True
    then show ?thesis using skip Cons.prems(3) by simp
  next
    case False
    obtain s1 res where ap: "applyTransaction L s t bctx cum i = (s1, res)" by fastforce
    show ?thesis
    proof (cases res)
      case (Inl err)
      then show ?thesis using False ap skip Cons.prems(3) by simp
    next
      case (Inr r)
      let ?cum = "cum + er_GasUsed r"
      let ?r = "r\<lparr>er_Receipt := (er_Receipt r)\<lparr>rc_CumulativeGasUsed := ?cum\<rparr>\<rparr>"
      note g = applyTransaction_gas [OF assms(1) ap [unfolded Inr]]
      have fits: "unat cum + unat (tx_Gas t) \<le> unat (bc_GasLimit bctx)"
        using False add by (simp add: not_less u64_le_nat)
      have addr: "unat ?cum = unat cum + unat (er_GasUsed r)"
        using g(1) fits unat_u64_bound [of "bc_GasLimit bctx"] by (intro unat_add_no_wrap) linarith
      have "exec_loop L bctx (Suc i) ts (s1, executed @ [?r], skipped, ?cum) = (s', executed', skipped', cum')"
        using Cons.prems(3) False ap Inr by (simp add: Let_def)
      moreover have "unat ?cum \<le> unat (bc_GasLimit bctx)" using addr g(1) fits by linarith
      ultimately obtain new sk where ih: "executed' = (executed @ [?r]) @ new" "skipped' = skipped @ sk"
          "loop_ok L bctx ts ?cum new sk cum'"
        using Cons.IH [OF fit] by blast
      have "loop_ok L bctx (t # ts) cum (?r # new) sk cum'"
        using loop_ok_take [of L bctx ts cum ?r] ih(3) g addr by simp
      then show ?thesis using ih(1,2) by (intro exI [of _ "?r # new"] exI [of _ sk]) simp
    qed
  qed
qed

lemma ExecuteTransactions_ok:
  assumes "evm_gas_law L" and "\<forall>t \<in> set txs. unat (ec_GasLimit ctx) + unat (tx_Gas t) < 2 ^ 64"
    and "ExecuteTransactions L s txs ctx = (s', executed, skipped, cumulativeGas)"
  shows "(\<exists>marks. length marks = length txs \<and>
      map (\<lambda>r. rc_TxHash (er_Receipt r)) executed = map tx_Hash (select marks txs) \<and>
      skipped = select (map Not marks) txs) \<and>
    running 0 executed \<and> unat cumulativeGas = sum_list (map (\<lambda>r. unat (er_GasUsed r)) executed) \<and>
    unat cumulativeGas \<le> unat (ec_GasLimit ctx)"
proof -
  have lim: "bc_GasLimit (exec_block_ctx L ctx) = ec_GasLimit ctx" by (simp add: exec_block_ctx_def)
  obtain new sk where n: "executed = [] @ new" "skipped = [] @ sk"
      "loop_ok L (exec_block_ctx L ctx) txs 0 new sk cumulativeGas"
    using exec_loop_ok [OF assms(1), of txs "exec_block_ctx L ctx" 0 0 s "[]" "[]"] assms(2,3) lim
    by (auto simp: ExecuteTransactions_def)
  then show ?thesis using lim by (simp add: loop_ok_def)
qed

subsection \<open>Fees\<close>

text \<open>
  Laws of the ledger, for a measure \<open>supply\<close> of the money in a state: a balance is part of it, adding
  and subtracting change it by the amount, and the rest of the operations, calls included, move
  money but keep it.
\<close>

definition supply_laws :: "'s evm_lib \<Rightarrow> ('s \<Rightarrow> int) \<Rightarrow> bool" where
  "supply_laws L supply \<longleftrightarrow>
     (\<forall>s a. uint (sd_GetBalance L s a) \<le> supply s) \<and>
     (\<forall>s a v. supply s + uint v < 2 ^ 256 \<longrightarrow> supply (sd_AddBalance L s a v) = supply s + uint v) \<and>
     (\<forall>s a v. uint v \<le> uint (sd_GetBalance L s a) \<longrightarrow> supply (sd_SubBalance L s a v) = supply s - uint v) \<and>
     (\<forall>s h i. supply (sd_SetTxContext L s h i) = supply s) \<and>
     (\<forall>s h i a. sd_GetBalance L (sd_SetTxContext L s h i) a = sd_GetBalance L s a) \<and>
     (\<forall>s a n. supply (sd_SetNonce L s a n) = supply s) \<and>
     (\<forall>c x s a b d g v. supply (fst (ev_Call L c x s a b d g v)) = supply s) \<and>
     (\<forall>c x s a d g v. supply (fst (ev_Create L c x s a d g v)) = supply s)"

lemma from_big_exact: "0 \<le> n \<Longrightarrow> n < 2 ^ 256 \<Longrightarrow> uint (from_big n) = n"
  by (simp add: from_big_def uint_word_of_int)

lemma run_evm_supply:
  assumes "supply_laws L supply"
  shows "supply (fst (run_evm L ctx t sender s gas)) = supply s"
  using assms unfolding run_evm_def Let_def supply_laws_def by (cases "tx_To t") simp_all

lemma settle_supply:
  assumes laws: "supply_laws L supply" and left: "leftover \<le> tx_Gas t" and price: "0 \<le> tx_GasPrice t"
    and room: "supply s + int (unat (tx_Gas t)) * tx_GasPrice t < 2 ^ 256" and pos: "0 \<le> supply s"
    and st: "settle L ctx t sender cum i s leftover vmErr = (s', r)"
  shows "supply s' = supply s + int (unat (tx_Gas t)) * tx_GasPrice t"
proof -
  let ?ref = "refund_of (tx_Gas t - leftover) (sd_GetRefund L s)"
  let ?R = "int (unat (leftover + ?ref)) * tx_GasPrice t" and ?M = "int (unat (er_GasUsed r)) * tx_GasPrice t"
  let ?s1 = "sd_AddBalance L s sender (from_big ?R)"
  have s': "s' = sd_AddBalance L ?s1 (bc_Coinbase ctx) (from_big ?M)"
    using st by (auto simp: settle_def Let_def)
  have "int (unat (leftover + ?ref)) + int (unat (er_GasUsed r)) = int (unat (tx_Gas t))"
    using settle_parts(2) [OF left st] by linarith
  then have sum: "?R + ?M = int (unat (tx_Gas t)) * tx_GasPrice t" by (simp flip: distrib_right)
  have nn: "0 \<le> ?R" "0 \<le> ?M" using price by simp_all
  have add: "supply s + uint v < 2 ^ 256 \<Longrightarrow> supply (sd_AddBalance L s a v) = supply s + uint v" for s a v
    using laws by (simp add: supply_laws_def)
  have R: "uint (from_big ?R) = ?R" using nn sum room pos by (intro from_big_exact) linarith+
  have M: "uint (from_big ?M) = ?M" using nn sum room pos by (intro from_big_exact) linarith+
  have "supply s + uint (from_big ?R) < 2 ^ 256" unfolding R using sum room nn by linarith
  from add [OF this] have s1: "supply ?s1 = supply s + ?R" unfolding R .
  have "supply ?s1 + uint (from_big ?M) < 2 ^ 256" unfolding M s1 using sum room by linarith
  from add [OF this] have "supply s' = supply s + ?R + ?M" unfolding s' M s1 .
  then show ?thesis using sum by (metis add.assoc)
qed

lemma applyTransaction_supply:
  assumes laws: "supply_laws L supply" and gas: "evm_gas_law L" and bound: "supply s < 2 ^ 256"
    and price: "0 \<le> tx_GasPrice t" and vpos: "0 \<le> tx_Value t"
    and ap: "applyTransaction L s t ctx cum i = (s', Inr r)"
  shows "supply s' = supply s"
proof -
  obtain sender ig s4 outp leftover vmErr
    where a: "int (unat (tx_Gas t)) * tx_GasPrice t + tx_Value t \<le> uint (sd_GetBalance L s sender)"
      "ig \<le> tx_Gas t"
      "run_evm L ctx t sender (prepared L s t i sender) (tx_Gas t - ig) = (s4, outp, leftover, vmErr)"
      "settle L ctx t sender cum i s4 leftover vmErr = (s', r)"
    using ap by (rule applyTransaction_ok)
  let ?G = "int (unat (tx_Gas t)) * tx_GasPrice t"
  have bal: "uint (sd_GetBalance L s sender) \<le> supply s" using laws by (simp add: supply_laws_def)
  have G: "0 \<le> ?G" "?G \<le> uint (sd_GetBalance L s sender)" using price vpos a(1) by auto
  then have "uint (from_big ?G) = ?G" using bal bound by (intro from_big_exact) auto
  then have prep: "supply (prepared L s t i sender) = supply s - ?G"
    using laws G(2) by (simp add: supply_laws_def prepared_def Let_def)
  have s4: "supply s4 = supply s - ?G" using run_evm_supply [OF laws, of ctx t sender] a(3) prep by (metis fst_conv)
  have left: "leftover \<le> tx_Gas t"
    using run_evm_gas [OF gas a(3)] a(2) by (simp add: u64_le_nat unat_sub_no_wrap)
  have "0 \<le> supply s4" using s4 G bal by linarith
  then show ?thesis using settle_supply [OF laws left price _ _ a(4)] s4 bound by simp
qed

lemma exec_loop_supply:
  assumes laws: "supply_laws L supply" and gas: "evm_gas_law L"
    and "\<forall>t \<in> set ts. 0 \<le> tx_GasPrice t \<and> 0 \<le> tx_Value t" and "supply s < 2 ^ 256"
    and "exec_loop L bctx i ts (s, executed, skipped, cum) = (s', executed', skipped', cum')"
  shows "supply s' = supply s"
  using assms(3-5)
proof (induction ts arbitrary: i s executed skipped cum)
  case (Cons t ts)
  have pos: "\<forall>t \<in> set ts. 0 \<le> tx_GasPrice t \<and> 0 \<le> tx_Value t" using Cons.prems(1) by simp
  obtain s1 res where ap: "applyTransaction L s t bctx cum i = (s1, res)" by fastforce
  show ?case
  proof (cases "bc_GasLimit bctx < cum + tx_Gas t \<or> (\<exists>e. res = Inl e)")
    case True
    then have "exec_loop L bctx (Suc i) ts (s, executed, skipped @ [t], cum) = (s', executed', skipped', cum')"
      using Cons.prems(3) ap by (cases "bc_GasLimit bctx < cum + tx_Gas t") auto
    then show ?thesis using Cons.IH [OF pos Cons.prems(2)] by blast
  next
    case False
    then obtain r where r: "res = Inr r" by (cases res) auto
    have s1: "supply s1 = supply s"
      using applyTransaction_supply [OF laws gas Cons.prems(2) _ _ ap [unfolded r]] Cons.prems(1) by simp
    let ?cum = "cum + er_GasUsed r"
    have "exec_loop L bctx (Suc i) ts (s1, executed @ [r\<lparr>er_Receipt := (er_Receipt r)\<lparr>rc_CumulativeGasUsed
        := ?cum\<rparr>\<rparr>], skipped, ?cum) = (s', executed', skipped', cum')"
      using Cons.prems(3) ap r False by (simp add: Let_def)
    from Cons.IH [OF pos _ this] s1 Cons.prems(2) show ?thesis by simp
  qed
qed simp

subsection \<open>The search for the gas estimate\<close>

lemma mid_bounds:
  fixes lo hi :: u64
  assumes "lo + 1 < hi" and "unat lo + unat hi < 2 ^ 64"
  shows "lo < (lo + hi) div 2" and "(lo + hi) div 2 < hi"
    and "unat ((lo + hi) div 2) = (unat lo + unat hi) div 2"
proof -
  have "unat (lo + hi) = unat lo + unat hi" using assms(2) by (rule unat_add_no_wrap)
  then show m: "unat ((lo + hi) div 2) = (unat lo + unat hi) div 2" by (simp add: unat_div)
  have "unat lo + 1 < unat hi"
  proof (cases "unat lo + unat (1 :: u64) < 2 ^ 64")
    case True
    then have "unat (lo + 1) = unat lo + 1" by (subst unat_add_no_wrap) simp_all
    then show ?thesis using assms(1) by (simp add: u64_less_nat)
  next
    case False
    then have "unat hi = 0" using assms(2) by simp
    then show ?thesis using assms(1) by (simp add: u64_less_nat)
  qed
  then show "lo < (lo + hi) div 2" "(lo + hi) div 2 < hi" using m by (auto simp: u64_less_nat)
qed

lemma estimate_loop_spec:
  assumes "lo < hi" and "unat hi < 2 ^ 63" and "succeeds hi"
  shows "\<exists>r lo'. estimate_loop succeeds lo hi = Some r \<and> lo < r \<and> r \<le> hi \<and> succeeds r \<and>
    unat r = unat lo' + 1 \<and> (lo' = lo \<or> \<not> succeeds lo')"
  using assms
proof (induction "unat hi - unat lo" arbitrary: lo hi rule: less_induct)
  case less
  have lo: "unat lo < unat hi" using less.prems(1) by (simp add: u64_less_nat)
  have sum: "unat lo + unat hi < 2 ^ 64" using lo less.prems(2) by simp
  have suc: "unat (lo + 1) = unat lo + 1" using lo less.prems(2) by (subst unat_add_no_wrap) simp_all
  show ?case
  proof (cases "lo + 1 < hi")
    case True
    let ?m = "(lo + hi) div 2"
    note m = mid_bounds [OF True sum]
    have mn: "unat lo < unat ?m" "unat ?m < unat hi" using m(1,2) by (simp_all add: u64_less_nat)
    show ?thesis
    proof (cases "succeeds ?m")
      case False
      have e: "estimate_loop succeeds lo hi = estimate_loop succeeds ?m hi"
        using True False by (subst estimate_loop.simps) (simp add: Let_def)
      have "unat hi - unat ?m < unat hi - unat lo" using mn by linarith
      from less.hyps [OF this m(2) less.prems(2,3)] obtain r lo' where
        r: "estimate_loop succeeds ?m hi = Some r" "?m < r" "r \<le> hi" "succeeds r" "unat r = unat lo' + 1"
          "lo' = ?m \<or> \<not> succeeds lo'" by blast
      moreover have "lo < r" using r(2) m(1) by simp
      moreover have "\<not> succeeds lo'" using r(6) False by auto
      ultimately show ?thesis using e by (intro exI [of _ r] exI [of _ lo']) simp
    next
      case good: True
      have e: "estimate_loop succeeds lo hi = estimate_loop succeeds lo ?m"
        using True good by (subst estimate_loop.simps) (simp add: Let_def)
      have "unat ?m - unat lo < unat hi - unat lo" "unat ?m < 2 ^ 63" using mn less.prems(2) by linarith+
      from less.hyps [OF this(1) m(1) this(2) good] obtain r lo' where
        r: "estimate_loop succeeds lo ?m = Some r" "lo < r" "r \<le> ?m" "succeeds r" "unat r = unat lo' + 1"
          "lo' = lo \<or> \<not> succeeds lo'" by blast
      moreover have "r \<le> hi" using r(3) m(2) by simp
      ultimately show ?thesis using e by (intro exI [of _ r] exI [of _ lo']) simp
    qed
  next
    case False
    then have "unat hi = unat lo + 1" using lo suc by (simp add: u64_less_nat)
    moreover have "estimate_loop succeeds lo hi = Some hi"
      using False by (subst estimate_loop.simps) simp
    ultimately show ?thesis using less.prems by (intro exI [of _ hi] exI [of _ lo]) auto
  qed
qed

definition gas_monotone :: "(u64 \<Rightarrow> bool) \<Rightarrow> bool" where
  "gas_monotone succeeds \<longleftrightarrow> (\<forall>g g'. 0 < g \<longrightarrow> succeeds g \<longrightarrow> g \<le> g' \<longrightarrow> succeeds g')"

definition estimate_floor :: "message \<Rightarrow> u64" where
  "estimate_floor msg = (if ms_To msg = None then 53000 else 21000)"

lemma EstimateGas_spec:
  assumes "estimate_floor msg < bc_GasLimit bctx" and "unat (bc_GasLimit bctx) < 2 ^ 63"
    and "probe L s msg bctx (bc_GasLimit bctx)" and "gas_monotone (probe L s msg bctx)"
  shows "\<exists>r. ev_EstimateGas L s msg bctx = Some r \<and> estimate_floor msg < r \<and> r \<le> bc_GasLimit bctx \<and>
    probe L s msg bctx r \<and> (\<forall>g. estimate_floor msg < g \<and> g < r \<longrightarrow> \<not> probe L s msg bctx g)"
proof -
  let ?p = "probe L s msg bctx" and ?lo = "estimate_floor msg"
  have "ev_EstimateGas L s msg bctx = estimate_loop ?p ?lo (bc_GasLimit bctx)"
    using assms(3) by (auto simp: ev_EstimateGas_def Let_def probe_def estimate_floor_def split: prod.splits)
  moreover obtain r lo' where r: "estimate_loop ?p ?lo (bc_GasLimit bctx) = Some r" "?lo < r"
      "r \<le> bc_GasLimit bctx" "?p r" "unat r = unat lo' + 1" "lo' = ?lo \<or> \<not> ?p lo'"
    using estimate_loop_spec [of ?lo "bc_GasLimit bctx" ?p, OF assms(1-3)] by blast
  moreover have "\<not> ?p g" if "?lo < g" "g < r" for g
  proof -
    have "g \<le> lo'" using that(2) r(5) by (simp add: u64_less_nat u64_le_nat)
    moreover have "lo' \<noteq> ?lo" using that(1) calculation by auto
    moreover have "0 < g" using that(1) by (metis order_le_less_trans word_zero_le)
    ultimately show ?thesis using r(6) assms(4) by (auto simp: gas_monotone_def)
  qed
  ultimately show ?thesis by auto
qed

subsection \<open>An instance of the parameters\<close>

text \<open>
  A ledger with one account that every address shares, and a refund counter; a machine in which every
  call succeeds if it gets more gas than \<open>need\<close>, leaves the rest and keeps the counter.
\<close>

type_synonym ledger = "u256 \<times> u64"

definition example_call :: "u64 \<Rightarrow> ledger \<Rightarrow> u64 \<Rightarrow> ledger \<times> bytes \<times> u64 \<times> string option" where
  "example_call need s gas = (if need < gas then (s, [], gas - need, None) else (s, [], 0, Some ''out of gas''))"

definition example_lib :: "u64 \<Rightarrow> ledger evm_lib" where
  "example_lib need = \<lparr>sd_GetNonce = (\<lambda>s a. 0), sd_SetNonce = (\<lambda>s a n. s), sd_GetBalance = (\<lambda>s a. fst s),
     sd_AddBalance = (\<lambda>s a v. (fst s + v, snd s)), sd_SubBalance = (\<lambda>s a v. (fst s - v, snd s)),
     sd_SetTxContext = (\<lambda>s h i. s), sd_GetRefund = (\<lambda>s. snd s), sd_GetLogs = (\<lambda>s h n. []),
     ev_Call = (\<lambda>c x s a b d g v. example_call need s g), ev_Create = (\<lambda>c x s a d g v. example_call need s g),
     ev_Sender = (\<lambda>t. Some zero_address), ev_IntrinsicGas = (\<lambda>t. Some 21000),
     ev_CreateAddress = (\<lambda>a n. a), ev_CreateBloom = (\<lambda>r. []), ev_CalcBlobFee = 1\<rparr>"

lemma example_gas_law: "evm_gas_law (example_lib need)"
proof -
  have "l \<le> g" if "example_call need s g = (s', o', l, e)" for s g s' o' l e
  proof (cases "need < g")
    case True
    then have "unat (g - need) \<le> unat g" by (subst unat_sub_no_wrap) simp_all
    then show ?thesis using that True by (simp add: example_call_def u64_le_nat)
  qed (use that in \<open>simp add: example_call_def\<close>)
  then show ?thesis by (simp add: evm_gas_law_def example_lib_def)
qed

lemma example_supply: "supply_laws (example_lib need) (\<lambda>s. uint (fst s))"
proof -
  have "uint x + uint v < 2 ^ 256 \<Longrightarrow> uint (x + v) = uint x + uint v" for x v :: u256
    by (simp add: uint_plus_if_size word_size)
  moreover have "uint v \<le> uint x \<Longrightarrow> uint (x - v) = uint x - uint v" for x v :: u256
    by (simp add: uint_sub_if')
  moreover have "fst (example_call need s g) = s" for s g by (simp add: example_call_def)
  ultimately show ?thesis by (simp add: supply_laws_def example_lib_def)
qed

definition example_ctx :: exec_ctx where
  "example_ctx = \<lparr>ec_BlockNumber = 1, ec_Timestamp = 0, ec_Coinbase = zero_address, ec_GasLimit = 30000000,
     ec_BaseFee = 0, ec_ParentHash = zero_hash\<rparr>"

definition example_msg :: message where
  "example_msg = \<lparr>ms_From = zero_address, ms_To = Some zero_address, ms_Data = [], ms_GasLimit = 0,
     ms_GasPrice = 0, ms_Value = None\<rparr>"

lemma example_probe: "0 < g \<Longrightarrow> probe (example_lib need) s example_msg bctx g \<longleftrightarrow> need < g"
  by (auto simp: probe_def ev_CallContract_def example_msg_def example_lib_def example_call_def Let_def)

lemma example_gas_monotone: "gas_monotone (probe (example_lib need) s example_msg bctx)"
  unfolding gas_monotone_def
  by (metis example_probe order_less_le_trans)

subsection \<open>Properties\<close>

text \<open>C10. The block loop: every transaction is either executed, with a receipt of its hash, or skipped,
  in order; each receipt's cumulative gas is the sum of the gas used so far; and the total stays
  within the block's gas limit, when no declared gas wraps around above it.\<close>

theorem execute_transactions_accounting:
  assumes "evm_gas_law L" and "\<forall>t \<in> set txs. unat (ec_GasLimit ctx) + unat (tx_Gas t) < 2 ^ 64"
    and "ExecuteTransactions L s txs ctx = (s', executed, skipped, cumulativeGas)"
  shows "(\<exists>marks. length marks = length txs \<and>
      map (\<lambda>r. rc_TxHash (er_Receipt r)) executed = map tx_Hash (select marks txs) \<and>
      skipped = select (map Not marks) txs) \<and>
    running 0 executed \<and> unat cumulativeGas = sum_list (map (\<lambda>r. unat (er_GasUsed r)) executed) \<and>
    unat cumulativeGas \<le> unat (ec_GasLimit ctx)"
  using ExecuteTransactions_ok [OF assms] .

lemma execute_transactions_accounting_witness:
  "\<exists>s' executed skipped cum. ExecuteTransactions (example_lib 100) (10 ^ 18, 0)
      [example_tx 1 50000 7, example_tx 2 30000001 7] example_ctx = (s', executed, skipped, cum) \<and>
    unat cum \<le> 30000000"
proof -
  obtain s' executed skipped cum where x: "ExecuteTransactions (example_lib 100) (10 ^ 18, 0)
      [example_tx 1 50000 7, example_tx 2 30000001 7] example_ctx = (s', executed, skipped, cum)"
    by (metis prod_cases4)
  have "unat cum \<le> unat (ec_GasLimit example_ctx)"
    using execute_transactions_accounting [OF example_gas_law _ x] by (simp add: example_tx_def example_ctx_def)
  then show ?thesis using x by (simp add: example_ctx_def)
qed





text \<open>C21. The gas estimate terminates and is minimal: if the call succeeds with the block's gas limit and
  success is monotone in the gas, the search answers the least gas above the floor with which the
  call succeeds.\<close>

theorem estimate_gas_minimal:
  assumes "estimate_floor msg < bc_GasLimit bctx" and "unat (bc_GasLimit bctx) < 2 ^ 63"
    and "probe L s msg bctx (bc_GasLimit bctx)" and "gas_monotone (probe L s msg bctx)"
  shows "\<exists>r. ev_EstimateGas L s msg bctx = Some r \<and> estimate_floor msg < r \<and> r \<le> bc_GasLimit bctx \<and>
    probe L s msg bctx r \<and> (\<forall>g. estimate_floor msg < g \<and> g < r \<longrightarrow> \<not> probe L s msg bctx g)"
  using EstimateGas_spec [OF assms] .

lemma estimate_gas_minimal_witness:
  "\<exists>r. ev_EstimateGas (example_lib 100000) (0, 0) example_msg
      (exec_block_ctx (example_lib 100000) example_ctx) = Some r \<and> 100000 < r"
proof -
  let ?L = "example_lib 100000" and ?b = "exec_block_ctx (example_lib 100000) example_ctx"
  have "\<exists>r. ev_EstimateGas ?L (0, 0) example_msg ?b = Some r \<and> estimate_floor example_msg < r \<and>
      r \<le> bc_GasLimit ?b \<and> probe ?L (0, 0) example_msg ?b r \<and>
      (\<forall>g. estimate_floor example_msg < g \<and> g < r \<longrightarrow> \<not> probe ?L (0, 0) example_msg ?b g)"
    by (rule estimate_gas_minimal)
      (simp_all add: example_gas_monotone example_probe estimate_floor_def example_msg_def [THEN arg_cong, of ms_To]
        exec_block_ctx_def example_ctx_def)
  then obtain r where r: "ev_EstimateGas ?L (0, 0) example_msg ?b = Some r" "estimate_floor example_msg < r"
      "probe ?L (0, 0) example_msg ?b r" by blast
  have "0 < r" using r(2) by (metis order_le_less_trans word_zero_le)
  then show ?thesis using r(1,3) example_probe by blast
qed

text \<open>The estimate leaves out the intrinsic gas: a transaction sent with the estimate as its gas limit,
  whose run has the same outcome as the probe with the same gas, fails when the intrinsic gas is
  positive and leaves more than the floor.\<close>

theorem estimate_gas_too_low:
  assumes "estimate_floor msg < bc_GasLimit bctx" and "unat (bc_GasLimit bctx) < 2 ^ 63"
    and "probe L s msg bctx (bc_GasLimit bctx)" and "gas_monotone (probe L s msg bctx)"
    and "ev_EstimateGas L s msg bctx = Some (tx_Gas t)" and "ev_IntrinsicGas L t = Some ig"
    and "0 < ig" and "ig \<le> tx_Gas t" and "estimate_floor msg < tx_Gas t - ig"
    and "\<And>sender g s4 outp leftover err. 0 < g \<Longrightarrow> run_evm L bctx t sender (prepared L s t i sender) g = (s4, outp, leftover, err) \<Longrightarrow>
      (err = None) = probe L s msg bctx g"
    and "applyTransaction L s t bctx cum i = (s', Inr r)" and "evm_gas_law L"
  shows "rc_Status (er_Receipt r) = 0"
proof -
  have "unat (tx_Gas t - ig) < unat (tx_Gas t)"
    using assms(7,8) by (simp add: unat_sub_no_wrap u64_less_nat u64_le_nat)
  then have "\<not> probe L s msg bctx (tx_Gas t - ig)"
    using EstimateGas_spec [OF assms(1-4)] assms(5,9) by (auto simp: u64_less_nat)
  moreover obtain sender ig' s4 outp leftover vmErr
    where a: "ev_IntrinsicGas L t = Some ig'" "ig' \<le> tx_Gas t"
      "run_evm L bctx t sender (prepared L s t i sender) (tx_Gas t - ig') = (s4, outp, leftover, vmErr)"
      "settle L bctx t sender cum i s4 leftover vmErr = (s', r)"
    using assms(11) by (rule applyTransaction_ok)
  moreover have "ig' = ig" using a(1) assms(6) by simp
  moreover have "0 < tx_Gas t - ig" using assms(9) by (metis order_le_less_trans word_zero_le)
  ultimately have err: "vmErr \<noteq> None" using assms(10) [OF _ a(3)] by simp
  have "leftover \<le> tx_Gas t"
    using run_evm_gas [OF assms(12) a(3)] a(2) by (simp add: u64_le_nat unat_sub_no_wrap)
  from settle_parts(5) [OF this a(4)] err show ?thesis by simp
qed

lemma estimate_gas_too_low_witness:
  "\<exists>g s' r. ev_EstimateGas (example_lib 100000) (10 ^ 18, 0) example_msg
      (exec_block_ctx (example_lib 100000) example_ctx) = Some g \<and>
    applyTransaction (example_lib 100000) (10 ^ 18, 0) (example_tx 1 g 0)
      (exec_block_ctx (example_lib 100000) example_ctx) 0 0 = (s', Inr r) \<and>
    rc_Status (er_Receipt r) = 0"
proof -
  let ?L = "example_lib 100000" and ?b = "exec_block_ctx (example_lib 100000) example_ctx" and ?s = "(10 ^ 18, 0)"
  have pre: "estimate_floor example_msg < bc_GasLimit ?b" "unat (bc_GasLimit ?b) < 2 ^ 63"
      "probe ?L ?s example_msg ?b (bc_GasLimit ?b)" "estimate_floor example_msg = 21000"
    by (simp_all add: example_probe estimate_floor_def example_msg_def exec_block_ctx_def example_ctx_def)
       (simp add: example_probe flip: example_msg_def)
  obtain g where g: "ev_EstimateGas ?L ?s example_msg ?b = Some g" "21000 < g" "g \<le> bc_GasLimit ?b"
      "probe ?L ?s example_msg ?b g" "\<forall>h. 21000 < h \<and> h < g \<longrightarrow> \<not> probe ?L ?s example_msg ?b h"
    using EstimateGas_spec [OF pre(1-3) example_gas_monotone] pre(4) by auto
  have "0 < g" using g(2) by (metis order_le_less_trans word_zero_le)
  then have g1: "100000 < g" using g(4) example_probe by blast
  have ge: "unat g \<ge> 100001" using g1 by (simp add: u64_less_nat)
  have sub: "unat (g - 21000) = unat g - 21000" using g(2) by (subst unat_sub_no_wrap) simp_all
  have fl: "21000 < g - 21000" using ge sub by (simp add: u64_less_nat)
  have le: "21000 \<le> g" using g(2) by simp
  let ?t = "example_tx 1 g 0"
  have "\<exists>s' r. applyTransaction ?L ?s ?t ?b 0 0 = (s', Inr r)"
    using le by (simp add: applyTransaction_def example_lib_def example_tx_def Let_def example_call_def not_less
        split: prod.split)
  then obtain s' r where x: "applyTransaction ?L ?s ?t ?b 0 0 = (s', Inr r)" by blast
  have "rc_Status (er_Receipt r) = 0"
  proof (rule estimate_gas_too_low [OF pre(1-3) example_gas_monotone _ _ _ _ _ _ x example_gas_law])
    show "ev_EstimateGas ?L ?s example_msg ?b = Some (tx_Gas ?t)" using g(1) by (simp add: example_tx_def)
    show "ev_IntrinsicGas ?L ?t = Some 21000" by (simp add: example_lib_def)
    show "(0 :: u64) < 21000" "21000 \<le> tx_Gas ?t" "estimate_floor example_msg < tx_Gas ?t - 21000"
      using le fl pre(4) by (simp_all add: example_tx_def)
    fix sender h s4 outp leftover err
    assume h: "0 < h" and run: "run_evm ?L ?b ?t sender (prepared ?L ?s ?t 0 sender) h = (s4, outp, leftover, err)"
    have "err = None \<longleftrightarrow> 100000 < h"
      using run by (auto simp: run_evm_def example_lib_def example_tx_def example_call_def split: if_splits)
    then show "(err = None) = probe ?L ?s example_msg ?b h" using h by (simp add: example_probe)
  qed
  then show ?thesis using g(1) x by blast
qed

end
