(* ===== verification/State_Manager.thy ===== *)
theory State_Manager
  imports Chain_DB Evm
begin

section \<open>Genesis and the state manager: internal/genesis, internal/execution/statestore.go, internal/state\<close>

text \<open>
  The genesis allocation, the state store, and \<open>Manager\<close>: the tip of the chain (number and state
  root) over the chain database and the executor. Chain database and state trie share one disk, of
  type \<open>'d\<close>; the trie operations of go-ethereum are the record \<open>trie_lib\<close>, with the law that they
  leave the keys of the chain database alone. The mutex makes each method one step.
\<close>

subsection \<open>Parsing integers\<close>

text \<open>
  \<open>big.Int.SetString(s, 0)\<close> of Go's standard library: an optional sign, a prefix that gives the base,
  digits, and underscores between digits or after the prefix.
\<close>

definition digit_value :: "char \<Rightarrow> nat option" where
  "digit_value c = (let n = of_char c :: nat in
     if 48 \<le> n \<and> n \<le> 57 then Some (n - 48)
     else if 97 \<le> n \<and> n \<le> 122 then Some (n - 87)
     else if 65 \<le> n \<and> n \<le> 90 then Some (n - 55) else None)"

text \<open>\<open>after_digit\<close>: the character before was a digit or the prefix, so an underscore may follow.\<close>

fun parse_digits :: "nat \<Rightarrow> nat \<Rightarrow> bool \<Rightarrow> string \<Rightarrow> nat option" where
  "parse_digits base acc after_digit [] = (if after_digit then Some acc else None)"
| "parse_digits base acc after_digit (c # cs) =
     (if c = CHR ''_'' then (if after_digit then parse_digits base acc False cs else None)
      else (case digit_value c of
          None \<Rightarrow> None
        | Some d \<Rightarrow> if d < base then parse_digits base (acc * base + d) True cs else None))"

definition parse_nat0 :: "string \<Rightarrow> nat option" where
  "parse_nat0 s = (case s of
     c # p # rest \<Rightarrow>
       if c \<noteq> CHR ''0'' then (if c = CHR ''_'' then None else parse_digits 10 0 False s)
       else if p = CHR ''x'' \<or> p = CHR ''X'' then (if rest = [] then None else parse_digits 16 0 True rest)
       else if p = CHR ''b'' \<or> p = CHR ''B'' then (if rest = [] then None else parse_digits 2 0 True rest)
       else if p = CHR ''o'' \<or> p = CHR ''O'' then (if rest = [] then None else parse_digits 8 0 True rest)
       else parse_digits 8 0 True (p # rest)
   | _ \<Rightarrow> parse_digits 10 0 False s)"

definition big_SetString0 :: "string \<Rightarrow> int option" where
  "big_SetString0 s = (case s of
     [] \<Rightarrow> None
   | c # cs \<Rightarrow> if c = CHR ''-'' then map_option (\<lambda>n. - int n) (parse_nat0 cs)
       else if c = CHR ''+'' then map_option int (parse_nat0 cs)
       else map_option int (parse_nat0 s))"

subsection \<open>Genesis\<close>

record genesis_account =
  ga_Balance :: string
  ga_Code :: string
  ga_Nonce :: u64
  ga_Storage :: "(string \<times> string) list"

text \<open>The activation heights and times that the source sets of go-ethereum's chain configuration.\<close>

record chain_config =
  cc_ChainID :: int
  cc_HomesteadBlock :: "int option"
  cc_EIP150Block :: "int option"
  cc_EIP155Block :: "int option"
  cc_EIP158Block :: "int option"
  cc_ByzantiumBlock :: "int option"
  cc_ConstantinopleBlock :: "int option"
  cc_PetersburgBlock :: "int option"
  cc_IstanbulBlock :: "int option"
  cc_BerlinBlock :: "int option"
  cc_LondonBlock :: "int option"
  cc_ShanghaiTime :: "u64 option"
  cc_CancunTime :: "u64 option"

definition DefaultChainConfig :: chain_config where
  "DefaultChainConfig = \<lparr>cc_ChainID = 42069, cc_HomesteadBlock = Some 0, cc_EIP150Block = Some 0,
     cc_EIP155Block = Some 0, cc_EIP158Block = Some 0, cc_ByzantiumBlock = Some 0,
     cc_ConstantinopleBlock = Some 0, cc_PetersburgBlock = Some 0, cc_IstanbulBlock = Some 0,
     cc_BerlinBlock = Some 0, cc_LondonBlock = Some 0, cc_ShanghaiTime = Some 0, cc_CancunTime = Some 0\<rparr>"

text \<open>The maps \<open>Alloc\<close> and \<open>Storage\<close> are lists, in the order in which the loops visit them.\<close>

record genesis =
  gn_Config :: "chain_config option"
  gn_GasLimit :: string
  gn_Difficulty :: string
  gn_Alloc :: "(string \<times> genesis_account) list"

definition funded :: "string \<Rightarrow> genesis_account" where
  "funded b = \<lparr>ga_Balance = b, ga_Code = [], ga_Nonce = 0, ga_Storage = []\<rparr>"

definition DefaultGenesis :: genesis where
  "DefaultGenesis = \<lparr>gn_Config = Some DefaultChainConfig, gn_GasLimit = ''0x1c9c380'', gn_Difficulty = ''0x0'',
     gn_Alloc =
       [(''0xf39Fd6e51aad88F6F4ce6aB8827279cffFb92266'', funded ''0x21E19E0C9BAB2400000''),
        (''0x70997970C51812dc3A010C7d01b50e0d17dc79C8'', funded ''0x21E19E0C9BAB2400000''),
        (''0x3C44CdDdB6a900fa2b585dd299e03d12FA4293BC'', funded ''0x21E19E0C9BAB2400000''),
        (''0x90F79bf6EB2c4f870365E785982E1f101E93b906'', funded ''0x152D02C7E14AF6800000'')]\<rparr>"

definition gn_ChainConfig :: "genesis \<Rightarrow> chain_config" where
  "gn_ChainConfig gen = (case gn_Config gen of Some c \<Rightarrow> c | None \<Rightarrow> DefaultChainConfig)"

definition ParseGasLimit :: "genesis \<Rightarrow> u64" where
  "ParseGasLimit gen = (case big_SetString0 (gn_GasLimit gen) of
     None \<Rightarrow> 30000000 | Some v \<Rightarrow> word_of_int v)"

text \<open>What the genesis and the queries call of go-ethereum beyond the executor's operations.\<close>

record 's genesis_lib =
  gl_SetCode :: "'s \<Rightarrow> address \<Rightarrow> bytes \<Rightarrow> 's"
  gl_SetState :: "'s \<Rightarrow> address \<Rightarrow> hash \<Rightarrow> hash \<Rightarrow> 's"
  gl_IntermediateRoot :: "'s \<Rightarrow> 's \<times> hash"
  gl_HexToAddress :: "string \<Rightarrow> address"
  gl_HexToHash :: "string \<Rightarrow> hash"
  gl_FromHex :: "string \<Rightarrow> bytes"
  gl_GetCode :: "'s \<Rightarrow> address \<Rightarrow> bytes"
  gl_GetState :: "'s \<Rightarrow> address \<Rightarrow> hash \<Rightarrow> hash"

definition init_account :: "'s evm_lib \<Rightarrow> 's genesis_lib \<Rightarrow> 's \<Rightarrow> address \<Rightarrow> int \<Rightarrow> genesis_account \<Rightarrow> 's" where
  "init_account L G s addr balance account =
     (let s1 = sd_AddBalance L s addr (from_big balance);
          s2 = (if 0 < ga_Nonce account then sd_SetNonce L s1 addr (ga_Nonce account) else s1);
          s3 = (if ga_Code account \<noteq> [] then gl_SetCode G s2 addr (gl_FromHex G (ga_Code account)) else s2)
      in fold (\<lambda>(k, v) s. gl_SetState G s addr (gl_HexToHash G k) (gl_HexToHash G v)) (ga_Storage account) s3)"

text \<open>An error names the account whose balance does not parse.\<close>

fun init_accounts :: "'s evm_lib \<Rightarrow> 's genesis_lib \<Rightarrow> 's \<Rightarrow> (string \<times> genesis_account) list \<Rightarrow> string + 's" where
  "init_accounts L G s [] = Inr s"
| "init_accounts L G s ((addrHex, account) # rest) =
     (case big_SetString0 (ga_Balance account) of
        None \<Rightarrow> Inl addrHex
      | Some balance \<Rightarrow> init_accounts L G (init_account L G s (gl_HexToAddress G addrHex) balance account) rest)"

definition InitializeState :: "'s evm_lib \<Rightarrow> 's genesis_lib \<Rightarrow> genesis \<Rightarrow> 's \<Rightarrow> string + 's \<times> hash" where
  "InitializeState L G gen s = (case init_accounts L G s (gn_Alloc gen) of
     Inl e \<Rightarrow> Inl e | Inr s' \<Rightarrow> Inr (gl_IntermediateRoot G s'))"

subsection \<open>The state store\<close>

text \<open>
  \<open>state.New\<close>, \<open>StateDB.Commit\<close> and the trie database's \<open>Commit\<close>; the last two change the disk,
  also when they fail.
\<close>

record ('d, 's) trie_lib =
  tl_New :: "'d \<Rightarrow> hash \<Rightarrow> 's option"
  tl_Commit :: "'d \<Rightarrow> 's \<Rightarrow> u64 \<Rightarrow> 'd \<times> hash option"
  tl_TrieCommit :: "'d \<Rightarrow> hash \<Rightarrow> 'd \<times> bool"

definition OpenState :: "('d, 's) trie_lib \<Rightarrow> 'd \<Rightarrow> hash \<Rightarrow> 's option" where
  "OpenState T d h = tl_New T d h"

definition CommitState :: "('d, 's) trie_lib \<Rightarrow> 'd \<Rightarrow> 's \<Rightarrow> u64 \<Rightarrow> 'd \<times> hash option" where
  "CommitState T d s blockNum = (case tl_Commit T d s blockNum of
     (d1, None) \<Rightarrow> (d1, None)
   | (d1, Some newRoot) \<Rightarrow> (case tl_TrieCommit T d1 newRoot of
       (d2, ok) \<Rightarrow> (d2, if ok then Some newRoot else None)))"

text \<open>The trie keeps its nodes under their hashes and leaves the chain's keys as they are.\<close>

definition trie_laws :: "'d ethdb \<Rightarrow> ('d, 's) trie_lib \<Rightarrow> bool" where
  "trie_laws E T \<longleftrightarrow>
     (\<forall>d s n k. key_ok k \<longrightarrow> ed_Get E (fst (tl_Commit T d s n)) (key_bytes k) = ed_Get E d (key_bytes k)) \<and>
     (\<forall>d h k. key_ok k \<longrightarrow> ed_Get E (fst (tl_TrieCommit T d h)) (key_bytes k) = ed_Get E d (key_bytes k)) \<and>
     (\<forall>d s n h. snd (tl_Commit T d s n) = Some h \<longrightarrow> length h = 32)"

subsection \<open>The manager\<close>

record 'd manager =
  mg_chainDB :: "'d chain_db"
  mg_currentBlock :: u64
  mg_stateRoot :: hash
  mg_l1Origin :: l1_origin
  mg_isSequencing :: bool
  mg_sequencerAddr :: address
  mg_chainID :: u64

datatype mgr_error = ErrOpenState | ErrCommitState | ErrGenesis string | ErrChain chain_error

text \<open>The libraries a manager is built on, together.\<close>

record ('d, 's) libs =
  lb_E :: "'d ethdb"
  lb_C :: codec
  lb_g :: geth
  lb_L :: "'s evm_lib"
  lb_G :: "'s genesis_lib"
  lb_T :: "('d, 's) trie_lib"

definition NewManager :: "('d, 's) libs \<Rightarrow> u64 \<Rightarrow> address \<Rightarrow> genesis \<Rightarrow> 'd \<Rightarrow> mgr_error + 'd manager" where
  "NewManager B chainID sequencerAddr gen disk =
     (let chainDB = NewChainDB (lb_E B) disk;
          m = \<lparr>mg_chainDB = chainDB, mg_currentBlock = 0, mg_stateRoot = zero_hash, mg_l1Origin = no_l1_origin,
               mg_isSequencing = True, mg_sequencerAddr = sequencerAddr, mg_chainID = chainID\<rparr> in
      if (case cdb_ReadGenesisRoot (lb_E B) (lb_g B) chainDB of Inl _ \<Rightarrow> False | Inr r \<Rightarrow> r \<noteq> zero_hash) then
        Inr (m\<lparr>mg_currentBlock := cdb_CurrentBlock chainDB, mg_stateRoot := cdb_LatestStateRoot chainDB,
               mg_l1Origin := (case cdb_ReadL1Origin (lb_E B) (lb_C B) chainDB of
                 Inr (Some origin) \<Rightarrow> origin | _ \<Rightarrow> no_l1_origin)\<rparr>)
      else
        (case OpenState (lb_T B) disk zero_hash of
           None \<Rightarrow> Inl ErrOpenState
         | Some sdb \<Rightarrow> (case InitializeState (lb_L B) (lb_G B) gen sdb of
             Inl e \<Rightarrow> Inl (ErrGenesis e)
           | Inr (sdb', genesisRoot) \<Rightarrow> (case CommitState (lb_T B) disk sdb' 0 of
               (disk', None) \<Rightarrow> Inl ErrCommitState
             | (disk', Some committedRoot) \<Rightarrow>
                 (case cdb_WriteGenesisRoot (lb_E B) (chainDB\<lparr>cdb_db := disk'\<rparr>) committedRoot of
                    Inl e \<Rightarrow> Inl (ErrChain e)
                  | Inr chainDB' \<Rightarrow> Inr (m\<lparr>mg_stateRoot := committedRoot, mg_chainDB := chainDB'\<rparr>))))))"

definition computeBlockHash :: "geth \<Rightarrow> u64 \<Rightarrow> hash \<Rightarrow> u64 \<Rightarrow> hash \<Rightarrow> hash" where
  "computeBlockHash g blockNum stateRoot timestamp parentHash =
     ge_BytesToHash g (u64_bytes blockNum @ stateRoot @ u64_bytes timestamp @ parentHash)"

definition block_gas_limit :: u64 where
  "block_gas_limit = 30000000"

text \<open>The receipts with the block's hash, number and their index; the first transaction of each hash.\<close>

definition final_receipt :: "hash \<Rightarrow> u64 \<Rightarrow> nat \<times> exec_result \<Rightarrow> receipt" where
  "final_receipt blockHash blockNum ir = (er_Receipt (snd ir))\<lparr>rc_BlockHash := blockHash,
     rc_BlockNumber := int (unat blockNum), rc_TransactionIndex := fst ir\<rparr>"

definition executed_txs :: "tx list \<Rightarrow> exec_result list \<Rightarrow> tx list" where
  "executed_txs txs results = concat (map (\<lambda>r. case find (\<lambda>t. tx_Hash t = rc_TxHash (er_Receipt r)) txs of
     None \<Rightarrow> [] | Some t \<Rightarrow> [t]) results)"

definition mg_exec_ctx :: "'d manager \<Rightarrow> u64 \<Rightarrow> u64 \<Rightarrow> hash \<Rightarrow> int \<Rightarrow> exec_ctx" where
  "mg_exec_ctx m blockNum timestamp parentHash baseFee =
     \<lparr>ec_BlockNumber = int (unat blockNum), ec_Timestamp = timestamp, ec_Coinbase = mg_sequencerAddr m,
      ec_GasLimit = block_gas_limit, ec_BaseFee = baseFee, ec_ParentHash = parentHash\<rparr>"

text \<open>The result: the manager afterwards, the skipped transactions, and an error or the block.\<close>

definition ExecuteAndCommitBlock :: "('d, 's) libs \<Rightarrow> 'd manager \<Rightarrow> tx list \<Rightarrow> u64 \<Rightarrow> u64 \<Rightarrow> hash \<Rightarrow> int \<Rightarrow>
    'd manager \<times> tx list \<times> (mgr_error + l2_block)" where
  "ExecuteAndCommitBlock B m txs blockNum timestamp parentHash baseFee =
     (case OpenState (lb_T B) (cdb_db (mg_chainDB m)) (mg_stateRoot m) of
        None \<Rightarrow> (m, [], Inl ErrOpenState)
      | Some sdb \<Rightarrow>
        (case ExecuteTransactions (lb_L B) sdb txs (mg_exec_ctx m blockNum timestamp parentHash baseFee) of
           (sdb', results, skipped, cumulativeGas) \<Rightarrow>
             (case CommitState (lb_T B) (cdb_db (mg_chainDB m)) sdb' blockNum of
                (disk', None) \<Rightarrow>
                  (m\<lparr>mg_chainDB := (mg_chainDB m)\<lparr>cdb_db := disk'\<rparr>\<rparr>, skipped, Inl ErrCommitState)
              | (disk', Some newRoot) \<Rightarrow>
                  (let blockHash = computeBlockHash (lb_g B) blockNum newRoot timestamp parentHash;
                       receipts = map (final_receipt blockHash blockNum) (enumerate 0 results);
                       executedTxs = executed_txs txs results;
                       header = \<lparr>hd_Number = blockNum, hd_Hash = blockHash, hd_ParentHash = parentHash,
                         hd_Timestamp = timestamp, hd_StateRoot = newRoot, hd_GasUsed = cumulativeGas,
                         hd_GasLimit = block_gas_limit, hd_TxCount = int (length executedTxs),
                         hd_SequencerAddr = mg_sequencerAddr m, hd_L1Origin = mg_l1Origin m,
                         hd_BaseFee = Some baseFee\<rparr>;
                       block = \<lparr>bk_Header = header, bk_Transactions = executedTxs, bk_Receipts = receipts\<rparr>;
                       m1 = m\<lparr>mg_chainDB := (mg_chainDB m)\<lparr>cdb_db := disk'\<rparr>\<rparr>
                   in (case cdb_WriteBlock (lb_E B) (lb_C B) (mg_chainDB m1) block of
                         Inl e \<Rightarrow> (m1, skipped, Inl (ErrChain e))
                       | Inr chainDB' \<Rightarrow> (m1\<lparr>mg_chainDB := chainDB', mg_currentBlock := blockNum,
                            mg_stateRoot := newRoot\<rparr>, skipped, Inr block))))))"

subsection \<open>Queries and the smaller operations\<close>

definition OpenCurrentState :: "('d, 's) libs \<Rightarrow> 'd manager \<Rightarrow> 's option" where
  "OpenCurrentState B m = OpenState (lb_T B) (cdb_db (mg_chainDB m)) (mg_stateRoot m)"

definition mg_CurrentBlock :: "'d manager \<Rightarrow> u64" where
  "mg_CurrentBlock m = mg_currentBlock m"

definition GetLatestStateRoot :: "'d manager \<Rightarrow> hash" where
  "GetLatestStateRoot m = mg_stateRoot m"

definition GetL1Origin :: "'d manager \<Rightarrow> l1_origin" where
  "GetL1Origin m = mg_l1Origin m"

definition mg_GetBlock :: "('d, 's) libs \<Rightarrow> 'd manager \<Rightarrow> u64 \<Rightarrow> l2_block option" where
  "mg_GetBlock B m num = (case cdb_ReadBlock (lb_E B) (lb_C B) (mg_chainDB m) num of Inl _ \<Rightarrow> None | Inr b \<Rightarrow> b)"

definition mg_GetBlockByHash :: "('d, 's) libs \<Rightarrow> 'd manager \<Rightarrow> hash \<Rightarrow> l2_block option" where
  "mg_GetBlockByHash B m h =
     (case cdb_ReadBlockByHash (lb_E B) (lb_C B) (mg_chainDB m) h of Inl _ \<Rightarrow> None | Inr b \<Rightarrow> b)"

definition mg_GetBlockHash :: "('d, 's) libs \<Rightarrow> 'd manager \<Rightarrow> u64 \<Rightarrow> hash" where
  "mg_GetBlockHash B m num = cdb_ReadBlockHash (lb_E B) (lb_C B) (mg_chainDB m) num"

definition mg_GetTransaction :: "('d, 's) libs \<Rightarrow> 'd manager \<Rightarrow> hash \<Rightarrow> tx option" where
  "mg_GetTransaction B m h =
     (case cdb_ReadTransaction (lb_E B) (lb_C B) (mg_chainDB m) h of Inl _ \<Rightarrow> None | Inr t \<Rightarrow> t)"

definition mg_GetReceipt :: "('d, 's) libs \<Rightarrow> 'd manager \<Rightarrow> hash \<Rightarrow> receipt option" where
  "mg_GetReceipt B m h =
     (case cdb_ReadReceipt (lb_E B) (lb_C B) (mg_chainDB m) h of Inl _ \<Rightarrow> None | Inr r \<Rightarrow> r)"

definition mg_GetTxBlockNumber :: "('d, 's) libs \<Rightarrow> 'd manager \<Rightarrow> hash \<Rightarrow> u64 \<times> bool" where
  "mg_GetTxBlockNumber B m h = cdb_ReadTxBlockNumber (lb_E B) (mg_chainDB m) h"

definition mg_GetBalance :: "('d, 's) libs \<Rightarrow> 'd manager \<Rightarrow> address \<Rightarrow> int" where
  "mg_GetBalance B m a = (case OpenCurrentState B m of None \<Rightarrow> 0 | Some s \<Rightarrow> uint (sd_GetBalance (lb_L B) s a))"

definition mg_GetNonce :: "('d, 's) libs \<Rightarrow> 'd manager \<Rightarrow> address \<Rightarrow> u64" where
  "mg_GetNonce B m a = (case OpenCurrentState B m of None \<Rightarrow> 0 | Some s \<Rightarrow> sd_GetNonce (lb_L B) s a)"

text \<open>Code is nil, the empty slice, when the state does not open.\<close>

definition mg_GetCode :: "('d, 's) libs \<Rightarrow> 'd manager \<Rightarrow> address \<Rightarrow> bytes" where
  "mg_GetCode B m a = (case OpenCurrentState B m of None \<Rightarrow> [] | Some s \<Rightarrow> gl_GetCode (lb_G B) s a)"

definition mg_GetStorageAt :: "('d, 's) libs \<Rightarrow> 'd manager \<Rightarrow> address \<Rightarrow> hash \<Rightarrow> hash" where
  "mg_GetStorageAt B m a k = (case OpenCurrentState B m of None \<Rightarrow> zero_hash | Some s \<Rightarrow> gl_GetState (lb_G B) s a k)"

definition buildBlockContext :: "('d, 's) libs \<Rightarrow> 'd manager \<Rightarrow> u64 \<Rightarrow> u64 \<Rightarrow> block_ctx" where
  "buildBlockContext B m blockNum now = \<lparr>bc_GetHash = mg_GetBlockHash B m, bc_Coinbase = mg_sequencerAddr m,
     bc_BlockNumber = int (unat blockNum), bc_Time = now, bc_GasLimit = 30000000, bc_BaseFee = 1000000000,
     bc_BlobBaseFee = None, bc_Random = zero_hash\<rparr>"

definition mg_CallContract :: "('d, 's) libs \<Rightarrow> 'd manager \<Rightarrow> message \<Rightarrow> u64 \<Rightarrow> u64 \<Rightarrow>
    mgr_error + bytes \<times> u64 \<times> string option" where
  "mg_CallContract B m msg blockNum now = (case OpenCurrentState B m of
     None \<Rightarrow> Inl ErrOpenState
   | Some s \<Rightarrow> Inr (snd (ev_CallContract (lb_L B) s msg (buildBlockContext B m blockNum now))))"

definition mg_EstimateGas :: "('d, 's) libs \<Rightarrow> 'd manager \<Rightarrow> message \<Rightarrow> u64 \<Rightarrow> u64 \<Rightarrow> mgr_error + u64 option" where
  "mg_EstimateGas B m msg blockNum now = (case OpenCurrentState B m of
     None \<Rightarrow> Inl ErrOpenState
   | Some s \<Rightarrow> Inr (ev_EstimateGas (lb_L B) s msg (buildBlockContext B m blockNum now)))"

definition SetL1Origin :: "('d, 's) libs \<Rightarrow> 'd manager \<Rightarrow> l1_origin \<Rightarrow> 'd manager" where
  "SetL1Origin B m origin = (case cdb_WriteL1Origin (lb_E B) (lb_C B) (mg_chainDB m) origin of
     Inl _ \<Rightarrow> m\<lparr>mg_l1Origin := origin\<rparr>
   | Inr c \<Rightarrow> m\<lparr>mg_l1Origin := origin, mg_chainDB := c\<rparr>)"

definition AddBatch :: "('d, 's) libs \<Rightarrow> 'd manager \<Rightarrow> batch \<Rightarrow> 'd manager" where
  "AddBatch B m bt = (case cdb_WriteBatch (lb_E B) (lb_C B) (mg_chainDB m) bt of
     Inl _ \<Rightarrow> m | Inr c \<Rightarrow> m\<lparr>mg_chainDB := c\<rparr>)"

definition GetLatestBatch :: "('d, 's) libs \<Rightarrow> 'd manager \<Rightarrow> batch option" where
  "GetLatestBatch B m = (case cdb_ReadLatestBatch (lb_E B) (lb_C B) (mg_chainDB m) of Inl _ \<Rightarrow> None | Inr b \<Rightarrow> b)"

definition mg_SequencerStatus :: "'d manager \<Rightarrow> sequencer_status" where
  "mg_SequencerStatus m = \<lparr>st_IsSequencing = mg_isSequencing m, st_CurrentBlock = mg_currentBlock m,
     st_PendingTxCount = 0, st_LastBatchIndex = 0, st_L1Head = 0, st_UptimeSeconds = Fin 0,
     st_SequencerAddr = mg_sequencerAddr m, st_BlockTime = 0, st_ChainID = int (unat (mg_chainID m))\<rparr>"

definition SimulateL1Submission :: "geth \<Rightarrow> u64 \<Rightarrow> u64 \<Rightarrow> hash" where
  "SimulateL1Submission g startBlock endBlock =
     ge_BytesToHash g (nat_bytes (unat startBlock + unat endBlock))"

subsection \<open>What a committed block is\<close>

lemma Execute_ok:
  assumes "ExecuteAndCommitBlock B m txs n ts ph bf = (m', skipped, Inr b)"
  obtains sdb sdb' results gas disk' newRoot c'
  where "OpenState (lb_T B) (cdb_db (mg_chainDB m)) (mg_stateRoot m) = Some sdb"
    and "ExecuteTransactions (lb_L B) sdb txs (mg_exec_ctx m n ts ph bf) = (sdb', results, skipped, gas)"
    and "CommitState (lb_T B) (cdb_db (mg_chainDB m)) sdb' n = (disk', Some newRoot)"
    and "cdb_WriteBlock (lb_E B) (lb_C B) ((mg_chainDB m)\<lparr>cdb_db := disk'\<rparr>) b = Inr c'"
    and "m' = m\<lparr>mg_chainDB := c', mg_currentBlock := n, mg_stateRoot := newRoot\<rparr>"
    and "bk_Header b = \<lparr>hd_Number = n, hd_Hash = computeBlockHash (lb_g B) n newRoot ts ph, hd_ParentHash = ph,
      hd_Timestamp = ts, hd_StateRoot = newRoot, hd_GasUsed = gas, hd_GasLimit = block_gas_limit,
      hd_TxCount = int (length (executed_txs txs results)), hd_SequencerAddr = mg_sequencerAddr m,
      hd_L1Origin = mg_l1Origin m, hd_BaseFee = Some bf\<rparr>"
    and "bk_Transactions b = executed_txs txs results"
    and "bk_Receipts b = map (final_receipt (computeBlockHash (lb_g B) n newRoot ts ph) n) (enumerate 0 results)"
proof -
  let ?d = "cdb_db (mg_chainDB m)"
  obtain sdb where 1: "OpenState (lb_T B) ?d (mg_stateRoot m) = Some sdb"
    using assms by (cases "OpenState (lb_T B) ?d (mg_stateRoot m)") (simp_all add: ExecuteAndCommitBlock_def)
  obtain sdb' results sk gas where
    2: "ExecuteTransactions (lb_L B) sdb txs (mg_exec_ctx m n ts ph bf) = (sdb', results, sk, gas)"
    by (metis prod_cases4)
  obtain disk' r where 3: "CommitState (lb_T B) ?d sdb' n = (disk', r)" by fastforce
  obtain newRoot where 4: "r = Some newRoot"
    using assms 1 2 3 by (cases r) (simp_all add: ExecuteAndCommitBlock_def)
  define block where "block = \<lparr>bk_Header = \<lparr>hd_Number = n, hd_Hash = computeBlockHash (lb_g B) n newRoot ts ph,
      hd_ParentHash = ph, hd_Timestamp = ts, hd_StateRoot = newRoot, hd_GasUsed = gas, hd_GasLimit = block_gas_limit,
      hd_TxCount = int (length (executed_txs txs results)), hd_SequencerAddr = mg_sequencerAddr m,
      hd_L1Origin = mg_l1Origin m, hd_BaseFee = Some bf\<rparr>, bk_Transactions = executed_txs txs results,
      bk_Receipts = map (final_receipt (computeBlockHash (lb_g B) n newRoot ts ph) n) (enumerate 0 results)\<rparr>"
  obtain w where 5: "cdb_WriteBlock (lb_E B) (lb_C B) ((mg_chainDB m)\<lparr>cdb_db := disk'\<rparr>) block = w" by blast
  obtain c' where 6: "w = Inr c'"
    using assms 1 2 3 4 5 by (cases w) (simp_all add: ExecuteAndCommitBlock_def Let_def flip: block_def)
  have 7: "m' = m\<lparr>mg_chainDB := c', mg_currentBlock := n, mg_stateRoot := newRoot\<rparr>" "skipped = sk" "b = block"
    using assms 1 2 3 4 5 6 by (simp_all add: ExecuteAndCommitBlock_def Let_def flip: block_def)
  show ?thesis
    using 1 2 3 4 5 6 7 by (intro that [of sdb sdb' results gas disk' newRoot c']) (simp_all add: block_def)
qed

lemma executed_txs_hashes:
  assumes "\<forall>r \<in> set results. rc_TxHash (er_Receipt r) \<in> tx_Hash ` set txs"
  shows "map tx_Hash (executed_txs txs results) = map (\<lambda>r. rc_TxHash (er_Receipt r)) results \<and>
    set (executed_txs txs results) \<subseteq> set txs"
  using assms
proof (induction results)
  case (Cons r rs)
  have "find (\<lambda>t. tx_Hash t = rc_TxHash (er_Receipt r)) txs \<noteq> None"
    using Cons.prems by (auto simp: find_None_iff)
  then obtain t where t: "find (\<lambda>t. tx_Hash t = rc_TxHash (er_Receipt r)) txs = Some t" by blast
  then have "tx_Hash t = rc_TxHash (er_Receipt r)" "t \<in> set txs" by (auto simp: find_Some_iff)
  with Cons t show ?case by (simp add: executed_txs_def)
qed (simp add: executed_txs_def)

lemma select_subset: "set (select marks xs) \<subseteq> set xs"
  by (induction marks xs rule: select.induct) auto

lemma distinct_select: "distinct (map f xs) \<Longrightarrow> distinct (map f (select marks xs))"
proof (induction marks xs rule: select.induct)
  case (1 b bs x xs)
  then show ?case using select_subset [of bs xs] by auto
qed simp_all

lemma mask_hashes:
  assumes "map (\<lambda>r. rc_TxHash (er_Receipt r)) results = map tx_Hash (select marks txs)"
  shows "\<forall>r \<in> set results. rc_TxHash (er_Receipt r) \<in> tx_Hash ` set txs"
proof -
  have "set (map (\<lambda>r. rc_TxHash (er_Receipt r)) results) = set (map tx_Hash (select marks txs))"
    by (rule arg_cong [OF assms])
  then show ?thesis using select_subset [of marks txs] by auto
qed

lemma final_receipt_fields [simp]:
  "rc_TxHash (final_receipt h n ir) = rc_TxHash (er_Receipt (snd ir))"
  "rc_GasUsed (final_receipt h n ir) = rc_GasUsed (er_Receipt (snd ir))"
  "rc_CumulativeGasUsed (final_receipt h n ir) = rc_CumulativeGasUsed (er_Receipt (snd ir))"
  "rc_BlockHash (final_receipt h n ir) = h" "rc_BlockNumber (final_receipt h n ir) = int (unat n)"
  "rc_TransactionIndex (final_receipt h n ir) = fst ir"
  by (simp_all add: final_receipt_def)

subsection \<open>The tip and the database\<close>

lemma CommitState_keeps:
  assumes "trie_laws E T" and "CommitState T d s n = (d', r)" and "key_ok k"
  shows "ed_Get E d' (key_bytes k) = ed_Get E d (key_bytes k)"
proof -
  obtain d1 r1 where 1: "tl_Commit T d s n = (d1, r1)" by fastforce
  have keep: "ed_Get E d1 (key_bytes k) = ed_Get E d (key_bytes k)"
    using assms(1,3) 1 unfolding trie_laws_def by (metis fst_conv)
  show ?thesis
  proof (cases r1)
    case None
    then show ?thesis using assms(2) 1 keep by (simp add: CommitState_def)
  next
    case (Some h)
    obtain d2 ok where 2: "tl_TrieCommit T d1 h = (d2, ok)" by fastforce
    have "ed_Get E d2 (key_bytes k) = ed_Get E d1 (key_bytes k)"
      using assms(1,3) 2 unfolding trie_laws_def by (metis fst_conv)
    then show ?thesis using assms(2) 1 2 Some keep by (simp add: CommitState_def)
  qed
qed

lemma CommitState_length: "trie_laws E T \<Longrightarrow> CommitState T d s n = (d', Some h) \<Longrightarrow> length h = 32"
  unfolding trie_laws_def CommitState_def
  by (auto split: prod.splits option.splits if_splits) (metis snd_conv)

text \<open>A block hash that crops its input from the left keeps only the parent hash.\<close>

lemma computeBlockHash_parent:
  assumes "geth_laws g" and "length parentHash = 32"
  shows "computeBlockHash g n r ts parentHash = parentHash"
proof -
  let ?x = "u64_bytes n @ r @ u64_bytes ts"
  have "computeBlockHash g n r ts parentHash = crop_left (?x @ parentHash)"
    using geth_BytesToHash [OF assms(1)] by (simp add: computeBlockHash_def)
  then show ?thesis using assms(2) by (simp add: crop_left_def)
qed

lemma Execute_failed:
  assumes "trie_laws (lb_E B) (lb_T B)" and "ExecuteAndCommitBlock B m txs n ts ph bf = (m', skipped, Inl e)"
  shows "mg_currentBlock m' = mg_currentBlock m \<and> mg_stateRoot m' = mg_stateRoot m \<and>
    mg_l1Origin m' = mg_l1Origin m \<and>
    (\<forall>k. key_ok k \<longrightarrow> ed_Get (lb_E B) (cdb_db (mg_chainDB m')) (key_bytes k)
      = ed_Get (lb_E B) (cdb_db (mg_chainDB m)) (key_bytes k))"
proof (cases "OpenState (lb_T B) (cdb_db (mg_chainDB m)) (mg_stateRoot m)")
  case None
  then show ?thesis using assms(2) by (simp add: ExecuteAndCommitBlock_def)
next
  case (Some sdb)
  obtain sdb' results sk gas where
    2: "ExecuteTransactions (lb_L B) sdb txs (mg_exec_ctx m n ts ph bf) = (sdb', results, sk, gas)"
    by (metis prod_cases4)
  obtain disk' r where 3: "CommitState (lb_T B) (cdb_db (mg_chainDB m)) sdb' n = (disk', r)" by fastforce
  have "m' = m\<lparr>mg_chainDB := (mg_chainDB m)\<lparr>cdb_db := disk'\<rparr>\<rparr>"
    using assms(2) Some 2 3
    by (simp add: ExecuteAndCommitBlock_def Let_def split: option.splits sum.splits)
  then show ?thesis using CommitState_keeps [OF assms(1) 3] by simp
qed

lemma NewManager_fresh:
  assumes "NewManager B cid a gen disk = Inr m" and "ed_Get (lb_E B) disk keyGenesisRoot = None"
  obtains sdb sdb' h disk' where "CommitState (lb_T B) disk sdb' 0 = (disk', Some (mg_stateRoot m))"
    and "ed_Put (lb_E B) disk' keyGenesisRoot (mg_stateRoot m) = Some (cdb_db (mg_chainDB m))"
proof -
  have no: "cdb_ReadGenesisRoot (lb_E B) (lb_g B) (NewChainDB (lb_E B) disk) = Inl ErrNotFound"
    using assms(2) by (simp add: cdb_ReadGenesisRoot_def)
  obtain sdb where 1: "OpenState (lb_T B) disk zero_hash = Some sdb"
    using assms(1) no by (cases "OpenState (lb_T B) disk zero_hash") (simp_all add: NewManager_def Let_def)
  obtain r where 2: "InitializeState (lb_L B) (lb_G B) gen sdb = Inr r"
    using assms(1) no 1 by (cases "InitializeState (lb_L B) (lb_G B) gen sdb") (simp_all add: NewManager_def Let_def)
  obtain sdb' h where 3: "r = (sdb', h)" by fastforce
  obtain disk' c where 4: "CommitState (lb_T B) disk sdb' 0 = (disk', c)" by fastforce
  obtain newRoot where 5: "c = Some newRoot"
    using assms(1) no 1 2 3 4 by (cases c) (simp_all add: NewManager_def Let_def)
  obtain d where 6: "ed_Put (lb_E B) disk' keyGenesisRoot newRoot = Some d"
    using assms(1) no 1 2 3 4 5 by (cases "ed_Put (lb_E B) disk' keyGenesisRoot newRoot")
      (simp_all add: NewManager_def Let_def cdb_WriteGenesisRoot_def)
  have "mg_stateRoot m = newRoot" "cdb_db (mg_chainDB m) = d"
    using assms(1) no 1 2 3 4 5 6 by (auto simp: NewManager_def Let_def cdb_WriteGenesisRoot_def)
  then show ?thesis using that 4 5 6 by simp
qed

lemma NewManager_restore:
  assumes "geth_laws (lb_g B)" and "ed_Get (lb_E B) disk keyGenesisRoot = Some gr" and "length gr = 32"
    and "gr \<noteq> zero_hash"
  shows "\<exists>m. NewManager B cid a gen disk = Inr m \<and> mg_currentBlock m = cdb_currentBlock (NewChainDB (lb_E B) disk) \<and>
    mg_stateRoot m = cdb_stateRoot (NewChainDB (lb_E B) disk)"
proof -
  have "cdb_ReadGenesisRoot (lb_E B) (lb_g B) (NewChainDB (lb_E B) disk) = Inr gr"
    using assms(1-3) by (simp add: cdb_ReadGenesisRoot_def geth_BytesToHash)
  then show ?thesis
    using assms(4) by (simp add: NewManager_def Let_def cdb_CurrentBlock_def cdb_LatestStateRoot_def)
qed

lemma key_bytes_meta [simp]: "key_bytes KGenesisRoot = keyGenesisRoot" "key_ok KGenesisRoot"
  by simp_all

subsection \<open>An instance of the parameters\<close>

definition example_trie :: "((bytes \<rightharpoonup> bytes), ledger) trie_lib" where
  "example_trie = \<lparr>tl_New = (\<lambda>d h. Some (0, 0)), tl_Commit = (\<lambda>d s n. (d, Some (replicate 32 9))),
     tl_TrieCommit = (\<lambda>d h. (d, True))\<rparr>"

definition example_genesis_lib :: "ledger genesis_lib" where
  "example_genesis_lib = \<lparr>gl_SetCode = (\<lambda>s a c. s), gl_SetState = (\<lambda>s a k v. s),
     gl_IntermediateRoot = (\<lambda>s. (s, replicate 32 9)), gl_HexToAddress = (\<lambda>h. zero_address),
     gl_HexToHash = (\<lambda>h. zero_hash), gl_FromHex = (\<lambda>h. []),
     gl_GetCode = (\<lambda>s a. []), gl_GetState = (\<lambda>s a k. zero_hash)\<rparr>"

definition example_libs :: "l2_block \<Rightarrow> ((bytes \<rightharpoonup> bytes), ledger) libs" where
  "example_libs b = \<lparr>lb_E = mem_db, lb_C = example_codec b (example_batch 1), lb_g = example_geth,
     lb_L = example_lib 100, lb_G = example_genesis_lib, lb_T = example_trie\<rparr>"

definition empty_block :: "u64 \<Rightarrow> l2_block" where
  "empty_block n = \<lparr>bk_Header = \<lparr>hd_Number = n, hd_Hash = zero_hash, hd_ParentHash = zero_hash,
     hd_Timestamp = 0, hd_StateRoot = replicate 32 9, hd_GasUsed = 0, hd_GasLimit = 30000000,
     hd_TxCount = 0, hd_SequencerAddr = zero_address, hd_L1Origin = no_l1_origin, hd_BaseFee = Some 0\<rparr>,
     bk_Transactions = [], bk_Receipts = []\<rparr>"

definition example_manager :: "(bytes \<rightharpoonup> bytes) manager" where
  "example_manager = \<lparr>mg_chainDB = \<lparr>cdb_db = [keyGenesisRoot \<mapsto> replicate 32 9], cdb_currentBlock = 0,
     cdb_stateRoot = zero_hash\<rparr>, mg_currentBlock = 0, mg_stateRoot = replicate 32 9, mg_l1Origin = no_l1_origin,
     mg_isSequencing = True, mg_sequencerAddr = zero_address, mg_chainID = 42069\<rparr>"

lemma example_libs_fields [simp]:
  "lb_E (example_libs b) = mem_db" "lb_C (example_libs b) = example_codec b (example_batch 1)"
  "lb_g (example_libs b) = example_geth" "lb_L (example_libs b) = example_lib 100"
  "lb_G (example_libs b) = example_genesis_lib" "lb_T (example_libs b) = example_trie"
  by (simp_all add: example_libs_def)

lemma example_trie_laws: "trie_laws mem_db example_trie"
  by (simp add: trie_laws_def example_trie_def)

lemma example_execute: "\<exists>m'. ExecuteAndCommitBlock (example_libs (empty_block 1)) example_manager [] 1 0 zero_hash 0
    = (m', [], Inr (empty_block 1))"
proof -
  have h: "computeBlockHash example_geth n r 0 zero_hash = zero_hash" for n r
    by (rule computeBlockHash_parent) simp_all
  have "ExecuteTransactions L s [] ctx = (s, [], [], 0)" for L :: "ledger evm_lib" and s ctx
    by (simp add: ExecuteTransactions_def)
  then show ?thesis
    by (simp add: ExecuteAndCommitBlock_def Let_def h example_trie_def CommitState_def OpenState_def
        executed_txs_def example_manager_def block_gas_limit_def cdb_WriteBlock_def example_codec_def only_def
        mem_db_def flip: empty_block_def) (simp add: empty_block_def)
qed

subsection \<open>Committed blocks, under the laws of the libraries\<close>

definition libs_laws :: "('d, 's) libs \<Rightarrow> bool" where
  "libs_laws B \<longleftrightarrow> ethdb_laws (lb_E B) \<and> codec_laws (lb_C B) \<and> geth_laws (lb_g B) \<and> evm_gas_law (lb_L B) \<and>
     trie_laws (lb_E B) (lb_T B)"

text \<open>What a pool hands out: distinct transactions, whose declared gas does not wrap above the limit.\<close>

definition txs_ok :: "tx list \<Rightarrow> bool" where
  "txs_ok txs \<longleftrightarrow> distinct (map tx_Hash txs) \<and>
     (\<forall>t \<in> set txs. length (tx_Hash t) = 32 \<and> unat (tx_Gas t) + 30000000 < 2 ^ 64)"

lemma example_libs_laws: "libs_laws (example_libs b)"
  by (simp add: libs_laws_def mem_db_laws example_codec_laws example_gas_law example_trie_laws)

lemma block_limit_nat: "unat block_gas_limit = 30000000"
  by (simp add: block_gas_limit_def)

lemma map_enumerate_snd: "map (\<lambda>x. f (snd x)) (enumerate n xs) = map f xs"
proof -
  have "map (f \<circ> snd) (enumerate n xs) = map f xs" by (simp flip: map_map)
  then show ?thesis by (simp add: comp_def)
qed

text \<open>The accounting of the block loop, carried to the block.\<close>

lemma committed_block:
  assumes "libs_laws B" and "txs_ok txs" and "ExecuteAndCommitBlock B m txs n ts ph bf = (m', skipped, Inr b)"
  obtains marks where "length marks = length txs"
    and "map tx_Hash (bk_Transactions b) = map tx_Hash (select marks txs)"
    and "skipped = select (map Not marks) txs"
    and "map rc_TxHash (bk_Receipts b) = map tx_Hash (bk_Transactions b)"
    and "unat (hd_GasUsed (bk_Header b)) = sum_list (map (unat \<circ> rc_GasUsed) (bk_Receipts b))"
    and "unat (hd_GasUsed (bk_Header b)) \<le> 30000000"
proof -
  obtain sdb sdb' results gas disk' newRoot c' where x:
    "ExecuteTransactions (lb_L B) sdb txs (mg_exec_ctx m n ts ph bf) = (sdb', results, skipped, gas)"
    and hdr: "bk_Header b = \<lparr>hd_Number = n, hd_Hash = computeBlockHash (lb_g B) n newRoot ts ph, hd_ParentHash = ph,
      hd_Timestamp = ts, hd_StateRoot = newRoot, hd_GasUsed = gas, hd_GasLimit = block_gas_limit,
      hd_TxCount = int (length (executed_txs txs results)), hd_SequencerAddr = mg_sequencerAddr m,
      hd_L1Origin = mg_l1Origin m, hd_BaseFee = Some bf\<rparr>"
    and tr: "bk_Transactions b = executed_txs txs results"
    and rc: "bk_Receipts b = map (final_receipt (computeBlockHash (lb_g B) n newRoot ts ph) n) (enumerate 0 results)"
    by (rule Execute_ok [OF assms(3)])
  note e = x hdr tr rc
  have "\<forall>t \<in> set txs. unat (ec_GasLimit (mg_exec_ctx m n ts ph bf)) + unat (tx_Gas t) < 2 ^ 64"
    using assms(2) by (simp add: mg_exec_ctx_def block_limit_nat txs_ok_def add.commute)
  from ExecuteTransactions_ok [OF _ this e(1)] assms(1) obtain marks where k: "length marks = length txs"
    "map (\<lambda>r. rc_TxHash (er_Receipt r)) results = map tx_Hash (select marks txs)"
    "skipped = select (map Not marks) txs" "unat gas \<le> unat (ec_GasLimit (mg_exec_ctx m n ts ph bf))"
    "running 0 results" "unat gas = sum_list (map (\<lambda>r. unat (er_GasUsed r)) results)"
    by (auto simp: libs_laws_def)
  have h: "map tx_Hash (executed_txs txs results) = map (\<lambda>r. rc_TxHash (er_Receipt r)) results"
    using executed_txs_hashes [OF mask_hashes [OF k(2)]] by simp
  have r: "map rc_TxHash (bk_Receipts b) = map (\<lambda>r. rc_TxHash (er_Receipt r)) results"
    unfolding e(4) using map_enumerate_snd [of "\<lambda>r. rc_TxHash (er_Receipt r)" 0 results]
    by (simp add: comp_def)
  have "map (\<lambda>r. unat (rc_GasUsed (er_Receipt r))) results = map (\<lambda>r. unat (er_GasUsed r)) results"
    using running_gas [OF k(5)] by simp
  then have u: "map (unat \<circ> rc_GasUsed) (bk_Receipts b) = map (\<lambda>r. unat (er_GasUsed r)) results"
    unfolding e(4) using map_enumerate_snd [of "\<lambda>r. unat (rc_GasUsed (er_Receipt r))" 0 results]
    by (simp add: comp_def)
  show ?thesis
    using that [of marks] k h r e(2,3) u by (simp add: mg_exec_ctx_def block_limit_nat)
qed

lemma committed_written:
  assumes "libs_laws B" and "txs_ok txs" and "ExecuteAndCommitBlock B m txs n ts ph bf = (m', skipped, Inr b)"
  obtains disk' where "written (lb_E B) (lb_C B) b ((mg_chainDB m)\<lparr>cdb_db := disk'\<rparr>) (mg_chainDB m')"
    and "\<forall>k. key_ok k \<longrightarrow> ed_Get (lb_E B) disk' (key_bytes k) = ed_Get (lb_E B) (cdb_db (mg_chainDB m)) (key_bytes k)"
    and "mg_currentBlock m' = hd_Number (bk_Header b)" and "mg_stateRoot m' = hd_StateRoot (bk_Header b)"
proof -
  obtain sdb sdb' results gas disk' newRoot c' where cm:
    "CommitState (lb_T B) (cdb_db (mg_chainDB m)) sdb' n = (disk', Some newRoot)"
    and wr: "cdb_WriteBlock (lb_E B) (lb_C B) ((mg_chainDB m)\<lparr>cdb_db := disk'\<rparr>) b = Inr c'"
    and m': "m' = m\<lparr>mg_chainDB := c', mg_currentBlock := n, mg_stateRoot := newRoot\<rparr>"
    and hdr: "bk_Header b = \<lparr>hd_Number = n, hd_Hash = computeBlockHash (lb_g B) n newRoot ts ph, hd_ParentHash = ph,
      hd_Timestamp = ts, hd_StateRoot = newRoot, hd_GasUsed = gas, hd_GasLimit = block_gas_limit,
      hd_TxCount = int (length (executed_txs txs results)), hd_SequencerAddr = mg_sequencerAddr m,
      hd_L1Origin = mg_l1Origin m, hd_BaseFee = Some bf\<rparr>"
    by (rule Execute_ok [OF assms(3)])
  have laws: "trie_laws (lb_E B) (lb_T B)" "geth_laws (lb_g B)" "ethdb_laws (lb_E B)" "codec_laws (lb_C B)"
    using assms(1) by (simp_all add: libs_laws_def)
  obtain marks where k: "length marks = length txs"
    "map tx_Hash (bk_Transactions b) = map tx_Hash (select marks txs)"
    "map rc_TxHash (bk_Receipts b) = map tx_Hash (bk_Transactions b)"
    by (rule committed_block [OF assms])
  have d: "distinct (map tx_Hash (select marks txs)) \<and> (\<forall>h \<in> set (map tx_Hash (select marks txs)). length h = 32)"
    using assms(2) select_subset [of marks txs] distinct_select [of tx_Hash txs marks] by (auto simp: txs_ok_def)
  have inj: "inj_on f (set xs)" if "map f xs = map tx_Hash (select marks txs)" for f :: "'z \<Rightarrow> hash" and xs
    using d that by (metis distinct_map)
  have len: "\<forall>x \<in> set xs. length (f x) = 32" if "map f xs = map tx_Hash (select marks txs)" for f :: "'z \<Rightarrow> hash" and xs
    using d that by (metis image_eqI set_map)
  have root: "length newRoot = 32" by (rule CommitState_length [OF laws(1) cm])
  have hash: "length (computeBlockHash (lb_g B) n newRoot ts ph) = 32"
    by (simp add: computeBlockHash_def geth_BytesToHash [OF laws(2)])
  have "block_wf b"
    using inj [OF k(2)] len [OF k(2)] inj [of rc_TxHash "bk_Receipts b"] len [of rc_TxHash "bk_Receipts b"] k(2,3)
    by (simp add: block_wf_def hdr root hash)
  then have "written (lb_E B) (lb_C B) b ((mg_chainDB m)\<lparr>cdb_db := disk'\<rparr>) (mg_chainDB m')"
    using laws wr by (simp add: written_def m')
  then show ?thesis
    using that CommitState_keeps [OF laws(1) cm] by (simp add: m' hdr)
qed

lemma WriteBlock_genesis:
  assumes "written E C b c c'"
  shows "ed_Get E (cdb_db c') keyGenesisRoot = ed_Get E (cdb_db c) keyGenesisRoot"
proof -
  have "KGenesisRoot \<notin> fst ` set (block_kops C b)"
    by (auto simp: block_kops_def Let_def tx_kops_def receipt_kops_def)
  then show ?thesis using WriteBlock_miss [of E b C c c' KGenesisRoot] assms by (simp add: written_def)
qed

text \<open>A committed block can be looked up, by its number and by the hashes it holds.\<close>

lemma committed_lookups:
  assumes "libs_laws B" and "txs_ok txs" and "ExecuteAndCommitBlock B m txs n ts ph bf = (m', skipped, Inr b)"
  shows "mg_GetBlock B m' n = Some b \<and> mg_GetBlockHash B m' n = hd_Hash (bk_Header b) \<and>
    (\<forall>t \<in> set (bk_Transactions b). mg_GetTransaction B m' (tx_Hash t) = Some t \<and>
       mg_GetTxBlockNumber B m' (tx_Hash t) = (n, True)) \<and>
    (\<forall>r \<in> set (bk_Receipts b). mg_GetReceipt B m' (rc_TxHash r) = Some r)"
proof -
  obtain disk' where w: "written (lb_E B) (lb_C B) b ((mg_chainDB m)\<lparr>cdb_db := disk'\<rparr>) (mg_chainDB m')"
    by (rule committed_written [OF assms])
  have n: "hd_Number (bk_Header b) = n" by (rule Execute_ok [OF assms(3)]) simp
  show ?thesis
    using ReadBlock_written [OF w] ReadTransaction_written [OF w] ReadReceipt_written [OF w] n
    by (simp add: mg_GetBlock_def mg_GetBlockHash_def cdb_ReadBlockHash_def mg_GetTransaction_def mg_GetTxBlockNumber_def
        mg_GetReceipt_def)
qed

subsection \<open>The genesis allocation\<close>

text \<open>The sum of the balances that parse.\<close>

definition alloc_sum :: "(string \<times> genesis_account) list \<Rightarrow> int" where
  "alloc_sum alloc = sum_list (map (\<lambda>(a, acc). case big_SetString0 (ga_Balance acc) of None \<Rightarrow> 0 | Some v \<Rightarrow> v) alloc)"

definition alloc_ok :: "(string \<times> genesis_account) list \<Rightarrow> bool" where
  "alloc_ok alloc \<longleftrightarrow> (\<forall>(a, acc) \<in> set alloc. case big_SetString0 (ga_Balance acc) of None \<Rightarrow> False | Some v \<Rightarrow> 0 \<le> v)"

text \<open>Code, storage and the root computation leave the balances alone.\<close>

definition genesis_laws :: "'s genesis_lib \<Rightarrow> ('s \<Rightarrow> int) \<Rightarrow> bool" where
  "genesis_laws G supply \<longleftrightarrow> (\<forall>s a c. supply (gl_SetCode G s a c) = supply s) \<and>
     (\<forall>s a k v. supply (gl_SetState G s a k v) = supply s) \<and>
     (\<forall>s. supply (fst (gl_IntermediateRoot G s)) = supply s)"

lemma init_account_supply:
  assumes "supply_laws L supply" and "genesis_laws G supply" and "0 \<le> v" and "supply s + v < 2 ^ 256"
    and "0 \<le> supply s"
  shows "supply (init_account L G s a v acc) = supply s + v"
proof -
  have st: "supply (fold (\<lambda>(k, v) s. gl_SetState G s a (gl_HexToHash G k) (gl_HexToHash G v)) kvs s0) = supply s0"
    for kvs s0
    using assms(2) by (induction kvs arbitrary: s0) (auto simp: genesis_laws_def)
  have "supply (sd_AddBalance L s a (from_big v)) = supply s + v"
    using assms by (simp add: supply_laws_def from_big_exact)
  then show ?thesis
    using assms(1,2) by (simp add: init_account_def Let_def st supply_laws_def genesis_laws_def)
qed

lemma init_accounts_supply:
  assumes "supply_laws L supply" and "genesis_laws G supply" and "alloc_ok alloc"
    and "supply s + alloc_sum alloc < 2 ^ 256" and "0 \<le> supply s"
  shows "\<exists>s'. init_accounts L G s alloc = Inr s' \<and> supply s' = supply s + alloc_sum alloc"
  using assms(3-5)
proof (induction alloc arbitrary: s)
  case Nil
  then show ?case by (simp add: alloc_sum_def)
next
  case (Cons x alloc)
  obtain a acc where x: "x = (a, acc)" by fastforce
  obtain v where v: "big_SetString0 (ga_Balance acc) = Some v" "0 \<le> v"
    using Cons.prems(1) by (auto simp: alloc_ok_def x split: option.splits)
  have ok: "alloc_ok alloc" using Cons.prems(1) by (simp add: alloc_ok_def)
  have "0 \<le> alloc_sum alloc"
    unfolding alloc_sum_def using ok
    by (intro sum_list_nonneg) (fastforce simp: alloc_ok_def split: option.splits)
  moreover have sum: "alloc_sum (x # alloc) = v + alloc_sum alloc" by (simp add: alloc_sum_def x v)
  moreover have s1: "supply (init_account L G s (gl_HexToAddress G a) v acc) = supply s + v"
    using assms(1,2) v(2) Cons.prems(2,3) calculation by (intro init_account_supply) auto
  ultimately show ?case
    using Cons.IH [OF ok, of "init_account L G s (gl_HexToAddress G a) v acc"] Cons.prems(2,3) v by (simp add: x add.assoc)
qed

lemma init_accounts_error:
  "(\<exists>e. init_accounts L G s alloc = Inl e) \<longleftrightarrow> (\<exists>(a, acc) \<in> set alloc. big_SetString0 (ga_Balance acc) = None)"
proof (induction alloc arbitrary: s)
  case (Cons x alloc)
  obtain a acc where x: "x = (a, acc)" by fastforce
  show ?case
  proof (cases "big_SetString0 (ga_Balance acc)")
    case (Some v)
    then show ?thesis using Cons.IH by (simp add: x)
  qed (simp add: x)
qed simp

lemma default_balances:
  "big_SetString0 ''0x21E19E0C9BAB2400000'' = Some (10 ^ 22)" "big_SetString0 ''0x152D02C7E14AF6800000'' = Some (10 ^ 23)"
  by (simp_all add: big_SetString0_def parse_nat0_def digit_value_def)

lemma default_alloc: "alloc_ok (gn_Alloc DefaultGenesis)" "alloc_sum (gn_Alloc DefaultGenesis) = 13 * 10 ^ 22"
  by (simp_all add: alloc_ok_def alloc_sum_def DefaultGenesis_def funded_def default_balances)

lemma example_genesis_laws: "genesis_laws example_genesis_lib (\<lambda>s. uint (fst s))"
  by (simp add: genesis_laws_def example_genesis_lib_def)

lemma example_new_manager:
  obtains m where "NewManager (example_libs b) 42069 zero_address DefaultGenesis Map.empty = Inr m"
    and "mg_stateRoot m = replicate 32 9" and "cdb_db (mg_chainDB m) = [keyGenesisRoot \<mapsto> replicate 32 9]"
proof -
  obtain s' where "init_accounts (example_lib 100) example_genesis_lib (0, 0) (gn_Alloc DefaultGenesis) = Inr s'"
    using init_accounts_supply [OF example_supply [of 100] example_genesis_laws default_alloc(1), of "(0, 0)"]
      default_alloc(2) by auto
  then show ?thesis
    using that by (simp add: NewManager_def Let_def cdb_ReadGenesisRoot_def mem_db_def OpenState_def example_trie_def
        InitializeState_def CommitState_def cdb_WriteGenesisRoot_def example_genesis_lib_def NewChainDB_def)
qed

subsection \<open>Properties\<close>





text \<open>The genesis state holds exactly the money of the allocation: every account's balance is credited
  once, and code, storage and nonces change none. For the default genesis that is 130,000 units of
  10^18.\<close>

theorem genesis_supply:
  assumes "supply_laws L supply" and "genesis_laws G supply" and "alloc_ok (gn_Alloc gen)"
    and "supply s + alloc_sum (gn_Alloc gen) < 2 ^ 256" and "0 \<le> supply s"
  shows "\<exists>s' r. InitializeState L G gen s = Inr (s', r) \<and> supply s' = supply s + alloc_sum (gn_Alloc gen)"
proof -
  obtain s' where s': "init_accounts L G s (gn_Alloc gen) = Inr s'" "supply s' = supply s + alloc_sum (gn_Alloc gen)"
    using init_accounts_supply [OF assms] by blast
  moreover obtain s2 r where "gl_IntermediateRoot G s' = (s2, r)" by fastforce
  moreover from this have "supply s2 = supply s'" using assms(2) unfolding genesis_laws_def by (metis fst_conv)
  ultimately show ?thesis by (simp add: InitializeState_def)
qed

lemma genesis_supply_witness:
  "\<exists>s' r. InitializeState (example_lib 100) example_genesis_lib DefaultGenesis (0, 0) = Inr (s', r) \<and>
    uint (fst s') = 130000 * 10 ^ 18"
  using genesis_supply [OF example_supply example_genesis_laws default_alloc(1), of "(0, 0)"] default_alloc(2) by auto

text \<open>A node that stops before its first block and starts again loses its genesis state: the start
  finds the genesis root and takes the latest block's state root, which no block has written, so it
  continues on the empty state (root zero) instead of the committed genesis root.\<close>

theorem restart_before_first_block:
  assumes "libs_laws B" and "ed_Get (lb_E B) disk keyGenesisRoot = None"
    and "ed_Get (lb_E B) disk keyLatestRoot = None" and "ed_Get (lb_E B) disk keyCurrentBlock = None"
    and "NewManager B cid a gen disk = Inr m" and "mg_stateRoot m \<noteq> zero_hash"
  shows "\<exists>m'. NewManager B cid a gen (cdb_db (mg_chainDB m)) = Inr m' \<and> mg_currentBlock m' = 0 \<and>
    mg_stateRoot m' = zero_hash"
proof -
  let ?E = "lb_E B"
  have laws: "geth_laws (lb_g B)" "ethdb_laws ?E" "trie_laws ?E (lb_T B)" using assms(1) by (simp_all add: libs_laws_def)
  obtain sdb' disk' where c: "CommitState (lb_T B) disk sdb' 0 = (disk', Some (mg_stateRoot m))"
    and p: "ed_Put ?E disk' keyGenesisRoot (mg_stateRoot m) = Some (cdb_db (mg_chainDB m))"
    by (rule NewManager_fresh [OF assms(5,2)])
  let ?d = "cdb_db (mg_chainDB m)"
  have root: "ed_Get ?E ?d keyGenesisRoot = Some (mg_stateRoot m)" using ed_Put_get [OF laws(2) p] by simp
  have "ed_Get ?E ?d (key_bytes k) = ed_Get ?E disk (key_bytes k)" if "k \<in> {KLatestRoot, KCurrentBlock}" for k
    using ed_Put_get [OF laws(2) p] CommitState_keeps [OF laws(3) c, of k] that by (auto simp: key_defs)
  from this [of KLatestRoot] this [of KCurrentBlock]
  have none: "ed_Get ?E ?d keyLatestRoot = None" "ed_Get ?E ?d keyCurrentBlock = None" using assms(3,4) by simp_all
  show ?thesis
    using NewManager_restore [OF laws(1) root CommitState_length [OF laws(3) c] assms(6), of cid a gen] none
    by (auto simp: NewChainDB_def)
qed

lemma restart_before_first_block_witness:
  "\<exists>m m'. NewManager (example_libs (empty_block 1)) 42069 zero_address DefaultGenesis Map.empty = Inr m \<and>
    mg_stateRoot m \<noteq> zero_hash \<and>
    NewManager (example_libs (empty_block 1)) 42069 zero_address DefaultGenesis (cdb_db (mg_chainDB m)) = Inr m' \<and>
    mg_stateRoot m' = zero_hash"
proof -
  obtain m where m: "NewManager (example_libs (empty_block 1)) 42069 zero_address DefaultGenesis Map.empty = Inr m"
    "mg_stateRoot m = replicate 32 9"
    by (rule example_new_manager)
  have z: "mg_stateRoot m \<noteq> zero_hash" by (simp add: m zero_hash_def)
  show ?thesis
    using restart_before_first_block [OF example_libs_laws _ _ _ m(1) z] m(1) z by (auto simp: mem_db_def)
qed

text \<open>A node that stops after committing a block continues where it was: opening the database again
  gives a manager with the block's number and state root, which finds the block, its transactions and
  its receipts.\<close>

theorem restart_after_block:
  assumes "libs_laws B" and "txs_ok txs" and "ExecuteAndCommitBlock B m txs n ts ph bf = (m', skipped, Inr b)"
    and "ed_Get (lb_E B) (cdb_db (mg_chainDB m)) keyGenesisRoot = Some gr" and "length gr = 32" and "gr \<noteq> zero_hash"
  shows "\<exists>m2. NewManager B cid a gen (cdb_db (mg_chainDB m')) = Inr m2 \<and> mg_currentBlock m2 = mg_currentBlock m' \<and>
    mg_stateRoot m2 = mg_stateRoot m' \<and> mg_GetBlock B m' n = Some b \<and>
    (\<forall>t \<in> set (bk_Transactions b). mg_GetTransaction B m' (tx_Hash t) = Some t \<and>
       mg_GetTxBlockNumber B m' (tx_Hash t) = (n, True)) \<and>
    (\<forall>r \<in> set (bk_Receipts b). mg_GetReceipt B m' (rc_TxHash r) = Some r)"
proof -
  obtain disk' where w: "written (lb_E B) (lb_C B) b ((mg_chainDB m)\<lparr>cdb_db := disk'\<rparr>) (mg_chainDB m')"
    and keep: "\<forall>k. key_ok k \<longrightarrow>
      ed_Get (lb_E B) disk' (key_bytes k) = ed_Get (lb_E B) (cdb_db (mg_chainDB m)) (key_bytes k)"
    and tip: "mg_currentBlock m' = hd_Number (bk_Header b)" "mg_stateRoot m' = hd_StateRoot (bk_Header b)"
    by (rule committed_written [OF assms(1-3)])
  have gr: "ed_Get (lb_E B) (cdb_db (mg_chainDB m')) keyGenesisRoot = Some gr"
    using WriteBlock_genesis [OF w] keep [rule_format, of KGenesisRoot] assms(4) by simp
  have n: "hd_Number (bk_Header b) = n" by (rule Execute_ok [OF assms(3)]) simp
  have wr: "cdb_WriteBlock (lb_E B) (lb_C B) ((mg_chainDB m)\<lparr>cdb_db := disk'\<rparr>) b = Inr (mg_chainDB m')"
    using w by (simp add: written_def)
  note WriteBlock_ok(2,3) [OF wr]
  moreover obtain m2 where "NewManager B cid a gen (cdb_db (mg_chainDB m')) = Inr m2"
    "mg_currentBlock m2 = cdb_currentBlock (mg_chainDB m')" "mg_stateRoot m2 = cdb_stateRoot (mg_chainDB m')"
    using NewManager_restore [OF _ gr assms(5,6), of cid a gen] assms(1) NewChainDB_written [OF w]
    by (auto simp: libs_laws_def)
  ultimately show ?thesis
    using committed_lookups [OF assms(1-3)] tip n by simp
qed

lemma restart_after_block_witness:
  "\<exists>m' m2. ExecuteAndCommitBlock (example_libs (empty_block 1)) example_manager [] 1 0 zero_hash 0
      = (m', [], Inr (empty_block 1)) \<and>
    NewManager (example_libs (empty_block 1)) 42069 zero_address DefaultGenesis (cdb_db (mg_chainDB m')) = Inr m2 \<and>
    mg_currentBlock m2 = mg_currentBlock m' \<and> mg_GetBlock (example_libs (empty_block 1)) m' 1 = Some (empty_block 1)"
proof -
  obtain m' where x: "ExecuteAndCommitBlock (example_libs (empty_block 1)) example_manager [] 1 0 zero_hash 0
      = (m', [], Inr (empty_block 1))" using example_execute by blast
  have "ed_Get (lb_E (example_libs (empty_block 1))) (cdb_db (mg_chainDB example_manager)) keyGenesisRoot
      = Some (replicate 32 9)" by (simp add: example_manager_def mem_db_def)
  from restart_after_block [OF example_libs_laws _ x this, of 42069 zero_address DefaultGenesis]
  show ?thesis using x by (auto simp: txs_ok_def zero_hash_def)
qed

text \<open>C22. When a block cannot be produced, the manager's number, state root and L1 origin are unchanged,
  and every block, transaction, receipt and batch that could be read can still be read.\<close>

theorem failed_block_changes_nothing:
  assumes "trie_laws (lb_E B) (lb_T B)" and "ExecuteAndCommitBlock B m txs n ts ph bf = (m', skipped, Inl e)"
    and "length h = 32"
  shows "mg_currentBlock m' = mg_currentBlock m \<and> mg_stateRoot m' = mg_stateRoot m \<and> mg_l1Origin m' = mg_l1Origin m \<and>
    mg_GetBlock B m' i = mg_GetBlock B m i \<and> mg_GetTransaction B m' h = mg_GetTransaction B m h \<and>
    mg_GetReceipt B m' h = mg_GetReceipt B m h \<and> mg_GetTxBlockNumber B m' h = mg_GetTxBlockNumber B m h \<and>
    cdb_ReadBatch (lb_E B) (lb_C B) (mg_chainDB m') i = cdb_ReadBatch (lb_E B) (lb_C B) (mg_chainDB m) i"
proof -
  note f = Execute_failed [OF assms(1,2)]
  then have keep: "ed_Get (lb_E B) (cdb_db (mg_chainDB m')) (key_bytes k) = ed_Get (lb_E B) (cdb_db (mg_chainDB m)) (key_bytes k)"
    if "key_ok k" for k using that by blast
  show ?thesis
    using f keep [of "KBlock i"] keep [of "KTx h"] keep [of "KReceipt h"] keep [of "KTxBlock h"] keep [of "KBatch i"] assms(3)
    by (simp add: mg_GetBlock_def mg_GetTransaction_def mg_GetReceipt_def mg_GetTxBlockNumber_def cdb_ReadBlock_def
        cdb_ReadTransaction_def cdb_ReadReceipt_def cdb_ReadTxBlockNumber_def cdb_ReadBatch_def)
qed

lemma failed_block_changes_nothing_witness:
  "\<exists>m'. ExecuteAndCommitBlock ((example_libs (empty_block 1))\<lparr>lb_T := example_trie\<lparr>tl_Commit := \<lambda>d s n. (d, None)\<rparr>\<rparr>)
      example_manager [] 1 0 zero_hash 0 = (m', [], Inl ErrCommitState) \<and> mg_stateRoot m' = replicate 32 9"
proof -
  let ?B = "(example_libs (empty_block 1))\<lparr>lb_T := example_trie\<lparr>tl_Commit := \<lambda>d s n. (d, None)\<rparr>\<rparr>"
  have laws: "trie_laws (lb_E ?B) (lb_T ?B)" by (simp add: trie_laws_def example_trie_def)
  have "ExecuteTransactions L s [] ctx = (s, [], [], 0)" for L :: "ledger evm_lib" and s ctx
    by (simp add: ExecuteTransactions_def)
  then obtain m' where x: "ExecuteAndCommitBlock ?B example_manager [] 1 0 zero_hash 0 = (m', [], Inl ErrCommitState)"
    by (simp add: ExecuteAndCommitBlock_def example_trie_def CommitState_def OpenState_def)
  have z: "length zero_hash = 32" by (simp add: zero_hash_def)
  show ?thesis
    using failed_block_changes_nothing [OF laws x z, of 0] x by (simp add: example_manager_def)
qed

end
