(* ===== verification/Go_Heap.thy ===== *)
theory Go_Heap
  imports Prelude
begin

section \<open>The binary heap of container/heap\<close>

text \<open>
  The operations of Go's standard package \<open>container/heap\<close> as the transaction queue uses them,
  on the slice that holds the heap: \<open>up\<close>, \<open>down\<close>, \<open>Init\<close>, \<open>Push\<close>, \<open>Pop\<close> and \<open>Remove\<close>,
  parameterised by the comparison \<open>before\<close> (the method \<open>Less\<close>). The locale \<open>heap_less\<close> is the contract of the
  comparison: a strict weak order on the elements that satisfy \<open>ok\<close> (a float that may be NaN is
  ordered on the numbers only). Inside it: every operation keeps the heap order and the multiset
  of the elements, and \<open>Pop\<close> takes a first element.
\<close>

subsection \<open>Operations\<close>

function heap_up :: "('a \<Rightarrow> 'a \<Rightarrow> bool) \<Rightarrow> 'a list \<Rightarrow> nat \<Rightarrow> 'a list" where
  "heap_up before h j = (let i = (j - 1) div 2 in
     if i = j \<or> \<not> before (h ! j) (h ! i) then h else heap_up before (exchange h i j) i)"
  by pat_completeness auto
termination
  by (relation "measure (\<lambda>(before, h, j). j)") auto

text \<open>\<open>down\<close> returns the slice and the index where the element came to rest.\<close>

function heap_down :: "('a \<Rightarrow> 'a \<Rightarrow> bool) \<Rightarrow> 'a list \<Rightarrow> nat \<Rightarrow> nat \<Rightarrow> 'a list \<times> nat" where
  "heap_down before h i n = (let j1 = 2 * i + 1 in
     if n \<le> j1 then (h, i)
     else let j = (if j1 + 1 < n \<and> before (h ! (j1 + 1)) (h ! j1) then j1 + 1 else j1) in
       if \<not> before (h ! j) (h ! i) then (h, i) else heap_down before (exchange h i j) j n)"
  by pat_completeness auto
termination
  by (relation "measure (\<lambda>(before, h, i, n). n - i)") (auto split: if_splits)

declare heap_up.simps [simp del] heap_down.simps [simp del]

fun heap_init_from :: "('a \<Rightarrow> 'a \<Rightarrow> bool) \<Rightarrow> 'a list \<Rightarrow> nat \<Rightarrow> 'a list" where
  "heap_init_from before h 0 = h"
| "heap_init_from before h (Suc i) = heap_init_from before (fst (heap_down before h i (length h))) i"

definition heap_init :: "('a \<Rightarrow> 'a \<Rightarrow> bool) \<Rightarrow> 'a list \<Rightarrow> 'a list" where
  "heap_init before h = heap_init_from before h (length h div 2)"

definition heap_push :: "('a \<Rightarrow> 'a \<Rightarrow> bool) \<Rightarrow> 'a list \<Rightarrow> 'a \<Rightarrow> 'a list" where
  "heap_push before h x = heap_up before (h @ [x]) (length h)"

text \<open>On an empty slice Go's \<open>Pop\<close> panics; every caller checks the length first.\<close>

definition heap_pop :: "('a \<Rightarrow> 'a \<Rightarrow> bool) \<Rightarrow> 'a list \<Rightarrow> 'a \<times> 'a list" where
  "heap_pop before h = (let n = length h - 1; h' = fst (heap_down before (exchange h 0 n) 0 n) in
     (last h', butlast h'))"

definition heap_remove :: "('a \<Rightarrow> 'a \<Rightarrow> bool) \<Rightarrow> 'a list \<Rightarrow> nat \<Rightarrow> 'a \<times> 'a list" where
  "heap_remove before h i = (let n = length h - 1;
     h' = (if n \<noteq> i then
             (case heap_down before (exchange h i n) i n of
                (h1, k) \<Rightarrow> if i < k then h1 else heap_up before h1 i)
           else h) in
     (last h', butlast h'))"

subsection \<open>Facts that hold for every comparison\<close>

text \<open>The parent of a cell, and the child that \<open>down\<close> compares with.\<close>

definition heap_parent :: "nat \<Rightarrow> nat" where
  "heap_parent j = (j - 1) div 2"

definition heap_child :: "('a \<Rightarrow> 'a \<Rightarrow> bool) \<Rightarrow> 'a list \<Rightarrow> nat \<Rightarrow> nat \<Rightarrow> nat" where
  "heap_child before h i n =
     (if 2 * i + 2 < n \<and> before (h ! (2 * i + 2)) (h ! (2 * i + 1)) then 2 * i + 2 else 2 * i + 1)"

lemma heap_parent_less [simp]: "0 < j \<Longrightarrow> heap_parent j < j"
  by (auto simp: heap_parent_def)

lemma heap_parent_eq: "0 < c \<Longrightarrow> heap_parent c = i \<longleftrightarrow> c = 2 * i + 1 \<or> c = 2 * i + 2"
  by (auto simp: heap_parent_def)

lemma heap_child_bounds:
  "2 * i + 1 < n \<Longrightarrow> i < heap_child before h i n \<and> heap_child before h i n < n
     \<and> heap_parent (heap_child before h i n) = i"
  by (auto simp: heap_child_def heap_parent_def)

lemma heap_up_eq: "heap_up before h j =
    (if j = 0 \<or> \<not> before (h ! j) (h ! heap_parent j) then h
     else heap_up before (exchange h (heap_parent j) j) (heap_parent j))"
proof (cases "j = 0")
  case True
  then show ?thesis by (simp add: heap_up.simps)
next
  case False
  then have "(j - 1) div 2 \<noteq> j" by linarith
  with False show ?thesis by (subst heap_up.simps) (simp add: Let_def heap_parent_def)
qed

lemma heap_down_eq: "heap_down before h i n =
    (let c = heap_child before h i n in
     if n \<le> 2 * i + 1 \<or> \<not> before (h ! c) (h ! i) then (h, i)
     else heap_down before (exchange h i c) c n)"
  by (subst heap_down.simps) (simp add: Let_def heap_child_def)

lemma heap_up_induct [case_names step]:
  assumes "\<And>h j. (0 < j \<Longrightarrow> before (h ! j) (h ! heap_parent j) \<Longrightarrow>
      P (exchange h (heap_parent j) j) (heap_parent j)) \<Longrightarrow> P h j"
  shows "P h j"
proof (induction j arbitrary: h rule: less_induct)
  case (less j)
  show ?case by (rule assms) (rule less.IH, simp)
qed

lemma heap_down_induct [case_names step]:
  assumes "\<And>h i. (2 * i + 1 < n \<Longrightarrow> before (h ! heap_child before h i n) (h ! i) \<Longrightarrow>
      P (exchange h i (heap_child before h i n)) (heap_child before h i n)) \<Longrightarrow> P h i"
  shows "P h i"
proof (induction "n - i" arbitrary: h i rule: less_induct)
  case less
  show ?case
  proof (rule assms)
    assume "2 * i + 1 < n"
    then have "n - heap_child before h i n < n - i" using heap_child_bounds [of i n before h] by linarith
    then show "P (exchange h i (heap_child before h i n)) (heap_child before h i n)"
      by (rule less.hyps)
  qed
qed

lemma heap_up_mset:
  "j < length h \<Longrightarrow> mset (heap_up before h j) = mset h \<and> length (heap_up before h j) = length h"
proof (induction h j rule: heap_up_induct [where before = before])
  case (step h j)
  show ?case
  proof (cases "0 < j \<and> before (h ! j) (h ! heap_parent j)")
    case True
    then have "heap_parent j < length h" using step.prems heap_parent_less [of j] by linarith
    with True step show ?thesis by (subst (1 2) heap_up_eq) simp
  next
    case False
    then show ?thesis by (subst (1 2) heap_up_eq) auto
  qed
qed

lemma heap_down_mset:
  "n \<le> length h \<Longrightarrow>
   mset (fst (heap_down before h i n)) = mset h \<and> length (fst (heap_down before h i n)) = length h"
proof (induction h i rule: heap_down_induct [where before = before and n = n])
  case (step h i)
  show ?case
  proof (cases "2 * i + 1 < n \<and> before (h ! heap_child before h i n) (h ! i)")
    case True
    then have "heap_child before h i n < length h" "i < length h"
      using step.prems heap_child_bounds [of i n before h] by auto
    with True step show ?thesis by (subst (1 2) heap_down_eq) (simp add: Let_def)
  next
    case False
    then show ?thesis by (subst (1 2) heap_down_eq) (auto simp: Let_def)
  qed
qed

lemma heap_down_ge: "i \<le> snd (heap_down before h i n)"
proof (induction h i rule: heap_down_induct [where before = before and n = n])
  case (step h i)
  then show ?case
    using heap_child_bounds [of i n before h] by (subst heap_down_eq) (fastforce simp: Let_def)
qed

lemma heap_down_stay:
  assumes "\<not> i < snd (heap_down before h i n)"
  shows "fst (heap_down before h i n) = h"
    and "2 * i + 1 < n \<Longrightarrow> \<not> before (h ! heap_child before h i n) (h ! i)"
proof -
  let ?c = "heap_child before h i n"
  have stop: "n \<le> 2 * i + 1 \<or> \<not> before (h ! ?c) (h ! i)"
  proof (rule ccontr)
    assume go: "\<not> ?thesis"
    then have "i < snd (heap_down before (exchange h i ?c) ?c n)"
      using heap_down_ge [of ?c before "exchange h i ?c" n] heap_child_bounds [of i n before h] by simp
    with assms go show False by (subst (asm) heap_down_eq) (simp add: Let_def)
  qed
  then show "fst (heap_down before h i n) = h" by (subst heap_down_eq) (simp add: Let_def)
  show "2 * i + 1 < n \<Longrightarrow> \<not> before (h ! ?c) (h ! i)" using stop by auto
qed

text \<open>The cells from \<open>n\<close> on are not touched.\<close>

lemma heap_down_beyond:
  "n \<le> k \<Longrightarrow> k < length h \<Longrightarrow> fst (heap_down before h i n) ! k = h ! k"
proof (induction h i rule: heap_down_induct [where before = before and n = n])
  case (step h i)
  show ?case
  proof (cases "2 * i + 1 < n \<and> before (h ! heap_child before h i n) (h ! i)")
    case True
    then have "heap_child before h i n < n" "i < n"
      using heap_child_bounds [of i n before h] by auto
    with True step show ?thesis by (subst heap_down_eq) (simp add: Let_def nth_exchange)
  next
    case False
    then show ?thesis by (subst heap_down_eq) (auto simp: Let_def)
  qed
qed

lemma heap_push_mset [simp]: "mset (heap_push before h x) = add_mset x (mset h)"
  using heap_up_mset [of "length h" "h @ [x]" before] by (simp add: heap_push_def)

lemma heap_push_length [simp]: "length (heap_push before h x) = Suc (length h)"
  using heap_up_mset [of "length h" "h @ [x]" before] by (simp add: heap_push_def)

lemma heap_push_set [simp]: "set (heap_push before h x) = insert x (set h)"
  by (metis heap_push_mset set_mset_add_mset_insert set_mset_mset)

subsection \<open>The contract of the comparison\<close>

text \<open>
  \<open>heap_ordered before h n\<close>: among the first \<open>n\<close> cells, no cell comes before its parent. The two
  defects are those the sift loops repair: at cell \<open>i\<close> everything holds but the relation of \<open>i\<close>
  to its children (\<open>down\<close>), or to its parent (\<open>up\<close>).
\<close>

definition heap_le :: "('a \<Rightarrow> 'a \<Rightarrow> bool) \<Rightarrow> 'a \<Rightarrow> 'a \<Rightarrow> bool" where
  "heap_le before a b \<longleftrightarrow> \<not> before b a"

definition heap_ordered :: "('a \<Rightarrow> 'a \<Rightarrow> bool) \<Rightarrow> 'a list \<Rightarrow> nat \<Rightarrow> bool" where
  "heap_ordered before h n \<longleftrightarrow>
     (\<forall>c. 0 < c \<and> c < n \<longrightarrow> heap_le before (h ! heap_parent c) (h ! c))"

definition heap_defect :: "('a \<Rightarrow> 'a \<Rightarrow> bool) \<Rightarrow> 'a list \<Rightarrow> nat \<Rightarrow> nat \<Rightarrow> bool" where
  "heap_defect before h n i \<longleftrightarrow>
     (\<forall>c. 0 < c \<and> c < n \<and> c \<noteq> i \<and> heap_parent c \<noteq> i \<longrightarrow> heap_le before (h ! heap_parent c) (h ! c)) \<and>
     (\<forall>c. 0 < c \<and> c < n \<and> heap_parent c = i \<and> 0 < i \<longrightarrow> heap_le before (h ! heap_parent i) (h ! c))"

locale heap_less =
  fixes before :: "'a \<Rightarrow> 'a \<Rightarrow> bool" and ok :: "'a \<Rightarrow> bool"
  assumes irrefl: "ok a \<Longrightarrow> \<not> before a a"
    and trans_less: "ok a \<Longrightarrow> ok b \<Longrightarrow> ok c \<Longrightarrow> before a b \<Longrightarrow> before b c \<Longrightarrow> before a c"
    and trans_le: "ok a \<Longrightarrow> ok b \<Longrightarrow> ok c \<Longrightarrow>
      heap_le before a b \<Longrightarrow> heap_le before b c \<Longrightarrow> heap_le before a c"
begin

lemma le_refl: "ok a \<Longrightarrow> heap_le before a a"
  by (simp add: heap_le_def irrefl)

lemma less_imp_le: "ok a \<Longrightarrow> ok b \<Longrightarrow> before a b \<Longrightarrow> heap_le before a b"
  unfolding heap_le_def using irrefl [of a] trans_less [of a b a] by blast

lemma le_total: "ok a \<Longrightarrow> ok b \<Longrightarrow> heap_le before a b \<or> heap_le before b a"
  using less_imp_le by (auto simp: heap_le_def)

text \<open>The root comes first.\<close>

lemma root_first:
  assumes "heap_ordered before h n" and "n \<le> length h" and "\<forall>a \<in> set h. ok a" and "c < n"
  shows "heap_le before (h ! 0) (h ! c)"
  using assms(4)
proof (induction c rule: less_induct)
  case (less c)
  show ?case
  proof (cases "c = 0")
    case True
    have "ok (h ! c)" using less.prems assms(2,3) by (simp add: nth_mem)
    with True show ?thesis by (simp add: le_refl)
  next
    case False
    then have p: "heap_parent c < c" by simp
    then have "heap_le before (h ! 0) (h ! heap_parent c)" using less by auto
    moreover have "heap_le before (h ! heap_parent c) (h ! c)"
      using assms(1) less.prems False by (simp add: heap_ordered_def)
    moreover have "ok (h ! 0)" "ok (h ! heap_parent c)" "ok (h ! c)"
      using assms(2,3) less.prems p by (auto intro!: nth_mem bspec [OF assms(3)])
    ultimately show ?thesis by (blast intro: trans_le)
  qed
qed

text \<open>The child that \<open>down\<close> picks comes before its sibling.\<close>

lemma child_first:
  assumes "\<forall>a \<in> set h. ok a" and "n \<le> length h" and "2 * i + 1 < n"
    and "0 < c" and "c < n" and "heap_parent c = i"
  shows "heap_le before (h ! heap_child before h i n) (h ! c)"
proof -
  have ok: "ok (h ! k)" if "k < n" for k using that assms(1,2) by auto
  consider "c = 2 * i + 1" | "c = 2 * i + 2" using assms(4,6) heap_parent_eq by blast
  then show ?thesis
  proof cases
    case 1
    then show ?thesis
      using ok assms(3) by (simp add: heap_child_def le_refl less_imp_le)
  next
    case 2
    then show ?thesis
      using ok assms(5) by (simp add: heap_child_def le_refl) (simp add: heap_le_def)
  qed
qed

lemma down_step:
  assumes okh: "\<forall>a \<in> set h. ok a" and n: "n \<le> length h" and i: "2 * i + 1 < n"
    and def: "heap_defect before h n i" and go: "before (h ! heap_child before h i n) (h ! i)"
  defines "j \<equiv> heap_child before h i n"
  shows "heap_defect before (exchange h i j) n j"
    and "heap_le before (exchange h i j ! heap_parent j) (exchange h i j ! j)"
proof -
  have j: "i < j" "j < n" "heap_parent j = i"
    using heap_child_bounds [OF i, of before h] by (auto simp: j_def)
  have sw: "k < n \<Longrightarrow> exchange h i j ! k = (if k = i then h ! j else if k = j then h ! i else h ! k)" for k
    using n j by (auto simp: nth_exchange)
  have okk: "k < n \<Longrightarrow> ok (h ! k)" for k using okh n by auto
  have ji: "heap_le before (h ! j) (h ! i)"
    using go okk j by (auto intro: less_imp_le simp: j_def)
  then show "heap_le before (exchange h i j ! heap_parent j) (exchange h i j ! j)"
    using j sw by simp
  show "heap_defect before (exchange h i j) n j"
    unfolding heap_defect_def
  proof (intro conjI allI impI)
    fix c assume c: "0 < c \<and> c < n \<and> c \<noteq> j \<and> heap_parent c \<noteq> j"
    have p: "heap_parent c < n" "heap_parent c < c" using c heap_parent_less [of c] by linarith+
    show "heap_le before (exchange h i j ! heap_parent c) (exchange h i j ! c)"
    proof (cases "heap_parent c = i")
      case True
      then have "heap_le before (h ! j) (h ! c)"
        using child_first [OF okh n i, of c] c by (simp add: j_def)
      with True c p j sw show ?thesis by auto
    next
      case ne: False
      show ?thesis
      proof (cases "c = i")
        case True
        have "heap_le before (h ! heap_parent i) (h ! j)"
          using def j c True by (auto simp: heap_defect_def)
        with True c p j sw show ?thesis by auto
      next
        case False
        then have "heap_le before (h ! heap_parent c) (h ! c)"
          using def c ne by (auto simp: heap_defect_def)
        with False ne c p j sw show ?thesis by auto
      qed
    qed
  next
    fix c assume c: "0 < c \<and> c < n \<and> heap_parent c = j \<and> 0 < j"
    then have "j < c" using heap_parent_less by metis
    moreover have "heap_le before (h ! j) (h ! c)"
      using def c j \<open>j < c\<close> by (auto simp: heap_defect_def)
    ultimately show "heap_le before (exchange h i j ! heap_parent j) (exchange h i j ! c)"
      using c j sw by auto
  qed
qed

text \<open>\<open>down\<close> repairs a defect towards the children.\<close>

lemma down_correct:
  assumes "\<forall>a \<in> set h. ok a" and "n \<le> length h" and "heap_defect before h n i"
    and "0 < i \<Longrightarrow> i < n \<Longrightarrow> heap_le before (h ! heap_parent i) (h ! i)"
  shows "heap_ordered before (fst (heap_down before h i n)) n"
  using assms
proof (induction h i rule: heap_down_induct [where before = before and n = n])
  case (step h i)
  let ?j = "heap_child before h i n"
  show ?case
  proof (cases "2 * i + 1 < n \<and> before (h ! ?j) (h ! i)")
    case True
    then have j: "i < ?j" "?j < n" using heap_child_bounds [of i n before h] by auto
    have "heap_ordered before (fst (heap_down before (exchange h i ?j) ?j n)) n"
      using True step j down_step [of h n i] by (intro step.IH) auto
    with True show ?thesis by (subst heap_down_eq) (simp add: Let_def)
  next
    case False
    have "heap_le before (h ! heap_parent c) (h ! c)" if c: "0 < c" "c < n" for c
    proof (cases "heap_parent c = i")
      case True
      have i1: "2 * i + 1 < n" using c heap_parent_eq [of c i] True by auto
      then have "heap_le before (h ! i) (h ! ?j)" using False by (simp add: heap_le_def)
      moreover have "heap_le before (h ! ?j) (h ! c)"
        using child_first [OF step.prems(1,2) i1 c True] .
      moreover have "ok (h ! i)" "ok (h ! ?j)" "ok (h ! c)"
        using step.prems(1,2) c i1 heap_child_bounds [OF i1, of before h]
        by (auto intro!: nth_mem bspec [OF step.prems(1)])
      ultimately show ?thesis using True by (blast intro: trans_le)
    next
      case ne: False
      then show ?thesis using step.prems(3,4) c by (cases "c = i") (auto simp: heap_defect_def)
    qed
    with False show ?thesis by (subst heap_down_eq) (auto simp: Let_def heap_ordered_def)
  qed
qed

text \<open>\<open>up\<close> repairs a defect towards the parent.\<close>

lemma up_step:
  assumes okh: "\<forall>a \<in> set h. ok a" and n: "n \<le> length h" and j: "0 < j" "j < n"
    and def: "heap_defect before h n j"
    and ch: "\<And>c. 0 < c \<Longrightarrow> c < n \<Longrightarrow> heap_parent c = j \<Longrightarrow> heap_le before (h ! j) (h ! c)"
    and go: "before (h ! j) (h ! heap_parent j)"
  defines "i \<equiv> heap_parent j"
  shows "heap_defect before (exchange h i j) n i"
    and "\<And>c. 0 < c \<Longrightarrow> c < n \<Longrightarrow> heap_parent c = i \<Longrightarrow>
      heap_le before (exchange h i j ! i) (exchange h i j ! c)"
proof -
  have i: "i < j" "i < n" using j heap_parent_less [of j] unfolding i_def by linarith+
  have sw: "k < n \<Longrightarrow> exchange h i j ! k = (if k = i then h ! j else if k = j then h ! i else h ! k)" for k
    using n j i by (auto simp: nth_exchange)
  have okk: "k < n \<Longrightarrow> ok (h ! k)" for k using okh n by (auto intro!: nth_mem bspec [OF okh])
  have ji: "heap_le before (h ! j) (h ! i)"
    using go okk j i by (auto intro: less_imp_le simp: i_def)
  have sib: "heap_le before (h ! i) (h ! c)" if "0 < c" "c < n" "heap_parent c = i" "c \<noteq> j" for c
  proof -
    have "heap_parent c \<noteq> j" using that i by simp
    then show ?thesis using def that by (auto simp: heap_defect_def)
  qed
  show "heap_le before (exchange h i j ! i) (exchange h i j ! c)"
    if c: "0 < c" "c < n" "heap_parent c = i" for c
  proof (cases "c = j")
    case True
    with ji sw i j show ?thesis by simp
  next
    case False
    have "heap_le before (h ! j) (h ! c)"
      using trans_le [OF okk [OF j(2)] okk [OF i(2)] okk [OF c(2)] ji sib [OF c False]] .
    moreover have "c \<noteq> i" using c heap_parent_less [of c] by auto
    ultimately show ?thesis using False sw c i by simp
  qed
  show "heap_defect before (exchange h i j) n i"
    unfolding heap_defect_def
  proof (intro conjI allI impI)
    fix c assume c: "0 < c \<and> c < n \<and> c \<noteq> i \<and> heap_parent c \<noteq> i"
    then have p: "heap_parent c < n" "c \<noteq> j"
      using heap_parent_less [of c] by (linarith, auto simp: i_def)
    show "heap_le before (exchange h i j ! heap_parent c) (exchange h i j ! c)"
    proof (cases "heap_parent c = j")
      case True
      have "heap_le before (h ! i) (h ! c)"
        using def c True j by (auto simp: heap_defect_def i_def)
      with True c p sw j i show ?thesis by auto
    next
      case False
      then have "heap_le before (h ! heap_parent c) (h ! c)"
        using def c p by (auto simp: heap_defect_def)
      with False c p sw show ?thesis by auto
    qed
  next
    fix c assume c: "0 < c \<and> c < n \<and> heap_parent c = i \<and> 0 < i"
    have pi: "heap_parent i < i" using c by simp
    have pj: "heap_le before (h ! heap_parent i) (h ! i)"
    proof -
      have "i \<noteq> j" "heap_parent i \<noteq> j" "0 < i" using i pi c by linarith+
      then show ?thesis using def i unfolding heap_defect_def by blast
    qed
    have ci: "c \<noteq> i" using c heap_parent_less [of c] by auto
    have "heap_le before (h ! heap_parent i) (h ! c)" if "c \<noteq> j"
      using trans_le [of "h ! heap_parent i" "h ! i" "h ! c"] okk c i pi pj sib that by auto
    with pj ci c pi i sw show "heap_le before (exchange h i j ! heap_parent i) (exchange h i j ! c)"
      by auto
  qed
qed

lemma up_correct:
  assumes "\<forall>a \<in> set h. ok a" and "n \<le> length h" and "j < n" and "heap_defect before h n j"
    and "\<And>c. 0 < c \<Longrightarrow> c < n \<Longrightarrow> heap_parent c = j \<Longrightarrow> heap_le before (h ! j) (h ! c)"
  shows "heap_ordered before (heap_up before h j) n"
  using assms
proof (induction h j rule: heap_up_induct [where before = before])
  case (step h j)
  let ?i = "heap_parent j"
  show ?case
  proof (cases "0 < j \<and> before (h ! j) (h ! ?i)")
    case True
    then have i: "?i < n" "?i < length h" "j < length h"
      using step.prems heap_parent_less [of j] by linarith+
    have "heap_ordered before (heap_up before (exchange h ?i j) ?i) n"
      using True step.prems i up_step [of h n j] by (intro step.IH) auto
    with True show ?thesis by (subst heap_up_eq) simp
  next
    case False
    have "heap_le before (h ! heap_parent c) (h ! c)" if c: "0 < c" "c < n" for c
    proof (cases "c = j")
      case True
      with False c show ?thesis by (simp add: heap_le_def)
    next
      case ne: False
      then show ?thesis
        using step.prems(4,5) c by (cases "heap_parent c = j") (auto simp: heap_defect_def)
    qed
    with False show ?thesis by (subst heap_up_eq) (auto simp: heap_ordered_def)
  qed
qed

end

subsection \<open>The operations on whole heaps\<close>

definition is_heap :: "('a \<Rightarrow> 'a \<Rightarrow> bool) \<Rightarrow> 'a list \<Rightarrow> bool" where
  "is_heap before h \<longleftrightarrow> heap_ordered before h (length h)"

lemma is_heap_nil [simp]: "is_heap before []"
  by (simp add: is_heap_def heap_ordered_def)

lemma heap_init_nil [simp]: "heap_init before [] = []"
  by (simp add: heap_init_def)

lemma heap_pop_front:
  assumes "h \<noteq> []"
  shows "fst (heap_pop before h) = h ! 0"
    and "mset h = add_mset (h ! 0) (mset (snd (heap_pop before h)))"
    and "Suc (length (snd (heap_pop before h))) = length h"
proof -
  let ?n = "length h - 1" and ?g = "exchange h 0 (length h - 1)"
  let ?d = "fst (heap_down before ?g 0 ?n)"
  have n: "0 < length h" "?n < length h" using assms by auto
  have d: "mset ?d = mset h" "length ?d = length h"
    using heap_down_mset [of ?n ?g before 0] n by auto
  have "last ?d = ?d ! ?n" using d n by (metis last_conv_nth length_greater_0_conv)
  also have "\<dots> = ?g ! ?n" using n by (intro heap_down_beyond) auto
  also have "\<dots> = h ! 0" using n by (auto simp: nth_exchange)
  finally have l: "last ?d = h ! 0" .
  then show "fst (heap_pop before h) = h ! 0" by (simp add: heap_pop_def Let_def)
  show "mset h = add_mset (h ! 0) (mset (snd (heap_pop before h)))"
  proof -
    have "?d \<noteq> []" using d n by auto
    then show ?thesis using mset_snoc_last [of ?d] l d by (simp add: heap_pop_def Let_def)
  qed
  show "Suc (length (snd (heap_pop before h))) = length h"
    using d n by (simp add: heap_pop_def Let_def)
qed

lemma heap_pop_length [simp]: "h \<noteq> [] \<Longrightarrow> length (snd (heap_pop before h)) = length h - 1"
  using heap_pop_front(3) [of h before] by simp

lemma heap_pop_set: "h \<noteq> [] \<Longrightarrow> set (snd (heap_pop before h)) \<subseteq> set h"
  using heap_pop_front(2) [of h before] by (metis set_mset_mset set_mset_add_mset_insert subset_insertI)

lemma heap_up_beyond: "j < k \<Longrightarrow> k < length h \<Longrightarrow> heap_up before h j ! k = h ! k"
proof (induction h j rule: heap_up_induct [where before = before])
  case (step h j)
  show ?case
  proof (cases "0 < j \<and> before (h ! j) (h ! heap_parent j)")
    case True
    then have "heap_parent j < j" by simp
    with True step show ?thesis by (subst heap_up_eq) (simp add: nth_exchange)
  next
    case False
    then show ?thesis by (subst heap_up_eq) auto
  qed
qed

text \<open>The slice that \<open>Remove\<close> leaves before it drops the last cell.\<close>

definition heap_remove_sift :: "('a \<Rightarrow> 'a \<Rightarrow> bool) \<Rightarrow> 'a list \<Rightarrow> nat \<Rightarrow> 'a list" where
  "heap_remove_sift before h i = (let n = length h - 1; d = heap_down before (exchange h i n) i n in
     if n = i then h else if i < snd d then fst d else heap_up before (fst d) i)"

lemma heap_remove_eq:
  "heap_remove before h i = (last (heap_remove_sift before h i), butlast (heap_remove_sift before h i))"
  by (simp add: heap_remove_def heap_remove_sift_def Let_def split: prod.split)

lemma heap_remove_sift_mset:
  assumes "i < length h"
  shows "mset (heap_remove_sift before h i) = mset h"
    and "length (heap_remove_sift before h i) = length h"
    and "heap_remove_sift before h i ! (length h - 1) = h ! i"
proof -
  let ?n = "length h - 1"
  let ?g = "exchange h i ?n"
  let ?d = "fst (heap_down before ?g i ?n)"
  have n: "i < length h" "?n < length h" "i \<noteq> ?n \<Longrightarrow> i < ?n" using assms by auto
  have d: "mset ?d = mset h" "length ?d = length h"
    using heap_down_mset [of ?n ?g before i] n by auto
  have u: "mset (heap_up before ?d i) = mset h" "length (heap_up before ?d i) = length h"
    using heap_up_mset [of i ?d before] d n by auto
  have dn: "?d ! ?n = h ! i"
    using heap_down_beyond [of ?n ?n ?g before i] n by (simp add: nth_exchange)
  have un: "heap_up before ?d i ! ?n = h ! i" if "i \<noteq> ?n"
    using heap_up_beyond [of i ?n ?d before] n that d dn by simp
  show "mset (heap_remove_sift before h i) = mset h"
    using d u by (simp add: heap_remove_sift_def Let_def)
  show "length (heap_remove_sift before h i) = length h"
    using d u by (simp add: heap_remove_sift_def Let_def)
  show "heap_remove_sift before h i ! ?n = h ! i"
    using dn un by (auto simp: heap_remove_sift_def Let_def)
qed

lemma heap_remove_at:
  assumes "i < length h"
  shows "fst (heap_remove before h i) = h ! i"
    and "mset h = add_mset (h ! i) (mset (snd (heap_remove before h i)))"
proof -
  let ?s = "heap_remove_sift before h i"
  have ne: "?s \<noteq> []" using assms heap_remove_sift_mset(2) [OF assms, of before] by auto
  then have l: "last ?s = h ! i"
    using heap_remove_sift_mset(2,3) [OF assms, of before] by (simp add: last_conv_nth)
  then show "fst (heap_remove before h i) = h ! i" by (simp add: heap_remove_eq)
  show "mset h = add_mset (h ! i) (mset (snd (heap_remove before h i)))"
    using mset_snoc_last [OF ne] l heap_remove_sift_mset(1) [OF assms, of before]
    by (simp add: heap_remove_eq)
qed

lemma heap_remove_nth:
  assumes "i < length h"
  shows "mset (snd (heap_remove before h i)) = mset (take i h @ drop (Suc i) h)"
proof -
  have "mset h = add_mset (h ! i) (mset (take i h @ drop (Suc i) h))"
    using id_take_nth_drop [OF assms] by (metis mset.simps(2) mset_append union_mset_add_mset_right)
  then show ?thesis using heap_remove_at(2) [OF assms, of before] by simp
qed

lemma heap_down_moved:
  "i < snd (heap_down before h i n) \<Longrightarrow>
   2 * i + 1 < n \<and> before (h ! heap_child before h i n) (h ! i)"
  by (subst (asm) heap_down_eq) (auto simp: Let_def split: if_splits)

lemma heap_ordered_butlast: "heap_ordered before h (length h - 1) \<Longrightarrow> is_heap before (butlast h)"
  unfolding is_heap_def heap_ordered_def
  by (metis heap_parent_less length_butlast nth_butlast order_less_trans)

context heap_less
begin

lemma push_heap:
  assumes "is_heap before h" and "\<forall>a \<in> set h. ok a" and "ok x"
  shows "is_heap before (heap_push before h x)"
proof -
  let ?g = "h @ [x]"
  have "heap_ordered before (heap_up before ?g (length h)) (length ?g)"
  proof (rule up_correct)
    show "heap_defect before ?g (length ?g) (length h)"
      unfolding heap_defect_def
    proof (intro conjI allI impI)
      fix c assume c: "0 < c \<and> c < length ?g \<and> c \<noteq> length h \<and> heap_parent c \<noteq> length h"
      then have "c < length h" "heap_parent c < c" by auto
      with assms(1) c show "heap_le before (?g ! heap_parent c) (?g ! c)"
        by (auto simp: is_heap_def heap_ordered_def nth_append)
    next
      fix c assume "0 < c \<and> c < length ?g \<and> heap_parent c = length h \<and> 0 < length h"
      then have False using heap_parent_less [of c] by auto
      then show "heap_le before (?g ! heap_parent (length h)) (?g ! c)" ..
    qed
  next
    fix c assume "0 < c" "c < length ?g" "heap_parent c = length h"
    then have False using heap_parent_less [of c] by auto
    then show "heap_le before (?g ! length h) (?g ! c)" ..
  qed (use assms in auto)
  then show ?thesis by (simp add: is_heap_def heap_push_def heap_up_mset)
qed

lemma pop_heap:
  assumes "is_heap before h" and "\<forall>a \<in> set h. ok a" and "h \<noteq> []"
  shows "is_heap before (snd (heap_pop before h))"
proof -
  let ?n = "length h - 1" and ?g = "exchange h 0 (length h - 1)"
  have n: "0 < length h" using assms(3) by simp
  have "heap_defect before ?g ?n 0"
    unfolding heap_defect_def
  proof (intro conjI allI impI)
    fix c assume c: "0 < c \<and> c < ?n \<and> c \<noteq> 0 \<and> heap_parent c \<noteq> 0"
    then have "heap_parent c < ?n" using heap_parent_less [of c] by linarith
    with c n assms(1) show "heap_le before (?g ! heap_parent c) (?g ! c)"
      by (auto simp: nth_exchange is_heap_def heap_ordered_def)
  qed simp
  then have "heap_ordered before (fst (heap_down before ?g 0 ?n)) ?n"
    using assms n by (intro down_correct) auto
  then show ?thesis
    using heap_down_mset [of ?n ?g before 0] by (auto simp: heap_pop_def Let_def intro!: heap_ordered_butlast)
qed

lemma pop_first:
  assumes "is_heap before h" and "\<forall>a \<in> set h. ok a" and "h \<noteq> []" and "b \<in> set h"
  shows "heap_le before (fst (heap_pop before h)) b"
proof -
  obtain c where "c < length h" "b = h ! c" using assms(4) by (auto simp: in_set_conv_nth)
  then show ?thesis
    using root_first [of h "length h" c] assms heap_pop_front(1) [of h before] by (simp add: is_heap_def)
qed

text \<open>Popping until the heap is empty sorts it.\<close>

lemma sorted_arrangement:
  assumes "is_heap before h" and "\<forall>a \<in> set h. ok a"
  shows "\<exists>xs. mset xs = mset h \<and> sorted_wrt (heap_le before) xs"
  using assms
proof (induction "length h" arbitrary: h)
  case 0
  then show ?case by (intro exI [of _ "[]"]) simp
next
  case (Suc n)
  then have ne: "h \<noteq> []" by auto
  let ?x = "h ! 0" and ?h = "snd (heap_pop before h)"
  have sub: "set ?h \<subseteq> set h" using heap_pop_set [OF ne] .
  obtain xs where xs: "mset xs = mset ?h" "sorted_wrt (heap_le before) xs"
    using Suc.hyps(1) [of ?h] Suc.hyps(2) Suc.prems pop_heap [of h] ne sub by fastforce
  have "\<forall>b \<in> set xs. heap_le before ?x b"
    using pop_first [OF Suc.prems ne] heap_pop_front(1) [OF ne, of before] sub mset_eq_setD [OF xs(1)] by auto
  with xs show ?case
    using heap_pop_front(2) [OF ne, of before] by (intro exI [of _ "?x # xs"]) simp
qed

text \<open>Removal puts the last element at the place \<open>i\<close>: only there the order can fail.\<close>

lemma remove_defect:
  assumes heap: "is_heap before h" and okh: "\<forall>a \<in> set h. ok a" and n: "i < length h - 1"
  shows "heap_defect before (exchange h i (length h - 1)) (length h - 1) i"
proof -
  let ?n = "length h - 1" and ?g = "exchange h i (length h - 1)"
  have n: "i < ?n" "?n < length h" using n by auto
  have hle: "heap_le before (h ! heap_parent c) (h ! c)" if "0 < c" "c < ?n" for c
    using heap that by (simp add: is_heap_def heap_ordered_def)
  have sw: "k < ?n \<Longrightarrow> k \<noteq> i \<Longrightarrow> ?g ! k = h ! k" for k using n by (simp add: nth_exchange)
  show ?thesis
    unfolding heap_defect_def
  proof (intro conjI allI impI)
    fix c assume c: "0 < c \<and> c < ?n \<and> c \<noteq> i \<and> heap_parent c \<noteq> i"
    then have "heap_parent c < ?n" using heap_parent_less [of c] by linarith
    with c sw hle show "heap_le before (?g ! heap_parent c) (?g ! c)" by simp
  next
    fix c assume c: "0 < c \<and> c < ?n \<and> heap_parent c = i \<and> 0 < i"
    then have "c \<noteq> i" "heap_parent i < i" using heap_parent_less [of c] by auto
    moreover from this have pn: "heap_parent i < ?n" "heap_parent i \<noteq> i" using n by linarith+
    moreover have "heap_le before (h ! heap_parent i) (h ! c)"
    proof (rule trans_le)
      show "heap_le before (h ! heap_parent i) (h ! i)" using hle c n by blast
      show "heap_le before (h ! i) (h ! c)" using hle c by blast
    qed (use okh c n \<open>heap_parent i < i\<close> in \<open>auto intro!: nth_mem bspec [OF okh]\<close>)
    ultimately show "heap_le before (?g ! heap_parent i) (?g ! c)"
      using sw [of c] sw [OF pn] c n by simp
  qed
qed

text \<open>Where sifting down stops at once, sifting up restores the order.\<close>

lemma stay_up:
  assumes okg: "\<forall>a \<in> set g. ok a" and n: "i < n" "n \<le> length g" and def: "heap_defect before g n i"
    and stay: "\<not> i < snd (heap_down before g i n)"
  shows "heap_ordered before (heap_up before g i) n"
proof (rule up_correct [OF okg n(2,1) def])
  fix c assume c: "0 < c" "c < n" "heap_parent c = i"
  have i1: "2 * i + 1 < n" using c heap_parent_eq [of c i] by auto
  have "heap_le before (g ! i) (g ! heap_child before g i n)"
    using heap_down_stay(2) [OF stay i1] by (simp add: heap_le_def)
  moreover have "heap_le before (g ! heap_child before g i n) (g ! c)"
    using child_first [OF okg n(2) i1 c] .
  moreover have "ok (g ! i)" "ok (g ! heap_child before g i n)" "ok (g ! c)"
    using okg n c heap_child_bounds [OF i1, of before g]
    by (auto intro!: bspec [OF okg] simp del: set_exchange)
  ultimately show "heap_le before (g ! i) (g ! c)" by (blast intro: trans_le)
qed

lemma remove_heap:
  assumes heap: "is_heap before h" and okh: "\<forall>a \<in> set h. ok a" and i: "i < length h"
  shows "is_heap before (snd (heap_remove before h i))"
proof -
  let ?n = "length h - 1"
  let ?g = "exchange h i ?n"
  let ?d = "heap_down before ?g i ?n"
  have ord: "heap_ordered before (heap_remove_sift before h i) ?n"
  proof (cases "i = ?n")
    case True
    with heap show ?thesis by (auto simp: heap_remove_sift_def Let_def is_heap_def heap_ordered_def)
  next
    case False
    then have n: "i < ?n" "?n < length h" using i by auto
    have okg: "\<forall>a \<in> set ?g. ok a" using okh n i by simp
    have def: "heap_defect before ?g ?n i" using remove_defect [OF heap okh n(1)] .
    show ?thesis
    proof (cases "i < snd ?d")
      case True
      let ?j = "heap_child before ?g i ?n"
      have mv: "2 * i + 1 < ?n" "before (?g ! ?j) (?g ! i)" using heap_down_moved [OF True] by auto
      have j: "i < ?j" "?j < ?n" using heap_child_bounds [OF mv(1), of before ?g] by auto
      have "heap_ordered before (fst (heap_down before (exchange ?g i ?j) ?j ?n)) ?n"
        using down_step [OF okg _ mv(1) def mv(2)] okg n j by (intro down_correct) auto
      then have "heap_ordered before (fst ?d) ?n"
        using mv by (subst heap_down_eq) (simp add: Let_def)
      with True False show ?thesis by (simp add: heap_remove_sift_def Let_def)
    next
      case stay: False
      have g: "fst ?d = ?g" using stay by (rule heap_down_stay)
      have "heap_ordered before (heap_up before ?g i) ?n" using n by (intro stay_up [OF okg _ _ def stay]) simp_all
      with stay False g show ?thesis by (simp add: heap_remove_sift_def Let_def)
    qed
  qed
  then show ?thesis
    using heap_remove_sift_mset(2) [OF i, of before]
    by (simp add: heap_remove_eq heap_ordered_butlast)
qed

end

end
