(* ===== verification/Tx_Queue.thy ===== *)
theory Tx_Queue
  imports Go_Heap Pkg_Types
begin

section \<open>The priority queue of transactions: internal/mempool/queue.go\<close>

text \<open>
  The comparison of \<open>txQueue\<close> (\<open>Less\<close>), under which \<open>container/heap\<close> keeps the pending
  transactions, and the draining loop that both pools run: pop the first transaction, stop and
  push it back if it does not fit into the gas limit, otherwise delete its hash from the set of
  known hashes and append it to the batch. \<open>PopBatch\<close> (mempool.go) and \<open>drainLane\<close> (lanes.go)
  differ only in the map of known hashes, so the loop takes the deletion as an argument.

  The main lemma, \<open>drain_refines\<close>: the loop takes the greedy prefix of an arrangement of the
  queue by priority, and leaves the rest in a heap.
\<close>

definition tx_less :: "tx_meta \<Rightarrow> tx_meta \<Rightarrow> bool" where
  "tx_less a b =
     (if \<not> feq (Priority a) (Priority b) then flt (Priority b) (Priority a)
      else ReceivedAt a < ReceivedAt b)"

text \<open>The queue orders every transaction whose priority is a number or an infinity.\<close>

definition ordered_meta :: "tx_meta \<Rightarrow> bool" where
  "ordered_meta m \<longleftrightarrow> Priority m \<noteq> NaN"

abbreviation tx_before_eq :: "tx_meta \<Rightarrow> tx_meta \<Rightarrow> bool" where
  "tx_before_eq \<equiv> heap_le tx_less"

text \<open>On these, \<open>Less\<close> is the lexicographic order of descending priority and ascending time.\<close>

fun f64_lt :: "f64 \<Rightarrow> f64 \<Rightarrow> bool" where
  "f64_lt (Fin x) (Fin y) = (x < y)"
| "f64_lt NInf b = (b \<noteq> NInf)"
| "f64_lt a PInf = (a \<noteq> PInf)"
| "f64_lt _ _ = False"

lemma flt_f64_lt: "a \<noteq> NaN \<Longrightarrow> b \<noteq> NaN \<Longrightarrow> flt a b = f64_lt a b"
  by (cases a; cases b) auto

lemma f64_lt_irrefl: "\<not> f64_lt a a"
  by (cases a) auto

lemma f64_lt_trans: "a \<noteq> NaN \<Longrightarrow> b \<noteq> NaN \<Longrightarrow> c \<noteq> NaN \<Longrightarrow> f64_lt a b \<Longrightarrow> f64_lt b c \<Longrightarrow> f64_lt a c"
  by (cases a; cases b; cases c) auto

lemma f64_lt_linear: "a \<noteq> NaN \<Longrightarrow> b \<noteq> NaN \<Longrightarrow> f64_lt a b \<or> a = b \<or> f64_lt b a"
  by (cases a; cases b) auto

lemma tx_less_iff:
  assumes "ordered_meta a" and "ordered_meta b"
  shows "tx_less a b \<longleftrightarrow> f64_lt (Priority b) (Priority a)
    \<or> Priority a = Priority b \<and> ReceivedAt a < ReceivedAt b"
  using assms f64_lt_irrefl by (auto simp: tx_less_def ordered_meta_def feq_def flt_f64_lt)

lemma tx_before_eq_iff:
  assumes "ordered_meta a" and "ordered_meta b"
  shows "tx_before_eq a b \<longleftrightarrow> f64_lt (Priority b) (Priority a)
    \<or> Priority a = Priority b \<and> ReceivedAt a \<le> ReceivedAt b"
proof -
  have "f64_lt (Priority a) (Priority b) \<or> Priority a = Priority b \<or> f64_lt (Priority b) (Priority a)"
    using assms by (simp add: ordered_meta_def f64_lt_linear)
  moreover have "\<not> (f64_lt (Priority a) (Priority b) \<and> f64_lt (Priority b) (Priority a))"
    using assms f64_lt_irrefl f64_lt_trans [of "Priority a" "Priority b" "Priority a"]
    by (auto simp: ordered_meta_def)
  moreover have "Priority a = Priority b \<Longrightarrow> \<not> f64_lt (Priority a) (Priority b)"
    "Priority a = Priority b \<Longrightarrow> \<not> f64_lt (Priority b) (Priority a)"
    by (simp_all add: f64_lt_irrefl)
  ultimately show ?thesis
    unfolding heap_le_def tx_less_iff [OF assms(2,1)] by (metis linorder_not_less)
qed

interpretation txq: heap_less tx_less ordered_meta
proof
  fix a b c
  assume ok: "ordered_meta a" "ordered_meta b" "ordered_meta c"
  show "\<not> tx_less a a" using ok by (simp add: tx_less_iff f64_lt_irrefl)
  show "tx_less a b \<Longrightarrow> tx_less b c \<Longrightarrow> tx_less a c"
    using ok f64_lt_trans [of "Priority c" "Priority b" "Priority a"]
    by (auto simp: tx_less_iff ordered_meta_def)
  show "tx_before_eq a b \<Longrightarrow> tx_before_eq b c \<Longrightarrow> tx_before_eq a c"
    using ok f64_lt_trans [of "Priority c" "Priority b" "Priority a"]
    by (auto simp: tx_before_eq_iff ordered_meta_def)
qed

subsection \<open>The draining loop\<close>

function drain_loop :: "(hash \<Rightarrow> 'k \<Rightarrow> 'k) \<Rightarrow> int \<Rightarrow> u64 \<Rightarrow>
    tx_meta list \<Rightarrow> 'k \<Rightarrow> tx_meta list \<Rightarrow> u64 \<Rightarrow> tx_meta list \<times> 'k \<times> tx_meta list \<times> u64" where
  "drain_loop del maxTx gasLimit q known batch gasUsed =
     (if q \<noteq> [] \<and> int (length batch) < maxTx then
        (let item = fst (heap_pop tx_less q); q1 = snd (heap_pop tx_less q); txGas = tx_Gas (Tx item) in
         if gasLimit < gasUsed + txGas then (heap_push tx_less q1 item, known, batch, gasUsed)
         else drain_loop del maxTx gasLimit q1 (del (tx_Hash (Tx item)) known) (batch @ [item])
           (gasUsed + txGas))
      else (q, known, batch, gasUsed))"
  by pat_completeness auto
termination
  by (relation "measure (\<lambda>(del, maxTx, gasLimit, q, known, batch, gasUsed). length q)") auto

declare drain_loop.simps [simp del]

text \<open>
  The specification: in a list sorted by priority, take transactions while the count and the gas
  allow it, and stop at the first that does not fit. Gas is a natural number here, without
  wrap-around.
\<close>

definition meta_gas :: "tx_meta \<Rightarrow> nat" where
  "meta_gas m = unat (tx_Gas (Tx m))"

definition meta_hash :: "tx_meta \<Rightarrow> hash" where
  "meta_hash m = tx_Hash (Tx m)"

fun greedy_prefix :: "int \<Rightarrow> nat \<Rightarrow> nat \<Rightarrow> tx_meta list \<Rightarrow> tx_meta list" where
  "greedy_prefix k cap used [] = []"
| "greedy_prefix k cap used (m # ms) =
     (if k \<le> 0 \<or> cap < used + meta_gas m then []
      else m # greedy_prefix (k - 1) cap (used + meta_gas m) ms)"

lemma greedy_prefix_none: "k \<le> 0 \<Longrightarrow> greedy_prefix k cap used ms = []"
  by (cases ms) auto

lemma greedy_prefix_prefix: "\<exists>n. greedy_prefix k cap used ms = take n ms"
proof (induction ms arbitrary: k used)
  case (Cons m ms)
  from Cons.IH obtain n where "greedy_prefix (k - 1) cap (used + meta_gas m) ms = take n ms" by blast
  then show ?case
    by (cases "k \<le> 0 \<or> cap < used + meta_gas m")
      (auto intro: exI [of _ 0] exI [of _ "Suc n"])
qed simp

lemma greedy_prefix_append: "greedy_prefix k cap used ms @ drop (length (greedy_prefix k cap used ms)) ms = ms"
  by (induction k cap used ms rule: greedy_prefix.induct) auto

lemma greedy_prefix_gas:
  "used \<le> cap \<Longrightarrow> used + sum_list (map meta_gas (greedy_prefix k cap used ms)) \<le> cap"
  by (induction k cap used ms rule: greedy_prefix.induct) (auto simp: add.assoc)

lemma greedy_prefix_length: "int (length (greedy_prefix k cap used ms)) \<le> max 0 k"
  by (induction k cap used ms rule: greedy_prefix.induct) auto

text \<open>Nothing more would have fitted: the queue is empty, the count is reached or the next is too big.\<close>

lemma greedy_prefix_maximal:
  assumes "drop (length (greedy_prefix k cap used ms)) ms = m # rest"
  shows "k \<le> int (length (greedy_prefix k cap used ms))
    \<or> cap < used + sum_list (map meta_gas (greedy_prefix k cap used ms)) + meta_gas m"
  using assms
  by (induction k cap used ms rule: greedy_prefix.induct) (auto simp: add.assoc split: if_splits)

subsection \<open>The loop meets its specification\<close>

text \<open>No sum of the loop wraps around when every transaction fits above the gas limit.\<close>

definition gas_fits :: "u64 \<Rightarrow> tx_meta list \<Rightarrow> bool" where
  "gas_fits gasLimit q \<longleftrightarrow> (\<forall>m \<in> set q. unat gasLimit + meta_gas m < 2 ^ 64)"

lemma gas_test_exact:
  fixes used lim :: u64
  assumes "unat lim + meta_gas m < 2 ^ 64" and "unat used \<le> unat lim"
  shows "lim < used + tx_Gas (Tx m) \<longleftrightarrow> unat lim < unat used + meta_gas m"
    and "unat (used + tx_Gas (Tx m)) = unat used + meta_gas m"
proof -
  show "unat (used + tx_Gas (Tx m)) = unat used + meta_gas m"
    using assms by (simp add: meta_gas_def unat_add_no_wrap)
  then show "lim < used + tx_Gas (Tx m) \<longleftrightarrow> unat lim < unat used + meta_gas m"
    by (simp add: u64_less_nat)
qed

definition drained :: "(hash \<Rightarrow> 'k \<Rightarrow> 'k) \<Rightarrow> tx_meta list \<Rightarrow> 'k \<Rightarrow> tx_meta list \<Rightarrow> nat \<Rightarrow>
    tx_meta list \<Rightarrow> tx_meta list \<Rightarrow> tx_meta list \<times> 'k \<times> tx_meta list \<times> u64 \<Rightarrow> bool" where
  "drained del q known batch used xs new r \<longleftrightarrow> (case r of (q', known', batch', used') \<Rightarrow>
     mset xs = mset q \<and> sorted_wrt tx_before_eq xs \<and> batch' = batch @ new \<and>
     mset q' = mset (drop (length new) xs) \<and> is_heap tx_less q' \<and>
     known' = fold del (map meta_hash new) known \<and>
     unat used' = used + sum_list (map meta_gas new))"

lemma drain_refines:
  assumes "is_heap tx_less q" and "\<forall>m \<in> set q. ordered_meta m" and "gas_fits gasLimit q"
    and "unat gasUsed \<le> unat gasLimit"
  shows "\<exists>xs. drained del q known batch (unat gasUsed) xs
      (greedy_prefix (maxTx - int (length batch)) (unat gasLimit) (unat gasUsed) xs)
      (drain_loop del maxTx gasLimit q known batch gasUsed)"
  using assms
proof (induction del maxTx gasLimit q known batch gasUsed rule: drain_loop.induct)
  case (1 del maxTx gasLimit q known batch gasUsed)
  obtain ys where ys: "mset ys = mset q" "sorted_wrt tx_before_eq ys"
    using txq.sorted_arrangement 1(2,3) by blast
  show ?case
  proof (cases "q \<noteq> [] \<and> int (length batch) < maxTx")
    case False
    then have "greedy_prefix (maxTx - int (length batch)) (unat gasLimit) (unat gasUsed) ys = []"
      using ys(1) by (auto intro: greedy_prefix_none)
    with False ys 1(2) show ?thesis
      by (intro exI [of _ ys]) (auto simp: drained_def drain_loop.simps [of del])
  next
    case True
    let ?m = "fst (heap_pop tx_less q)" and ?q1 = "snd (heap_pop tx_less q)"
    have ne: "q \<noteq> []" and k: "0 < maxTx - int (length batch)" using True by auto
    have q1: "mset q = add_mset ?m (mset ?q1)" "set ?q1 \<subseteq> set q" "?m \<in> set q"
      using heap_pop_front(1,2) [OF ne, of tx_less] heap_pop_set [OF ne] ne
      by (auto simp: heap_pop_front(1))
    have h1: "is_heap tx_less ?q1" using txq.pop_heap 1(2,3) ne by blast
    have first: "\<forall>b \<in> set ?q1. tx_before_eq ?m b" using txq.pop_first 1(2,3) ne q1(2) by blast
    have ok1: "\<forall>m \<in> set ?q1. ordered_meta m" "gas_fits gasLimit ?q1" "ordered_meta ?m"
      using 1(3,4) q1 by (auto simp: gas_fits_def)
    have fit: "unat gasLimit + meta_gas ?m < 2 ^ 64" using 1(4) q1(3) by (simp add: gas_fits_def)
    note test = gas_test_exact [OF fit 1(5)]
    show ?thesis
    proof (cases "gasLimit < gasUsed + tx_Gas (Tx ?m)")
      case big: True
      obtain zs where zs: "mset zs = mset ?q1" "sorted_wrt tx_before_eq zs"
        using txq.sorted_arrangement h1 ok1(1) by blast
      have "greedy_prefix (maxTx - int (length batch)) (unat gasLimit) (unat gasUsed) (?m # zs) = []"
        using big test by simp
      moreover have "is_heap tx_less (heap_push tx_less ?q1 ?m)"
        using txq.push_heap h1 ok1 by blast
      ultimately show ?thesis
        using True big zs q1(1) first mset_eq_setD [OF zs(1)]
        by (intro exI [of _ "?m # zs"]) (simp add: drained_def drain_loop.simps [of del])
    next
      case small: False
      have used: "unat (gasUsed + tx_Gas (Tx ?m)) \<le> unat gasLimit"
        using small test by simp
      obtain xs where xs: "drained del ?q1 (del (tx_Hash (Tx ?m)) known) (batch @ [?m])
          (unat (gasUsed + tx_Gas (Tx ?m))) xs
          (greedy_prefix (maxTx - int (length (batch @ [?m]))) (unat gasLimit)
            (unat (gasUsed + tx_Gas (Tx ?m))) xs)
          (drain_loop del maxTx gasLimit ?q1 (del (tx_Hash (Tx ?m)) known) (batch @ [?m])
            (gasUsed + tx_Gas (Tx ?m)))"
        using 1(1) [OF True refl refl refl small h1 ok1(1,2) used] by blast
      have g: "greedy_prefix (maxTx - int (length batch)) (unat gasLimit) (unat gasUsed) (?m # xs)
          = ?m # greedy_prefix (maxTx - int (length (batch @ [?m]))) (unat gasLimit)
            (unat (gasUsed + tx_Gas (Tx ?m))) xs"
        using small test k by (simp add: diff_diff_eq add.commute)
      have "\<forall>b \<in> set xs. tx_before_eq ?m b"
        using first xs mset_eq_setD by (auto simp: drained_def split: prod.splits)
      with xs show ?thesis
        using True small q1(1) test(2) g
        by (intro exI [of _ "?m # xs"])
          (simp add: drained_def drain_loop.simps [of del _ _ q] meta_hash_def split: prod.splits)
    qed
  qed
qed

text \<open>
  Without the condition on gas (sums that wrap around included) the loop still only moves
  transactions from the queue to the batch.
\<close>

definition moved :: "(hash \<Rightarrow> 'k \<Rightarrow> 'k) \<Rightarrow> tx_meta list \<Rightarrow> 'k \<Rightarrow> tx_meta list \<Rightarrow>
    tx_meta list \<Rightarrow> tx_meta list \<times> 'k \<times> tx_meta list \<times> u64 \<Rightarrow> bool" where
  "moved del q known batch new r \<longleftrightarrow> (case r of (q', known', batch', used') \<Rightarrow>
     batch' = batch @ new \<and> mset q = mset new + mset q' \<and> is_heap tx_less q' \<and>
     known' = fold del (map meta_hash new) known)"

lemma drain_moves:
  assumes "is_heap tx_less q" and "\<forall>m \<in> set q. ordered_meta m"
  shows "\<exists>new. moved del q known batch new (drain_loop del maxTx gasLimit q known batch gasUsed)
    \<and> int (length new) \<le> max 0 (maxTx - int (length batch))"
  using assms
proof (induction del maxTx gasLimit q known batch gasUsed rule: drain_loop.induct)
  case (1 del maxTx gasLimit q known batch gasUsed)
  let ?m = "fst (heap_pop tx_less q)" and ?q1 = "snd (heap_pop tx_less q)"
  show ?case
  proof (cases "q \<noteq> [] \<and> int (length batch) < maxTx")
    case False
    with 1(2) show ?thesis
      by (intro exI [of _ "[]"]) (auto simp: moved_def drain_loop.simps [of del])
  next
    case True
    then have ne: "q \<noteq> []" by simp
    have q1: "mset q = add_mset ?m (mset ?q1)" "set ?q1 \<subseteq> set q" "?m \<in> set q"
      using heap_pop_front(1,2) [OF ne, of tx_less] heap_pop_set [OF ne] ne by auto
    have h1: "is_heap tx_less ?q1" using txq.pop_heap 1(2,3) ne by blast
    have ok1: "\<forall>m \<in> set ?q1. ordered_meta m" "ordered_meta ?m" using 1(3) q1 by auto
    show ?thesis
    proof (cases "gasLimit < gasUsed + tx_Gas (Tx ?m)")
      case big: True
      have "is_heap tx_less (heap_push tx_less ?q1 ?m)"
        using txq.push_heap h1 ok1 by blast
      with True big q1 show ?thesis
        by (intro exI [of _ "[]"]) (simp add: moved_def drain_loop.simps [of del])
    next
      case small: False
      obtain new where new: "moved del ?q1 (del (tx_Hash (Tx ?m)) known) (batch @ [?m]) new
          (drain_loop del maxTx gasLimit ?q1 (del (tx_Hash (Tx ?m)) known) (batch @ [?m])
            (gasUsed + tx_Gas (Tx ?m)))"
        "int (length new) \<le> max 0 (maxTx - int (length (batch @ [?m])))"
        using 1(1) [OF True refl refl refl small h1 ok1(1)] by blast
      from new(1) have "moved del q known batch (?m # new) (drain_loop del maxTx gasLimit q known batch gasUsed)"
        using True small q1(1)
        by (simp add: moved_def drain_loop.simps [of del _ _ q] meta_hash_def split: prod.splits)
      with new(2) True show ?thesis by (intro exI [of _ "?m # new"]) auto
    qed
  qed
qed

subsection \<open>Removing by hash\<close>

text \<open>
  The loop of \<open>Remove\<close> in both pools: the first transaction with the hash is taken out of the heap
  at its index, and the loop stops there.
\<close>

fun index_of_hash :: "hash \<Rightarrow> tx_meta list \<Rightarrow> nat option" where
  "index_of_hash h [] = None"
| "index_of_hash h (m # ms) =
     (if meta_hash m = h then Some 0 else map_option Suc (index_of_hash h ms))"

definition queue_remove :: "hash \<Rightarrow> tx_meta list \<Rightarrow> tx_meta list" where
  "queue_remove h q = (case index_of_hash h q of None \<Rightarrow> q | Some i \<Rightarrow> snd (heap_remove tx_less q i))"

lemma index_of_hash_None: "index_of_hash h q = None \<longleftrightarrow> h \<notin> meta_hash ` set q"
  by (induction q) auto

lemma index_of_hash_Some: "index_of_hash h q = Some i \<Longrightarrow> i < length q \<and> meta_hash (q ! i) = h"
  by (induction q arbitrary: i) (auto split: if_splits)

lemma queue_remove_heap:
  assumes "is_heap tx_less q" and "\<forall>m \<in> set q. ordered_meta m"
  shows "is_heap tx_less (queue_remove h q)"
  using assms by (auto simp: queue_remove_def txq.remove_heap dest: index_of_hash_Some split: option.split)

lemma queue_remove_mset:
  assumes "distinct (map meta_hash q)"
  shows "mset (queue_remove h q) = filter_mset (\<lambda>m. meta_hash m \<noteq> h) (mset q)"
proof (cases "index_of_hash h q")
  case None
  then have "filter_mset (\<lambda>m. meta_hash m \<noteq> h) (mset q) = mset q"
    by (auto simp: index_of_hash_None filter_mset_eq_conv)
  with None show ?thesis by (simp add: queue_remove_def)
next
  case (Some i)
  then have i: "i < length q" "meta_hash (q ! i) = h" using index_of_hash_Some by auto
  have split: "q = take i q @ q ! i # drop (Suc i) q" using i(1) by (rule id_take_nth_drop)
  have "distinct (map meta_hash (take i q) @ h # map meta_hash (drop (Suc i) q))"
    using assms i by (subst (asm) split) simp
  then have "\<forall>m \<in> set (take i q @ drop (Suc i) q). meta_hash m \<noteq> h" by auto
  then have "filter (\<lambda>m. meta_hash m \<noteq> h) (take i q @ drop (Suc i) q) = take i q @ drop (Suc i) q"
    by (rule filter_True)
  then have "filter_mset (\<lambda>m. meta_hash m \<noteq> h) (mset (take i q @ drop (Suc i) q))
      = mset (take i q @ drop (Suc i) q)"
    unfolding mset_filter [symmetric] by (rule arg_cong)
  moreover have "mset q = add_mset (q ! i) (mset (take i q @ drop (Suc i) q))"
    by (subst (1) split) simp
  ultimately show ?thesis
    using Some i by (simp add: queue_remove_def heap_remove_nth)
qed

lemma queue_remove_absent: "h \<notin> meta_hash ` set q \<Longrightarrow> queue_remove h q = q"
  by (simp add: queue_remove_def flip: index_of_hash_None)

lemma queue_remove_set: "distinct (map meta_hash q) \<Longrightarrow>
    set (queue_remove h q) = {m \<in> set q. meta_hash m \<noteq> h}"
  using queue_remove_mset [of q h] by (metis set_mset_filter set_mset_mset)

lemma queue_remove_distinct:
  assumes "distinct (map meta_hash q)"
  shows "distinct (map meta_hash (queue_remove h q))"
proof -
  have "mset (map meta_hash (queue_remove h q)) = mset (map meta_hash (filter (\<lambda>m. meta_hash m \<noteq> h) q))"
    by (simp add: queue_remove_mset [OF assms])
  then show ?thesis using assms by (metis distinct_map_filter mset_eq_imp_distinct_iff)
qed

lemma queue_remove_length:
  assumes "distinct (map meta_hash q)"
  shows "length (queue_remove h q) \<le> length q"
  using queue_remove_mset [OF assms, of h] by (metis size_filter_mset_lesseq size_mset)

lemmas queue_remove_facts = queue_remove_heap queue_remove_set queue_remove_distinct queue_remove_length

end
