(* ===== verification/Tx_Pool.thy ===== *)
theory Tx_Pool
  imports Tx_Queue
begin

section \<open>The interface of the transaction pools: internal/mempool/pool.go, errors.go\<close>

text \<open>
  The errors of the pools, the metadata that \<open>Add\<close> creates, and the interface \<open>TxPool\<close> as a
  locale: the operations the block producer and the RPC handler call, and the laws both
  implementations (\<open>Mempool\<close>, \<open>LanedMempool\<close>) keep. The client lemmas: draining and returning
  transactions neither loses nor duplicates any, and a drained transaction can be added again.
\<close>

datatype pool_error = ErrAlreadyKnown | ErrMempoolFull | ErrInvalidSender | ErrNonceTooLow | ErrGasTooLow

fun pool_error_text :: "pool_error \<Rightarrow> string" where
  "pool_error_text ErrAlreadyKnown = ''transaction already known''"
| "pool_error_text ErrMempoolFull = ''mempool is full''"
| "pool_error_text ErrInvalidSender = ''invalid sender''"
| "pool_error_text ErrNonceTooLow = ''nonce too low''"
| "pool_error_text ErrGasTooLow = ''gas price too low''"

text \<open>The metadata of a transaction received at time \<open>now\<close>; both \<open>Add\<close>s build it alike.\<close>

definition new_meta :: "f64 \<Rightarrow> tx \<Rightarrow> address \<Rightarrow> f64 \<Rightarrow> int \<Rightarrow> tx_meta" where
  "new_meta weight t sender tasteScore now =
     ComputePriority
       \<lparr>Tx = t, TasteScore = tasteScore, Priority = Fin 0, ReceivedAt = now, Sender = sender,
        Nonce = tx_Nonce t, GasPrice = Some (tx_GasPrice t), GasTipCap = tx_GasTipCap t,
        GasFeeCap = tx_GasFeeCap t\<rparr> weight"

lemma new_meta_Tx [simp]: "Tx (new_meta w t s c now) = t"
  and new_meta_Sender [simp]: "Sender (new_meta w t s c now) = s"
  and new_meta_TasteScore [simp]: "TasteScore (new_meta w t s c now) = c"
  and new_meta_GasPrice [simp]: "GasPrice (new_meta w t s c now) = Some (tx_GasPrice t)"
  by (simp_all add: new_meta_def ComputePriority_def)

lemma meta_hash_new [simp]: "meta_hash (new_meta w t s c now) = tx_Hash t"
  by (simp add: meta_hash_def)

lemma new_meta_priority_unit:
  assumes "unit_f64 w" and "unit_f64 c"
  obtains r where "Priority (new_meta w t s c now) = Fin r" and "0 \<le> r" and "r \<le> 1"
proof -
  obtain w' c' where w: "w = Fin w'" "rnd64 w' = w'" "0 \<le> w'" "w' \<le> 1"
    and c: "c = Fin c'" "0 \<le> c'" "c' \<le> 1"
    using assms by (auto elim!: unit_f64_elim)
  obtain g where g: "gas_price_factor (Some (tx_GasPrice t)) = Fin g" "0 \<le> g" "g \<le> 1"
    by (rule gas_price_factor_unit)
  show ?thesis
    using that w(1) c(1) g(1)
    by (rule_tac unit_blend [OF w(2-4) c(2,3) g(2,3)]) (simp add: new_meta_def ComputePriority_def)
qed

lemma fadd_not_NaN: "a \<noteq> NaN \<Longrightarrow> is_finite b \<Longrightarrow> fadd b a \<noteq> NaN"
  by (cases a; cases b) (auto simp: to_f64_def Let_def)

text \<open>A score that is a finite number, in the unit interval or not, never makes the priority a NaN.\<close>

lemma new_meta_ordered:
  assumes "unit_f64 w" and "is_finite c"
  shows "ordered_meta (new_meta w t s c now)"
proof -
  obtain x where x: "w = Fin x" "rnd64 x = x" "0 \<le> x" "x \<le> 1" using assms(1) by (rule unit_f64_elim)
  obtain y where y: "c = Fin y" using assms(2) by (cases c) auto
  obtain g where g: "gas_price_factor (Some (tx_GasPrice t)) = Fin g" "0 \<le> g" "g \<le> 1"
    by (rule gas_price_factor_unit)
  have d: "fsub (Fin 1) (Fin x) = Fin (rnd64 (1 - x))" "0 \<le> rnd64 (1 - x)" "rnd64 (1 - x) \<le> 1"
    using x(3,4) by (auto simp: fsub_def to_f64_unit rnd64_nonneg rnd64_le_one)
  then have "is_finite (fmul (fsub (Fin 1) (Fin x)) (Fin g))"
    using g(2,3) by (simp add: to_f64_unit mult_le_one)
  moreover have "fmul (Fin x) (Fin y) \<noteq> NaN"
    by (auto simp: to_f64_def Let_def)
  ultimately show ?thesis
    using x(1) y g(1) fadd_not_NaN by (simp add: ordered_meta_def new_meta_def ComputePriority_def del: fmul.simps)
qed

text \<open>Splitting a queue with distinct hashes splits its hashes.\<close>

lemma hashes_split:
  assumes "mset q = mset new + mset q'" and "distinct (map meta_hash q)"
  shows "distinct (map meta_hash q')" and "distinct (map meta_hash new)"
    and "meta_hash ` set q' = meta_hash ` set q - set (map meta_hash new)"
    and "set q = set new \<union> set q'" and "length q = length new + length q'"
proof -
  have m: "mset q = mset (new @ q')" using assms(1) by simp
  then have "mset (map meta_hash q) = mset (map meta_hash (new @ q'))" by (rule map_mset_eq)
  then have d: "distinct (map meta_hash (new @ q'))"
    using assms(2) mset_eq_imp_distinct_iff by blast
  then show "distinct (map meta_hash q')" "distinct (map meta_hash new)" by auto
  show "set q = set new \<union> set q'" using mset_eq_setD [OF m] by simp
  with d show "meta_hash ` set q' = meta_hash ` set q - set (map meta_hash new)" by auto
  show "length q = length new + length q'" using mset_eq_length [OF m] by simp
qed

subsection \<open>The interface\<close>

text \<open>
  The methods of \<open>TxPool\<close>, as the producer and the RPC handler get them; \<open>tp_LaneSizes\<close> is the type
  assertion to a laned pool.
\<close>

record 'p pool_ops =
  tp_Add :: "'p \<Rightarrow> tx \<Rightarrow> address \<Rightarrow> f64 \<Rightarrow> int \<Rightarrow> pool_error + 'p"
  tp_PopBatch :: "'p \<Rightarrow> int \<Rightarrow> u64 \<Rightarrow> tx_meta list \<times> 'p"
  tp_Len :: "'p \<Rightarrow> int"
  tp_Pending :: "'p \<Rightarrow> tx_meta list"
  tp_Has :: "'p \<Rightarrow> hash \<Rightarrow> bool"
  tp_LaneSizes :: "'p \<Rightarrow> (int \<times> int \<times> int) option"

locale tx_pool =
  fixes add :: "'p \<Rightarrow> tx \<Rightarrow> address \<Rightarrow> f64 \<Rightarrow> int \<Rightarrow> pool_error + 'p"
    and pop_batch :: "'p \<Rightarrow> int \<Rightarrow> u64 \<Rightarrow> tx_meta list \<times> 'p"
    and pool_len :: "'p \<Rightarrow> int"
    and pending :: "'p \<Rightarrow> tx_meta list"
    and has :: "'p \<Rightarrow> hash \<Rightarrow> bool"
    and inv :: "'p \<Rightarrow> bool"
    and capacity :: "'p \<Rightarrow> int"
    and weight :: "'p \<Rightarrow> f64"
  assumes add_known: "has p (tx_Hash t) \<Longrightarrow> add p t s c now = Inl ErrAlreadyKnown"
    and add_full: "\<not> has p (tx_Hash t) \<Longrightarrow> capacity p \<le> pool_len p \<Longrightarrow> add p t s c now = Inl ErrMempoolFull"
    and add_ok: "inv p \<Longrightarrow> is_finite c \<Longrightarrow> \<not> has p (tx_Hash t) \<Longrightarrow> pool_len p < capacity p \<Longrightarrow>
      \<exists>p'. add p t s c now = Inr p' \<and> inv p' \<and> capacity p' = capacity p \<and> weight p' = weight p \<and>
        mset (pending p') = add_mset (new_meta (weight p) t s c now) (mset (pending p))"
    and has_iff: "inv p \<Longrightarrow> has p h \<longleftrightarrow> h \<in> meta_hash ` set (pending p)"
    and len_eq: "inv p \<Longrightarrow> pool_len p = int (length (pending p))"
    and hashes_distinct: "inv p \<Longrightarrow> distinct (map meta_hash (pending p))"
    and pop_partition: "inv p \<Longrightarrow> pop_batch p k g = (b, p') \<Longrightarrow> inv p' \<and> capacity p' = capacity p \<and>
      weight p' = weight p \<and> mset (pending p) = mset b + mset (pending p') \<and> int (length b) \<le> max 0 k"
    and pop_gas: "inv p \<Longrightarrow> pop_batch p k g = (b, p') \<Longrightarrow> gas_fits g (pending p) \<Longrightarrow>
      sum_list (map meta_gas b) \<le> unat g"
begin

lemma add_result:
  assumes "inv p" and "is_finite c"
  shows "add p t s c now =
      (if has p (tx_Hash t) then Inl ErrAlreadyKnown
       else if capacity p \<le> pool_len p then Inl ErrMempoolFull else add p t s c now)"
  using assms add_known add_full by auto

text \<open>Whatever \<open>Add\<close> answers, an added transaction is the only change.\<close>

lemma add_cases:
  assumes "inv p" and "is_finite c"
  shows "(has p (tx_Hash t) \<and> add p t s c now = Inl ErrAlreadyKnown)
    \<or> (\<not> has p (tx_Hash t) \<and> capacity p \<le> pool_len p \<and> add p t s c now = Inl ErrMempoolFull)
    \<or> (\<not> has p (tx_Hash t) \<and> pool_len p < capacity p \<and> (\<exists>p'. add p t s c now = Inr p' \<and> inv p' \<and>
        capacity p' = capacity p \<and> weight p' = weight p \<and>
        mset (pending p') = add_mset (new_meta (weight p) t s c now) (mset (pending p))))"
  using add_known [of p t s c now] add_full [of p t s c now] add_ok [OF assms, of t s now] by force

lemma popped_not_known:
  assumes "inv p" and "pop_batch p k g = (b, p')" and "m \<in> set b"
  shows "\<not> has p' (meta_hash m)"
proof -
  have part: "mset (pending p) = mset b + mset (pending p')" "inv p'"
    using pop_partition [OF assms(1,2)] by auto
  then have "mset (map meta_hash (pending p)) = mset (map meta_hash (b @ pending p'))" by simp
  then have "distinct (map meta_hash (b @ pending p'))"
    using hashes_distinct [OF assms(1)] mset_eq_imp_distinct_iff by blast
  then show ?thesis using has_iff [OF part(2)] assms(3) by auto
qed

end

text \<open>Adding a list of transactions in turn, ignoring rejections, as the producer does.\<close>

fun add_all :: "('p \<Rightarrow> tx \<Rightarrow> address \<Rightarrow> f64 \<Rightarrow> int \<Rightarrow> pool_error + 'p) \<Rightarrow> int \<Rightarrow>
    (tx \<times> address \<times> f64) list \<Rightarrow> 'p \<Rightarrow> 'p" where
  "add_all add now [] p = p"
| "add_all add now ((t, s, c) # rest) p =
     add_all add now rest (case add p t s c now of Inl _ \<Rightarrow> p | Inr p' \<Rightarrow> p')"

context tx_pool
begin

text \<open>Returning transactions whose hashes are new and distinct, with room for all of them.\<close>

lemma add_all_new:
  assumes "inv p" and "\<forall>(t, s, c) \<in> set ts. is_finite c"
    and "distinct (map (\<lambda>(t, s, c). tx_Hash t) ts)" and "\<forall>(t, s, c) \<in> set ts. \<not> has p (tx_Hash t)"
    and "pool_len p + int (length ts) \<le> capacity p"
  shows "inv (add_all add now ts p) \<and> capacity (add_all add now ts p) = capacity p \<and>
    weight (add_all add now ts p) = weight p \<and>
    mset (pending (add_all add now ts p)) =
      mset (map (\<lambda>(t, s, c). new_meta (weight p) t s c now) ts) + mset (pending p)"
  using assms
proof (induction ts arbitrary: p)
  case (Cons x ts)
  obtain t s c where x: "x = (t, s, c)" by (cases x)
  obtain p1 where p1: "add p t s c now = Inr p1" "inv p1" "capacity p1 = capacity p" "weight p1 = weight p"
      "mset (pending p1) = add_mset (new_meta (weight p) t s c now) (mset (pending p))"
    using add_ok [of p c t s now] Cons.prems x by auto
  have has1: "has p1 h \<longleftrightarrow> h = tx_Hash t \<or> has p h" for h
  proof -
    have "set (pending p1) = insert (new_meta (weight p) t s c now) (set (pending p))"
      using p1(5) by (metis set_mset_add_mset_insert set_mset_mset)
    then show ?thesis using has_iff [OF p1(2)] has_iff [OF Cons.prems(1)] by auto
  qed
  have len1: "pool_len p1 = pool_len p + 1"
    using p1(5) len_eq [OF p1(2)] len_eq [OF Cons.prems(1)] by (metis of_nat_Suc size_add_mset size_mset add.commute)
  have "inv (add_all add now ts p1) \<and> capacity (add_all add now ts p1) = capacity p1 \<and>
      weight (add_all add now ts p1) = weight p1 \<and>
      mset (pending (add_all add now ts p1)) =
        mset (map (\<lambda>(t, s, c). new_meta (weight p1) t s c now) ts) + mset (pending p1)"
    using Cons.prems x has1 len1 p1 by (intro Cons.IH) (auto simp: image_iff)
  then show ?case using x p1 by simp
qed simp

text \<open>
  Returning a batch, whatever sender and finite score it is returned with: all of it fits again, and
  the pool holds the transactions it held before.
\<close>

lemma return_batch:
  fixes sender :: "tx_meta \<Rightarrow> address" and now :: int
  assumes p: "inv p" and room: "pool_len p \<le> capacity p" and pop: "pop_batch p k g = (b, p')"
    and sc: "\<forall>m \<in> set b. is_finite (score m)"
  defines "p'' \<equiv> add_all add now (map (\<lambda>m. (Tx m, sender m, score m)) b) p'"
  shows "inv p'' \<and> image_mset Tx (mset (pending p'')) = image_mset Tx (mset (pending p)) \<and>
    (\<forall>m \<in> set b. new_meta (weight p) (Tx m) (sender m) (score m) now \<in> set (pending p'')) \<and>
    capacity p'' = capacity p \<and> mset (pending p'') =
      mset (map (\<lambda>m. new_meta (weight p) (Tx m) (sender m) (score m) now) b) + mset (pending p')"
proof -
  have part: "inv p'" "capacity p' = capacity p" "mset (pending p) = mset b + mset (pending p')" "weight p' = weight p"
    using pop_partition [OF p pop] by auto
  have len: "pool_len p = pool_len p' + int (length b)"
    using mset_eq_length [of "pending p" "b @ pending p'"] part(3) len_eq [OF p] len_eq [OF part(1)] by simp
  have "distinct (map meta_hash (b @ pending p'))"
    using hashes_distinct [OF p] part(3) mset_eq_imp_distinct_iff
      [of "map meta_hash (pending p)" "map meta_hash (b @ pending p')"] by simp
  then have d: "distinct (map (\<lambda>m. tx_Hash (Tx m)) b)" by (simp add: meta_hash_def [abs_def])
  let ?ts = "map (\<lambda>m. (Tx m, sender m, score m)) b"
  have "inv p'' \<and> capacity p'' = capacity p' \<and> weight p'' = weight p' \<and> mset (pending p'')
      = mset (map (\<lambda>(t, s, c). new_meta (weight p') t s c now) ?ts) + mset (pending p')"
    unfolding p''_def
  proof (rule add_all_new [OF part(1)])
    show "\<forall>(t, s, c) \<in> set ?ts. is_finite c" using sc by auto
    show "distinct (map (\<lambda>(t, s, c). tx_Hash t) ?ts)" using d by (simp add: comp_def)
    show "\<forall>(t, s, c) \<in> set ?ts. \<not> has p' (tx_Hash t)"
      using popped_not_known [OF p pop] by (auto simp: meta_hash_def)
    show "pool_len p' + int (length ?ts) \<le> capacity p'" using len room part(2) by simp
  qed
  note r = this
  then have "mset (pending p'') = mset (map (\<lambda>(t, s, c). new_meta (weight p') t s c now) ?ts @ pending p')" by simp
  then have "set (pending p'') = set (map (\<lambda>(t, s, c). new_meta (weight p') t s c now) ?ts @ pending p')"
    by (rule mset_eq_setD)
  then have "\<forall>m \<in> set b. new_meta (weight p) (Tx m) (sender m) (score m) now \<in> set (pending p'')"
    by (auto simp: part(4) image_iff)
  with r show ?thesis by (simp add: part comp_def image_mset.compositionality)
qed

end

end
