(* ===== verification/Fees.thy ===== *)
theory Fees
  imports Pkg_Types
begin

section \<open>The dynamic fee model: internal/fees/model.go\<close>

text \<open>
  \<open>DynamicFeeModel\<close>: a base fee that follows the moving average of the gas utilisation, at most an
  eighth per block and within a floor and a ceiling, and per-sender discounts that a provider
  (a contract call, here a function) answers and a cache keeps for a minute.

  Big integers are \<open>int\<close>; times are nanoseconds. The provider is an argument: the discount in basis
  points and the tier, or an error (\<open>None\<close>).
\<close>

record discount_entry =
  de_discountBps :: u16
  de_tier :: u8
  de_cachedAt :: int

record fee_model =
  fm_baseFee :: int
  fm_minBaseFee :: int
  fm_maxBaseFee :: int
  fm_targetGasUsage :: f64
  fm_emaGasUsage :: f64
  fm_emaAlpha :: f64
  fm_discountCache :: "address \<rightharpoonup> discount_entry"
  fm_discountTTL :: int

type_synonym sovereignty_provider = "address \<Rightarrow> (u16 \<times> u8) option"

definition NewDynamicFeeModel :: fee_model where
  "NewDynamicFeeModel = \<lparr>fm_baseFee = 1000000000, fm_minBaseFee = 100000000,
     fm_maxBaseFee = 100000000000, fm_targetGasUsage = to_f64 (5 / 10), fm_emaGasUsage = to_f64 (5 / 10),
     fm_emaAlpha = to_f64 (125 / 1000), fm_discountCache = Map.empty,
     fm_discountTTL = 60 * 1000000000\<rparr>"

definition fm_BaseFee :: "fee_model \<Rightarrow> int" where
  "fm_BaseFee f = fm_baseFee f"

text \<open>
  \<open>getCachedDiscount\<close>: the answer and the cache after it. \<open>now\<close> is the time of the lookup, \<open>later\<close>
  the time after the provider answered. An error answers zero and caches nothing.
\<close>

definition getCachedDiscount :: "fee_model \<Rightarrow> address \<Rightarrow> sovereignty_provider \<Rightarrow> int \<Rightarrow> int \<Rightarrow>
    (u16 \<times> u8) option \<times> fee_model" where
  "getCachedDiscount f addr provider now later =
     (case (case fm_discountCache f addr of
              Some entry \<Rightarrow> if now - de_cachedAt entry < fm_discountTTL f
                then Some (de_discountBps entry, de_tier entry) else None
            | None \<Rightarrow> None) of
        Some d \<Rightarrow> (Some d, f)
      | None \<Rightarrow> (case provider addr of
          None \<Rightarrow> (None, f)
        | Some (bps, tier) \<Rightarrow> (Some (bps, tier),
            f\<lparr>fm_discountCache := (fm_discountCache f)(addr \<mapsto>
              \<lparr>de_discountBps = bps, de_tier = tier, de_cachedAt = later\<rparr>)\<rparr>)))"

text \<open>The fee after a discount; \<open>10000 - uint64(discountBps)\<close> is a subtraction on \<open>uint64\<close>.\<close>

definition discounted_fee :: "fee_model \<Rightarrow> u16 \<Rightarrow> int" where
  "discounted_fee f bps =
     (if bps = 0 then fm_BaseFee f
      else let effective = fm_BaseFee f * uint (10000 - (ucast bps :: u64)) div 10000
        in if effective < fm_minBaseFee f then fm_minBaseFee f else effective)"

definition EffectiveFee :: "fee_model \<Rightarrow> address \<Rightarrow> sovereignty_provider option \<Rightarrow> int \<Rightarrow> int \<Rightarrow>
    int \<times> fee_model" where
  "EffectiveFee f sender provider now later = (case provider of
     None \<Rightarrow> (fm_BaseFee f, f)
   | Some pr \<Rightarrow> (case getCachedDiscount f sender pr now later of
       (None, f') \<Rightarrow> (discounted_fee f 0, f')
     | (Some (bps, tier), f') \<Rightarrow> (discounted_fee f bps, f')))"

text \<open>The relative change, clamped to an eighth.\<close>

definition fee_delta :: "fee_model \<Rightarrow> f64" where
  "fee_delta f =
     (let delta = fdiv (fsub (fm_emaGasUsage f) (fm_targetGasUsage f)) (fm_targetGasUsage f)
      in if flt (Fin (1 / 8)) delta then Fin (1 / 8)
         else if flt delta (Fin (- 1 / 8)) then Fin (- 1 / 8) else delta)"

definition fm_AdjustAfterBlock :: "fee_model \<Rightarrow> u64 \<Rightarrow> u64 \<Rightarrow> fee_model" where
  "fm_AdjustAfterBlock f gasUsed gasLimit =
     (if gasLimit = 0 then f
      else
        let utilization = gas_utilization gasUsed gasLimit;
            f1 = f\<lparr>fm_emaGasUsage := ema_step (fm_emaAlpha f) utilization (fm_emaGasUsage f)\<rparr>;
            delta = fee_delta f1;
            fee = (if flt (Fin 0) delta then
                     (let pct = f64_to_int (fmul delta (Fin 10000))
                      in fm_baseFee f1 + fm_baseFee f1 * pct div 10000)
                   else if flt delta (Fin 0) then
                     (let pct = f64_to_int (fmul (fneg delta) (Fin 10000))
                      in fm_baseFee f1 - fm_baseFee f1 * pct div 10000)
                   else fm_baseFee f1);
            fee1 = (if fee < fm_minBaseFee f1 then fm_minBaseFee f1 else fee);
            fee2 = (if fm_maxBaseFee f1 < fee1 then fm_maxBaseFee f1 else fee1)
        in f1\<lparr>fm_baseFee := fee2\<rparr>)"

definition GetDiscount :: "fee_model \<Rightarrow> address \<Rightarrow> u16 \<times> u8" where
  "GetDiscount f addr = (case fm_discountCache f addr of
     None \<Rightarrow> (0, 0) | Some entry \<Rightarrow> (de_discountBps entry, de_tier entry))"

record fee_stats =
  fs_BaseFeeWei :: int
  fs_BaseFeeGwei :: u64
  fs_EMAGasUsage :: f64
  fs_TargetGasUsage :: f64
  fs_CacheSize :: nat

definition fm_Stats :: "fee_model \<Rightarrow> fee_stats" where
  "fm_Stats f = \<lparr>fs_BaseFeeWei = fm_baseFee f,
     fs_BaseFeeGwei = word_of_int (fm_baseFee f div 1000000000),
     fs_EMAGasUsage = fm_emaGasUsage f, fs_TargetGasUsage = fm_targetGasUsage f,
     fs_CacheSize = card (dom (fm_discountCache f))\<rparr>"

subsection \<open>The base fee\<close>

definition fees_bounded :: "fee_model \<Rightarrow> bool" where
  "fees_bounded f \<longleftrightarrow> 0 < fm_minBaseFee f \<and> fm_minBaseFee f \<le> fm_baseFee f \<and> fm_baseFee f \<le> fm_maxBaseFee f"

lemma fee_delta_clamped:
  "fee_delta f = NaN \<or> (\<exists>d. fee_delta f = Fin d \<and> - 1 / 8 \<le> d \<and> d \<le> 1 / 8)"
proof (cases "fdiv (fsub (fm_emaGasUsage f) (fm_targetGasUsage f)) (fm_targetGasUsage f)")
  case (Fin x)
  consider "1 / 8 < x" | "x < - 1 / 8" | "- 1 / 8 \<le> x" "x \<le> 1 / 8" by linarith
  then show ?thesis
  proof cases
    case 1
    then have "fee_delta f = Fin (1 / 8)" by (simp add: fee_delta_def Fin)
    then show ?thesis by (intro disjI2 exI [of _ "1 / 8"]) simp
  next
    case 2
    then have "fee_delta f = Fin (- 1 / 8)" by (simp add: fee_delta_def Fin)
    then show ?thesis by (intro disjI2 exI [of _ "- 1 / 8"]) simp
  next
    case 3
    then have "fee_delta f = Fin x" by (simp add: fee_delta_def Fin)
    with 3 show ?thesis by blast
  qed
next
  case PInf
  then have "fee_delta f = Fin (1 / 8)" by (simp add: fee_delta_def)
  then show ?thesis by (intro disjI2 exI [of _ "1 / 8"]) simp
next
  case NInf
  then have "fee_delta f = Fin (- 1 / 8)" by (simp add: fee_delta_def)
  then show ?thesis by (intro disjI2 exI [of _ "- 1 / 8"]) simp
qed (simp add: fee_delta_def)

lemma clamped_pct:
  assumes "0 < d" and "d \<le> 1 / 8"
  shows "0 \<le> f64_to_int (fmul (Fin d) (Fin 10000)) \<and> f64_to_int (fmul (Fin d) (Fin 10000)) \<le> 1250"
proof -
  have x: "0 \<le> d * 10000" "d * 10000 \<le> 1250" using assms by simp_all
  have "rnd64 (d * 10000) \<le> rnd64 (of_int 1250)" using x by (intro rnd64_mono) simp
  then have r: "0 \<le> rnd64 (d * 10000)" "rnd64 (d * 10000) \<le> 1250"
    using x rnd64_int [of 1250] by (simp_all add: rnd64_nonneg)
  have t: "to_f64 (d * 10000) = Fin (rnd64 (d * 10000))" using x by (intro to_f64_small) simp
  have "0 \<le> \<lfloor>rnd64 (d * 10000)\<rfloor>" "\<lfloor>rnd64 (d * 10000)\<rfloor> \<le> 1250" using r by (simp_all add: floor_le_iff)
  then show ?thesis using r by (simp add: t f64_to_int_def trunc_rat_def Let_def)
qed

definition clamp_fee :: "fee_model \<Rightarrow> int \<Rightarrow> int" where
  "clamp_fee f fee = (let fee1 = (if fee < fm_minBaseFee f then fm_minBaseFee f else fee)
     in if fm_maxBaseFee f < fee1 then fm_maxBaseFee f else fee1)"

lemma fm_Adjust_fee:
  assumes "gasLimit \<noteq> 0" and "0 \<le> fm_baseFee f"
  obtains change where "fm_baseFee (fm_AdjustAfterBlock f gasUsed gasLimit) = clamp_fee f (fm_baseFee f + change)"
    and "8 * \<bar>change\<bar> \<le> fm_baseFee f"
    and "flt (Fin 0) (fee_delta (f\<lparr>fm_emaGasUsage := ema_step (fm_emaAlpha f)
      (gas_utilization gasUsed gasLimit) (fm_emaGasUsage f)\<rparr>)) \<Longrightarrow> 0 \<le> change"
    and "flt (fee_delta (f\<lparr>fm_emaGasUsage := ema_step (fm_emaAlpha f)
      (gas_utilization gasUsed gasLimit) (fm_emaGasUsage f)\<rparr>)) (Fin 0) \<Longrightarrow> change \<le> 0"
proof -
  define f1 where "f1 = f\<lparr>fm_emaGasUsage := ema_step (fm_emaAlpha f)
      (gas_utilization gasUsed gasLimit) (fm_emaGasUsage f)\<rparr>"
  have step: "fm_baseFee (fm_AdjustAfterBlock f gasUsed gasLimit) = clamp_fee f
      (if flt (Fin 0) (fee_delta f1) then
         fm_baseFee f + fm_baseFee f * f64_to_int (fmul (fee_delta f1) (Fin 10000)) div 10000
       else if flt (fee_delta f1) (Fin 0) then
         fm_baseFee f - fm_baseFee f * f64_to_int (fmul (fneg (fee_delta f1)) (Fin 10000)) div 10000
       else fm_baseFee f)"
    using assms(1) by (simp add: fm_AdjustAfterBlock_def Let_def f1_def clamp_fee_def)
  have eighth: "0 \<le> fm_baseFee f * p div 10000 \<and> 8 * (fm_baseFee f * p div 10000) \<le> fm_baseFee f"
    if "0 \<le> p" "p \<le> 1250" for p
  proof -
    have "0 \<le> fm_baseFee f * p" "fm_baseFee f * p \<le> fm_baseFee f * 1250"
      using assms(2) that by (auto intro: mult_left_mono)
    then show ?thesis by (intro conjI) linarith+
  qed
  consider (nan) "fee_delta f1 = NaN" | (up) d where "fee_delta f1 = Fin d" "0 < d" "d \<le> 1 / 8"
    | (down) d where "fee_delta f1 = Fin d" "d < 0" "- d \<le> 1 / 8" | (same) "fee_delta f1 = Fin 0"
    using fee_delta_clamped [of f1] by (metis linorder_neqE minus_divide_left minus_le_iff)
  then show ?thesis
  proof cases
    case nan
    then show ?thesis using step assms(2) by (intro that [of 0]) (simp_all add: f1_def [symmetric])
  next
    case (up d)
    then show ?thesis
      using step eighth clamped_pct [of d]
      by (intro that [of "fm_baseFee f * f64_to_int (fmul (Fin d) (Fin 10000)) div 10000"])
        (simp_all add: f1_def [symmetric] del: fmul.simps)
  next
    case (down d)
    then show ?thesis
      using step eighth clamped_pct [of "- d"]
      by (intro that [of "- (fm_baseFee f * f64_to_int (fmul (Fin (- d)) (Fin 10000)) div 10000)"])
        (simp_all add: f1_def [symmetric] del: fmul.simps)
  next
    case same
    then show ?thesis using step assms(2) by (intro that [of 0]) (simp_all add: f1_def [symmetric])
  qed
qed

lemma fm_Adjust_bounds [simp]:
  "fm_minBaseFee (fm_AdjustAfterBlock f u l) = fm_minBaseFee f"
  "fm_maxBaseFee (fm_AdjustAfterBlock f u l) = fm_maxBaseFee f"
  by (simp_all add: fm_AdjustAfterBlock_def Let_def)

lemma fm_Adjust_bounded:
  assumes "fees_bounded f"
  shows "fees_bounded (fm_AdjustAfterBlock f u l)"
proof (cases "l = 0")
  case False
  have "0 \<le> fm_baseFee f" using assms by (simp add: fees_bounded_def)
  then obtain change where "fm_baseFee (fm_AdjustAfterBlock f u l) = clamp_fee f (fm_baseFee f + change)"
    by (rule fm_Adjust_fee [OF False])
  then show ?thesis using assms by (auto simp: fees_bounded_def clamp_fee_def Let_def)
qed (use assms in \<open>simp add: fm_AdjustAfterBlock_def\<close>)

lemma new_fees_bounded: "fees_bounded NewDynamicFeeModel"
  by (simp add: fees_bounded_def NewDynamicFeeModel_def)

text \<open>The model's operations, in any order, with any provider.\<close>

inductive fees_reach :: "fee_model \<Rightarrow> bool" where
  New: "fees_reach NewDynamicFeeModel"
| Adjust: "fees_reach f \<Longrightarrow> fees_reach (fm_AdjustAfterBlock f u l)"
| Fee: "fees_reach f \<Longrightarrow> EffectiveFee f a pr now later = (fee, f') \<Longrightarrow> fees_reach f'"

lemma EffectiveFee_state:
  assumes "EffectiveFee f a pr now later = (fee, f')"
  shows "fm_baseFee f' = fm_baseFee f \<and> fm_minBaseFee f' = fm_minBaseFee f \<and> fm_maxBaseFee f' = fm_maxBaseFee f"
  using assms by (auto simp: EffectiveFee_def getCachedDiscount_def split: option.splits if_splits prod.splits)

lemma fees_reach_bounded: "fees_reach f \<Longrightarrow> fees_bounded f \<and> fm_minBaseFee f = 100000000 \<and>
    fm_maxBaseFee f = 100000000000"
proof (induction rule: fees_reach.induct)
  case New
  then show ?case using new_fees_bounded by (simp add: NewDynamicFeeModel_def)
next
  case (Adjust f u l)
  then show ?case using fm_Adjust_bounded by simp
next
  case (Fee f a pr now later fee f')
  then show ?case using EffectiveFee_state [OF Fee(2)] by (simp add: fees_bounded_def)
qed

subsection \<open>Discounts\<close>

lemma discounted_fee_bounds:
  assumes "fees_bounded f" and "bps \<le> 10000"
  shows "fm_minBaseFee f \<le> discounted_fee f bps \<and> discounted_fee f bps \<le> fm_baseFee f"
proof -
  have "uint bps \<le> 10000" using assms(2) by (simp add: word_le_def)
  note le = this
  have "uint (ucast bps :: u64) = uint bps" by (rule uint_up_ucast) (simp add: is_up)
  with le have "uint (10000 - (ucast bps :: u64)) = 10000 - uint bps"
    by (simp add: uint_sub_if' word_le_def)
  then have m: "0 \<le> uint (10000 - (ucast bps :: u64))" "uint (10000 - (ucast bps :: u64)) \<le> 10000"
    using le by simp_all
  have "fm_baseFee f * uint (10000 - (ucast bps :: u64)) \<le> fm_baseFee f * 10000"
    using m assms(1) by (intro mult_left_mono) (auto simp: fees_bounded_def)
  then have "fm_baseFee f * uint (10000 - (ucast bps :: u64)) div 10000 \<le> fm_baseFee f" by simp
  then show ?thesis using assms(1) by (auto simp: discounted_fee_def fm_BaseFee_def Let_def fees_bounded_def)
qed

text \<open>Within the time to live the provider is not asked, and the first answer is kept.\<close>

lemma cached_discount:
  assumes "getCachedDiscount f a pr t0 t1 = (Some d, f')" and "fm_discountCache f a = None"
    and "now - t1 < fm_discountTTL f"
  shows "getCachedDiscount f' a pr' now later = (Some d, f')"
proof (cases "pr a")
  case None
  then show ?thesis using assms(1,2) by (simp add: getCachedDiscount_def)
next
  case (Some x)
  obtain bps tier where x: "x = (bps, tier)" by (cases x)
  have "d = (bps, tier)" "f' = f\<lparr>fm_discountCache := (fm_discountCache f)(a \<mapsto>
        \<lparr>de_discountBps = bps, de_tier = tier, de_cachedAt = t1\<rparr>)\<rparr>"
    using assms(1,2) Some x by (simp_all add: getCachedDiscount_def)
  then show ?thesis using assms(3) by (simp add: getCachedDiscount_def)
qed

subsection \<open>Properties\<close>

text \<open>The base fee stays between its floor of 0.1 gwei and its ceiling of 100 gwei, whatever the
  blocks and the discounts queried.\<close>

theorem base_fee_in_bounds:
  assumes "fees_reach f"
  shows "100000000 \<le> fm_BaseFee f \<and> fm_BaseFee f \<le> 100000000000"
  using fees_reach_bounded [OF assms] by (simp add: fees_bounded_def fm_BaseFee_def)

lemma base_fee_in_bounds_witness:
  "fm_BaseFee (fm_AdjustAfterBlock NewDynamicFeeModel 30000000 30000000) \<le> 100000000000"
  using base_fee_in_bounds [OF fees_reach.Adjust [OF fees_reach.New]] by blast



text \<open>A discount of at most 10000 basis points gives a fee between the floor and the base fee.\<close>

theorem effective_fee_bounds:
  assumes "fees_reach f" and "\<And>bps tier. fst (getCachedDiscount f a pr now later) = Some (bps, tier) \<Longrightarrow> bps \<le> 10000"
  shows "100000000 \<le> fst (EffectiveFee f a (Some pr) now later) \<and>
    fst (EffectiveFee f a (Some pr) now later) \<le> fm_BaseFee f"
proof -
  have f: "fees_bounded f" "fm_minBaseFee f = 100000000" using fees_reach_bounded [OF assms(1)] by auto
  obtain r f' where g: "getCachedDiscount f a pr now later = (r, f')" by fastforce
  show ?thesis
  proof (cases r)
    case None
    then show ?thesis using discounted_fee_bounds [OF f(1), of 0] f g by (simp add: EffectiveFee_def fm_BaseFee_def)
  next
    case (Some d)
    obtain bps tier where d: "d = (bps, tier)" by (cases d)
    have "bps \<le> 10000" using assms(2) g Some d by simp
    from discounted_fee_bounds [OF f(1) this] show ?thesis
      using f g Some d by (simp add: EffectiveFee_def fm_BaseFee_def)
  qed
qed

lemma effective_fee_bounds_witness:
  "fst (EffectiveFee NewDynamicFeeModel zero_address (Some (\<lambda>_. Some (2500, 3))) 5 6) \<le> 1000000000"
  using effective_fee_bounds [OF fees_reach.New, of zero_address "\<lambda>_. Some (2500, 3)" 5 6]
  by (simp add: getCachedDiscount_def NewDynamicFeeModel_def fm_BaseFee_def)

text \<open>Above 10000 basis points the subtraction wraps around on \<open>uint64\<close> and the discount
  becomes a surcharge: the fee exceeds the base fee, and the ceiling too.\<close>

theorem effective_fee_overflow:
  assumes "fees_reach f" and "pr a = Some (bps, tier)" and "fm_discountCache f a = None" and "10000 < bps"
  shows "fm_maxBaseFee f < fst (EffectiveFee f a (Some pr) now later)"
proof -
  have f: "100000000 \<le> fm_baseFee f" "fm_minBaseFee f = 100000000" "fm_maxBaseFee f = 100000000000"
    using fees_reach_bounded [OF assms(1)] by (auto simp: fees_bounded_def)
  have b: "10000 < uint bps" "uint bps < 65536"
    using assms(4) uint_bounded [of bps] by (simp_all add: word_less_def)
  then have u: "uint (ucast bps :: u64) = uint bps" by (intro uint_up_ucast) (simp add: is_up)
  have "uint (10000 - (ucast bps :: u64)) = 10000 - uint bps + 2 ^ 64"
    using b u by (simp add: uint_sub_if' word_le_def)
  then have "10 ^ 8 * (2 ^ 64 - 55536) \<le> fm_baseFee f * uint (10000 - (ucast bps :: u64))"
    using b f(1) by (intro mult_mono) auto
  then have big: "fm_maxBaseFee f < fm_baseFee f * uint (10000 - (ucast bps :: u64)) div 10000"
    using f(3) by simp
  moreover have "bps \<noteq> 0" using assms(4) by auto
  ultimately show ?thesis
    using assms(2,3) f(2,3) by (auto simp: EffectiveFee_def getCachedDiscount_def discounted_fee_def fm_BaseFee_def Let_def)
qed

lemma effective_fee_overflow_witness:
  "100000000000 < fst (EffectiveFee NewDynamicFeeModel zero_address (Some (\<lambda>_. Some (10001, 0))) 0 0)"
  using effective_fee_overflow [OF fees_reach.New, of "\<lambda>_. Some (10001, 0)" zero_address 10001 0 0 0]
  by (simp add: NewDynamicFeeModel_def)

end
