(* ===== verification/Lanes.thy ===== *)
theory Lanes
  imports Tx_Pool
begin

section \<open>The pool with execution lanes: internal/mempool/lanes.go\<close>

text \<open>
  \<open>LanedMempool\<close>: three priority queues, a transaction's lane chosen by its taste score, and the map
  of known hashes to lanes. \<open>PopBatchLaned\<close> drains each lane up to its share of the gas, then fills
  what remains. Every method holds the mutex, so a method is one step. The pool is the second
  instance of the \<open>tx_pool\<close> interface.
\<close>

datatype lane = LaneFast | LaneStandard | LaneSlow

text \<open>The constants \<open>0.65\<close> and \<open>0.15\<close>, as the doubles nearest to them.\<close>

definition FastLaneMinScore :: f64 where
  "FastLaneMinScore = to_f64 (65 / 100)"

definition StandardLaneMinScore :: f64 where
  "StandardLaneMinScore = to_f64 (15 / 100)"

definition LaneFastGasBps :: u64 where "LaneFastGasBps = 4000"
definition LaneStandardGasBps :: u64 where "LaneStandardGasBps = 4000"
definition LaneSlowGasBps :: u64 where "LaneSlowGasBps = 2000"

record laned =
  lm_fast :: "tx_meta list"
  lm_std :: "tx_meta list"
  lm_slow :: "tx_meta list"
  lm_known :: "hash \<rightharpoonup> lane"
  lm_maxSize :: int
  lm_tasteScoreWeight :: f64

text \<open>
  \<open>make\<close> of a slice panics on a negative capacity, here \<open>maxSize / 3\<close>; Go's division truncates.
\<close>

definition lm_New :: "f64 \<Rightarrow> int \<Rightarrow> laned option" where
  "lm_New w maxSize = (if maxSize \<le> - 3 then None else Some
     \<lparr>lm_fast = heap_init tx_less [], lm_std = heap_init tx_less [], lm_slow = heap_init tx_less [],
      lm_known = Map.empty, lm_maxSize = maxSize, lm_tasteScoreWeight = w\<rparr>)"

definition ClassifyLane :: "f64 \<Rightarrow> lane" where
  "ClassifyLane tasteScore =
     (if fle FastLaneMinScore tasteScore then LaneFast
      else if fle StandardLaneMinScore tasteScore then LaneStandard
      else LaneSlow)"

text \<open>The queue of a lane, and its replacement: what the pointer \<open>q *txQueue\<close> refers to.\<close>

fun lane_queue :: "laned \<Rightarrow> lane \<Rightarrow> tx_meta list" where
  "lane_queue p LaneFast = lm_fast p"
| "lane_queue p LaneStandard = lm_std p"
| "lane_queue p LaneSlow = lm_slow p"

fun set_lane_queue :: "laned \<Rightarrow> lane \<Rightarrow> tx_meta list \<Rightarrow> laned" where
  "set_lane_queue p LaneFast q = p\<lparr>lm_fast := q\<rparr>"
| "set_lane_queue p LaneStandard q = p\<lparr>lm_std := q\<rparr>"
| "set_lane_queue p LaneSlow q = p\<lparr>lm_slow := q\<rparr>"

definition lm_totalLen :: "laned \<Rightarrow> int" where
  "lm_totalLen p = int (length (lm_fast p)) + int (length (lm_std p)) + int (length (lm_slow p))"

definition lm_Add :: "laned \<Rightarrow> tx \<Rightarrow> address \<Rightarrow> f64 \<Rightarrow> int \<Rightarrow> pool_error + laned" where
  "lm_Add p t sender tasteScore now =
     (if lm_known p (tx_Hash t) \<noteq> None then Inl ErrAlreadyKnown
      else if lm_maxSize p \<le> lm_totalLen p then Inl ErrMempoolFull
      else let item = new_meta (lm_tasteScoreWeight p) t sender tasteScore now;
               lane = ClassifyLane tasteScore;
               p1 = set_lane_queue p lane (heap_push tx_less (lane_queue p lane) item) in
        Inr (p1\<lparr>lm_known := (lm_known p1)(tx_Hash t \<mapsto> lane)\<rparr>))"

text \<open>\<open>drainLane\<close> returns the batch and the gas it used, and the pool without the batch.\<close>

definition drainLane :: "laned \<Rightarrow> lane \<Rightarrow> int \<Rightarrow> u64 \<Rightarrow> tx_meta list \<times> u64 \<times> laned" where
  "drainLane p l maxTx gasLimit =
     (case drain_loop (\<lambda>h known. known(h := None)) maxTx gasLimit (lane_queue p l) (lm_known p) [] 0 of
        (q, known, batch, gasUsed) \<Rightarrow> (batch, gasUsed, (set_lane_queue p l q)\<lparr>lm_known := known\<rparr>))"

text \<open>One step of the second phase: a further drain, only while gas and slots remain.\<close>

definition drainExtra :: "lane \<Rightarrow> int \<Rightarrow> tx_meta list \<times> u64 \<times> laned \<Rightarrow> tx_meta list \<times> u64 \<times> laned" where
  "drainExtra l maxTx s = (case s of (batch, remaining, p) \<Rightarrow>
     if 0 < remaining \<and> int (length batch) < maxTx then
       (case drainLane p l (maxTx - int (length batch)) remaining of
          (extra, extraUsed, p') \<Rightarrow> (batch @ extra, remaining - extraUsed, p'))
     else s)"

definition PopBatchLaned :: "laned \<Rightarrow> int \<Rightarrow> u64 \<Rightarrow> tx_meta list \<times> laned" where
  "PopBatchLaned p maxTx gasLimit =
     (let fastGas = gasLimit * LaneFastGasBps div 10000;
          stdGas = gasLimit * LaneStandardGasBps div 10000;
          slowGas = gasLimit * LaneSlowGasBps div 10000;
          (fastBatch, fastUsed, p1) = drainLane p LaneFast maxTx fastGas;
          batch1 = fastBatch;
          (stdBatch, stdUsed, p2) = drainLane p1 LaneStandard (maxTx - int (length batch1)) stdGas;
          batch2 = batch1 @ stdBatch;
          (slowBatch, slowUsed, p3) = drainLane p2 LaneSlow (maxTx - int (length batch2)) slowGas;
          batch3 = batch2 @ slowBatch;
          totalGas = fastUsed + stdUsed + slowUsed;
          s4 = drainExtra LaneFast maxTx (batch3, gasLimit - totalGas, p3);
          s5 = drainExtra LaneStandard maxTx s4;
          (batch, remaining, p') = drainExtra LaneSlow maxTx s5
      in (batch, p'))"

definition lm_PopBatch :: "laned \<Rightarrow> int \<Rightarrow> u64 \<Rightarrow> tx_meta list \<times> laned" where
  "lm_PopBatch p maxTx gasLimit = PopBatchLaned p maxTx gasLimit"

definition lm_Len :: "laned \<Rightarrow> int" where
  "lm_Len p = lm_totalLen p"

definition LaneSizes :: "laned \<Rightarrow> int \<times> int \<times> int" where
  "LaneSizes p = (int (length (lm_fast p)), int (length (lm_std p)), int (length (lm_slow p)))"

definition lm_Has :: "laned \<Rightarrow> hash \<Rightarrow> bool" where
  "lm_Has p h \<longleftrightarrow> lm_known p h \<noteq> None"

definition lm_Reset :: "laned \<Rightarrow> laned" where
  "lm_Reset p = p\<lparr>lm_fast := heap_init tx_less [], lm_std := heap_init tx_less [],
     lm_slow := heap_init tx_less [], lm_known := Map.empty\<rparr>"

definition lm_Pending :: "laned \<Rightarrow> tx_meta list" where
  "lm_Pending p = lm_fast p @ lm_std p @ lm_slow p"

definition lm_Remove :: "laned \<Rightarrow> hash \<Rightarrow> laned" where
  "lm_Remove p h = (case lm_known p h of
     None \<Rightarrow> p
   | Some l \<Rightarrow> set_lane_queue (p\<lparr>lm_known := (lm_known p)(h := None)\<rparr>) l (queue_remove h (lane_queue p l)))"

fun laneString :: "lane \<Rightarrow> string" where
  "laneString LaneFast = ''fast''"
| "laneString LaneStandard = ''standard''"
| "laneString LaneSlow = ''slow''"

subsection \<open>Lanes and queues\<close>

lemma lane_queue_set [simp]: "lane_queue (set_lane_queue p l q) l' = (if l' = l then q else lane_queue p l')"
  by (cases l; cases l') simp_all

lemma lane_queue_known [simp]: "lane_queue (p\<lparr>lm_known := k\<rparr>) l = lane_queue p l"
  by (cases l) simp_all

lemma set_lane_queue_fields [simp]:
  "lm_known (set_lane_queue p l q) = lm_known p"
  "lm_maxSize (set_lane_queue p l q) = lm_maxSize p"
  "lm_tasteScoreWeight (set_lane_queue p l q) = lm_tasteScoreWeight p"
  by (cases l; simp)+

lemma lm_totalLen_Pending: "lm_totalLen p = int (length (lm_Pending p))"
  by (simp add: lm_totalLen_def lm_Pending_def)

lemma lane_UNIV: "UNIV = {LaneFast, LaneStandard, LaneSlow}"
  using lane.exhaust by auto

lemma set_lm_Pending: "set (lm_Pending p) = (\<Union>l. set (lane_queue p l))"
  unfolding lane_UNIV by (simp add: lm_Pending_def)

text \<open>Replacing one queue changes the pending transactions by that queue.\<close>

lemma mset_Pending_set: "mset (lm_Pending p') + mset (lane_queue p l)
    = mset (lm_Pending p) + mset (lane_queue p' l)"
  if "\<And>l'. l' \<noteq> l \<Longrightarrow> lane_queue p' l' = lane_queue p l'"
  using that [of LaneFast] that [of LaneStandard] that [of LaneSlow]
  by (cases l) (auto simp: lm_Pending_def)

definition laned_ops :: "laned pool_ops" where
  "laned_ops = \<lparr>tp_Add = lm_Add, tp_PopBatch = lm_PopBatch, tp_Len = lm_Len, tp_Pending = lm_Pending,
     tp_Has = lm_Has, tp_LaneSizes = (\<lambda>p. Some (LaneSizes p))\<rparr>"

subsection \<open>The invariant\<close>

definition lane_ok :: "lane \<Rightarrow> tx_meta list \<Rightarrow> bool" where
  "lane_ok l q \<longleftrightarrow> is_heap tx_less q \<and> (\<forall>x \<in> set q. ordered_meta x \<and> ClassifyLane (TasteScore x) = l) \<and>
     distinct (map meta_hash q)"

definition lm_inv :: "laned \<Rightarrow> bool" where
  "lm_inv p \<longleftrightarrow> (\<forall>l. lane_ok l (lane_queue p l)) \<and>
     (\<forall>h l. lm_known p h = Some l \<longleftrightarrow> h \<in> meta_hash ` set (lane_queue p l)) \<and>
     lm_totalLen p \<le> max 0 (lm_maxSize p) \<and> unit_f64 (lm_tasteScoreWeight p)"

lemma lm_inv_lane: "lm_inv p \<Longrightarrow> lane_ok l (lane_queue p l)"
  by (simp add: lm_inv_def)

lemma lm_inv_known: "lm_inv p \<Longrightarrow> lm_known p h = Some l \<longleftrightarrow> h \<in> meta_hash ` set (lane_queue p l)"
  by (simp add: lm_inv_def)

lemma lm_inv_Has: "lm_inv p \<Longrightarrow> lm_Has p h \<longleftrightarrow> h \<in> meta_hash ` set (lm_Pending p)"
  by (auto simp: lm_Has_def lm_inv_def set_lm_Pending)

lemma lm_inv_distinct:
  assumes "lm_inv p"
  shows "distinct (map meta_hash (lm_Pending p))"
proof -
  have "l = l'" if "h \<in> meta_hash ` set (lane_queue p l)" "h \<in> meta_hash ` set (lane_queue p l')" for h l l'
    using that lm_inv_known [OF assms] by (metis option.inject)
  then have "meta_hash ` set (lane_queue p l) \<inter> meta_hash ` set (lane_queue p l') = {}" if "l \<noteq> l'" for l l'
    using that by blast
  note d = this
  show ?thesis
    using lm_inv_lane [OF assms, of LaneFast] lm_inv_lane [OF assms, of LaneStandard]
      lm_inv_lane [OF assms, of LaneSlow]
      d [of LaneFast LaneStandard] d [of LaneFast LaneSlow] d [of LaneStandard LaneSlow]
    by (simp add: lm_Pending_def lane_ok_def Int_Un_distrib)
qed

lemma lm_New_inv:
  assumes "unit_f64 w" and "lm_New w n = Some p"
  shows "lm_inv p \<and> lm_maxSize p = n \<and> lm_tasteScoreWeight p = w"
proof -
  have "lane_queue p l = []" for l using assms(2) by (cases l) (auto simp: lm_New_def split: if_splits)
  then show ?thesis
    using assms by (auto simp: lm_New_def lm_inv_def lane_ok_def lm_totalLen_def split: if_splits)
qed

lemma lm_Add_ok:
  assumes inv: "lm_inv p" and c: "is_finite c" and new: "lm_known p (tx_Hash t) = None"
    and room: "lm_totalLen p < lm_maxSize p"
  shows "\<exists>p'. lm_Add p t s c now = Inr p' \<and> lm_inv p' \<and> lm_maxSize p' = lm_maxSize p \<and>
      lm_tasteScoreWeight p' = lm_tasteScoreWeight p \<and>
      mset (lm_Pending p') = add_mset (new_meta (lm_tasteScoreWeight p) t s c now) (mset (lm_Pending p))"
proof -
  let ?x = "new_meta (lm_tasteScoreWeight p) t s c now" and ?l = "ClassifyLane c"
  let ?q = "heap_push tx_less (lane_queue p ?l) ?x"
  let ?p = "(set_lane_queue p ?l ?q)\<lparr>lm_known := (lm_known p)(tx_Hash t \<mapsto> ?l)\<rparr>"
  have x: "ordered_meta ?x" using inv c by (simp add: lm_inv_def new_meta_ordered)
  have fresh: "tx_Hash t \<notin> meta_hash ` set (lane_queue p l)" for l
    using lm_inv_known [OF inv, of "tx_Hash t" l] new by simp
  have ok: "lane_ok ?l (lane_queue p ?l)" using inv by (rule lm_inv_lane)
  have "mset (map meta_hash ?q) = mset (map meta_hash (?x # lane_queue p ?l))" by simp
  then have "distinct (map meta_hash ?q) \<longleftrightarrow> distinct (map meta_hash (?x # lane_queue p ?l))"
    by (rule mset_eq_imp_distinct_iff)
  then have "lane_ok ?l ?q"
    using ok x fresh by (auto simp: lane_ok_def txq.push_heap)
  then have lanes: "lane_ok l (lane_queue ?p l)" for l using lm_inv_lane [OF inv] by simp
  have known: "lm_known ?p h = Some l \<longleftrightarrow> h \<in> meta_hash ` set (lane_queue ?p l)" for h l
    using lm_inv_known [OF inv, of h l] fresh [of l] by auto
  have pend: "mset (lm_Pending ?p) = add_mset ?x (mset (lm_Pending p))"
    using mset_Pending_set [of ?l ?p p] by simp
  then have "lm_totalLen ?p = lm_totalLen p + 1"
    unfolding lm_totalLen_Pending by (metis of_nat_Suc size_add_mset size_mset add.commute)
  then have "lm_inv ?p"
    unfolding lm_inv_def using lanes known room inv by (auto simp: lm_inv_def)
  moreover have "lm_Add p t s c now = Inr ?p"
    using new room by (simp add: lm_Add_def Let_def)
  ultimately show ?thesis using pend by (intro exI [of _ ?p]) simp
qed

lemma lm_Add_inv: "lm_inv p \<Longrightarrow> is_finite c \<Longrightarrow> lm_Add p t s c now = Inr p' \<Longrightarrow> lm_inv p'"
  using lm_Add_ok [of p c t s now] by (auto simp: lm_Add_def split: if_splits)

subsection \<open>Draining\<close>

definition lm_moves :: "laned \<Rightarrow> tx_meta list \<Rightarrow> laned \<Rightarrow> bool" where
  "lm_moves p b p' \<longleftrightarrow> lm_inv p' \<and> lm_maxSize p' = lm_maxSize p \<and>
     lm_tasteScoreWeight p' = lm_tasteScoreWeight p \<and>
     mset (lm_Pending p) = mset b + mset (lm_Pending p')"

lemma lm_moves_refl: "lm_inv p \<Longrightarrow> lm_moves p [] p"
  by (simp add: lm_moves_def)

lemma lm_moves_trans: "lm_moves p a p1 \<Longrightarrow> lm_moves p1 b p2 \<Longrightarrow> lm_moves p (a @ b) p2"
  by (simp add: lm_moves_def)

lemma lm_moves_inv: "lm_moves p b p' \<Longrightarrow> lm_inv p'"
  by (simp add: lm_moves_def)

lemma lm_moves_set: "lm_moves p b p' \<Longrightarrow> set (lm_Pending p') \<subseteq> set (lm_Pending p)"
  unfolding lm_moves_def by (metis set_mset_mset set_mset_union sup.cobounded2)

lemma gas_fits_mono: "gas_fits g q \<Longrightarrow> unat g' \<le> unat g \<Longrightarrow> set q' \<subseteq> set q \<Longrightarrow> gas_fits g' q'"
  unfolding gas_fits_def by (meson add_le_mono1 order_le_less_trans subsetD)

lemma fold_del_map: "fold (\<lambda>h known. known(h := None)) hs K = (\<lambda>h. if h \<in> set hs then None else K h)"
  by (induction hs arbitrary: K) (auto simp: fun_eq_iff)

lemma drainLane_moves:
  assumes inv: "lm_inv p" and d: "drainLane p l k g = (b, u, p')"
  shows "lm_moves p b p'" and "int (length b) \<le> max 0 k" and "set b \<subseteq> set (lane_queue p l)"
    and "mset (lane_queue p l) = mset b + mset (lane_queue p' l)"
    and "\<And>l'. l' \<noteq> l \<Longrightarrow> lane_queue p' l' = lane_queue p l'"
proof -
  let ?r = "drain_loop (\<lambda>h known. known(h := None)) k g (lane_queue p l) (lm_known p) [] 0"
  obtain q known where r: "?r = (q, known, b, u)" and p': "p' = (set_lane_queue p l q)\<lparr>lm_known := known\<rparr>"
    using d by (auto simp: drainLane_def split: prod.splits)
  have ok: "lane_ok l (lane_queue p l)" using inv by (rule lm_inv_lane)
  then have h: "is_heap tx_less (lane_queue p l)" "\<forall>x \<in> set (lane_queue p l). ordered_meta x"
    by (simp_all add: lane_ok_def)
  obtain new where new: "moved (\<lambda>h known. known(h := None)) (lane_queue p l) (lm_known p) [] new ?r"
      "int (length new) \<le> max 0 (k - int (length ([] :: tx_meta list)))"
    using drain_moves [OF h, of "\<lambda>h known. known(h := None)" "lm_known p" "[]" k g 0] by auto
  have b: "b = new" "mset (lane_queue p l) = mset b + mset q" "is_heap tx_less q"
      "known = (\<lambda>h. if h \<in> set (map meta_hash b) then None else lm_known p h)"
    using new(1) by (simp_all add: moved_def r fold_del_map)
  show "int (length b) \<le> max 0 k" using new(2) b(1) by simp
  have dist: "distinct (map meta_hash (lane_queue p l))" using ok by (simp add: lane_ok_def)
  note split = hashes_split [OF b(2) dist]
  show "set b \<subseteq> set (lane_queue p l)" using split(4) by blast
  show mq: "mset (lane_queue p l) = mset b + mset (lane_queue p' l)" using b(2) p' by simp
  show other: "lane_queue p' l' = lane_queue p l'" if "l' \<noteq> l" for l' using that p' by simp
  have "lane_ok l q" using ok b(3) split(1,4) by (auto simp: lane_ok_def)
  then have lanes: "lane_ok l' (lane_queue p' l')" for l'
    using lm_inv_lane [OF inv] p' by simp
  have kb: "lm_known p h = Some l" if "h \<in> set (map meta_hash b)" for h
    using that split(4) lm_inv_known [OF inv, of h l] by auto
  have known': "lm_known p' h = Some l' \<longleftrightarrow> h \<in> meta_hash ` set (lane_queue p' l')" for h l'
  proof (cases "l' = l")
    case True
    then show ?thesis using split(3) lm_inv_known [OF inv, of h l] b(4) p' by auto
  next
    case False
    then have "lm_known p' h = Some l' \<longleftrightarrow> lm_known p h = Some l'" using kb b(4) p' by auto
    with False show ?thesis using lm_inv_known [OF inv, of h l'] other by simp
  qed
  have pend: "mset (lm_Pending p) = mset b + mset (lm_Pending p')"
    using mset_Pending_set [of l p' p] other mq by (simp add: add.commute)
  then have "lm_totalLen p = int (length b) + lm_totalLen p'"
    unfolding lm_totalLen_Pending using mset_eq_length [of "lm_Pending p" "b @ lm_Pending p'"] by simp
  then have "lm_totalLen p' \<le> max 0 (lm_maxSize p')" using inv p' by (simp add: lm_inv_def)
  then have "lm_inv p'" using lanes known' inv p' by (simp add: lm_inv_def)
  then show "lm_moves p b p'" using pend p' by (simp add: lm_moves_def)
qed

text \<open>Each drain is the greedy prefix of its lane's queue in order of priority.\<close>

lemma drainLane_greedy:
  assumes inv: "lm_inv p" and d: "drainLane p l k g = (b, u, p')" and fits: "gas_fits g (lane_queue p l)"
  obtains xs where "mset xs = mset (lane_queue p l)" and "sorted_wrt tx_before_eq xs"
    and "b = greedy_prefix k (unat g) 0 xs" and "unat u = sum_list (map meta_gas b)"
proof -
  have h: "is_heap tx_less (lane_queue p l)" "\<forall>x \<in> set (lane_queue p l). ordered_meta x"
    using lm_inv_lane [OF inv, of l] by (simp_all add: lane_ok_def)
  obtain xs where "drained (\<lambda>h known. known(h := None)) (lane_queue p l) (lm_known p) [] (unat (0 :: u64)) xs
      (greedy_prefix (k - int (length ([] :: tx_meta list))) (unat g) (unat (0 :: u64)) xs)
      (drain_loop (\<lambda>h known. known(h := None)) k g (lane_queue p l) (lm_known p) [] 0)"
    using drain_refines [OF h fits, of 0 "\<lambda>h known. known(h := None)" "lm_known p" "[]" k] by auto
  then show ?thesis
    using d by (intro that [of xs]) (auto simp: drainLane_def drained_def split: prod.splits)
qed

lemma drainLane_gas:
  assumes "lm_inv p" and "drainLane p l k g = (b, u, p')" and "gas_fits g (lane_queue p l)"
  shows "unat u = sum_list (map meta_gas b)" and "unat u \<le> unat g"
  using drainLane_greedy [OF assms] greedy_prefix_gas [of 0 "unat g" k] by (metis add_0 le0)+

lemma lane_queue_Pending: "set (lane_queue p l) \<subseteq> set (lm_Pending p)"
  by (auto simp: set_lm_Pending)

lemma drainExtra_moves:
  assumes inv: "lm_inv p" and len: "int (length b) \<le> max 0 k" and e: "drainExtra l k (b, r, p) = (b', r', p')"
  shows "\<exists>x. b' = b @ x \<and> lm_moves p x p' \<and> int (length b') \<le> max 0 k \<and>
    (gas_fits r (lm_Pending p) \<longrightarrow> unat r = sum_list (map meta_gas x) + unat r')"
proof (cases "0 < r \<and> int (length b) < k")
  case False
  then show ?thesis using e len inv by (auto simp: drainExtra_def lm_moves_refl)
next
  case True
  obtain x u p1 where d: "drainLane p l (k - int (length b)) r = (x, u, p1)"
    by (cases "drainLane p l (k - int (length b)) r")
  then have r: "b' = b @ x" "r' = r - u" "p' = p1" using True e by (simp_all add: drainExtra_def)
  note m = drainLane_moves(1,2) [OF inv d]
  have "unat r = sum_list (map meta_gas x) + unat r'" if "gas_fits r (lm_Pending p)"
  proof -
    have "gas_fits r (lane_queue p l)" using that gas_fits_mono lane_queue_Pending by blast
    then have "unat u = sum_list (map meta_gas x)" "unat u \<le> unat r" using drainLane_gas [OF inv d] by auto
    then show ?thesis using r(2) by (simp add: unat_sub_no_wrap u64_le_nat)
  qed
  with m r True show ?thesis by (intro exI [of _ x]) auto
qed

subsection \<open>The whole batch\<close>

text \<open>The three shares never sum to more than the limit, even where the product wraps around.\<close>

lemma share_le: "unat (g * bps div 10000 :: u64) \<le> unat g * unat bps div 10000"
proof -
  have "unat (g * bps) \<le> unat g * unat bps" by (simp add: unat_word_ariths)
  then show ?thesis by (simp add: unat_div div_le_mono)
qed

lemma shares_le:
  "unat (g * LaneFastGasBps div 10000) + unat (g * LaneStandardGasBps div 10000)
     + unat (g * LaneSlowGasBps div 10000) \<le> unat g"
  using share_le [of g 4000] share_le [of g 2000]
  by (simp add: LaneFastGasBps_def LaneStandardGasBps_def LaneSlowGasBps_def)

text \<open>The six drains of a batch, each on the pool that the one before left.\<close>

lemma PopBatchLaned_steps:
  assumes "PopBatchLaned p k g = (b, p')"
  obtains b1 u1 p1 b2 u2 p2 b3 u3 p3 c4 r4 p4 c5 r5 p5 r6
    where "drainLane p LaneFast k (g * LaneFastGasBps div 10000) = (b1, u1, p1)"
    and "drainLane p1 LaneStandard (k - int (length b1)) (g * LaneStandardGasBps div 10000) = (b2, u2, p2)"
    and "drainLane p2 LaneSlow (k - int (length (b1 @ b2))) (g * LaneSlowGasBps div 10000) = (b3, u3, p3)"
    and "drainExtra LaneFast k (b1 @ b2 @ b3, g - (u1 + u2 + u3), p3) = (c4, r4, p4)"
    and "drainExtra LaneStandard k (c4, r4, p4) = (c5, r5, p5)"
    and "drainExtra LaneSlow k (c5, r5, p5) = (b, r6, p')"
proof -
  obtain b1 u1 p1 where d1: "drainLane p LaneFast k (g * LaneFastGasBps div 10000) = (b1, u1, p1)"
    by (rule prod_cases3)
  obtain b2 u2 p2 where d2: "drainLane p1 LaneStandard (k - int (length b1))
      (g * LaneStandardGasBps div 10000) = (b2, u2, p2)" by (rule prod_cases3)
  obtain b3 u3 p3 where d3: "drainLane p2 LaneSlow (k - int (length (b1 @ b2)))
      (g * LaneSlowGasBps div 10000) = (b3, u3, p3)" by (rule prod_cases3)
  obtain c4 r4 p4 where e4: "drainExtra LaneFast k (b1 @ b2 @ b3, g - (u1 + u2 + u3), p3) = (c4, r4, p4)"
    by (rule prod_cases3)
  obtain c5 r5 p5 where e5: "drainExtra LaneStandard k (c4, r4, p4) = (c5, r5, p5)" by (rule prod_cases3)
  obtain c6 r6 p6 where e6: "drainExtra LaneSlow k (c5, r5, p5) = (c6, r6, p6)" by (rule prod_cases3)
  have "(b, p') = (c6, p6)"
    using assms d1 d2 d3 e4 e5 e6 by (simp add: PopBatchLaned_def)
  then show ?thesis using that [OF d1 d2 d3 e4 e5] e6 by simp
qed

text \<open>The six drains of a block: what each moves, from which state, and its gas.\<close>

lemma PopBatchLaned_drains:
  assumes inv: "lm_inv p" and pop: "PopBatchLaned p k g = (b, p')"
  obtains b1 u1 p1 b2 u2 p2 b3 u3 p3 x4 r4 p4 x5 r5 p5 x6
  where "drainLane p LaneFast k (g * LaneFastGasBps div 10000) = (b1, u1, p1)" "lm_moves p b1 p1"
    and "drainLane p1 LaneStandard (k - int (length b1)) (g * LaneStandardGasBps div 10000) = (b2, u2, p2)" "lm_moves p1 b2 p2"
    and "drainLane p2 LaneSlow (k - int (length (b1 @ b2))) (g * LaneSlowGasBps div 10000) = (b3, u3, p3)" "lm_moves p2 b3 p3"
    and "lm_moves p3 x4 p4" "gas_fits (g - (u1 + u2 + u3)) (lm_Pending p3) \<longrightarrow>
        unat (g - (u1 + u2 + u3)) = sum_list (map meta_gas x4) + unat r4"
    and "lm_moves p4 x5 p5" "gas_fits r4 (lm_Pending p4) \<longrightarrow> unat r4 = sum_list (map meta_gas x5) + unat r5"
    and "lm_moves p5 x6 p'" "gas_fits r5 (lm_Pending p5) \<longrightarrow> sum_list (map meta_gas x6) \<le> unat r5"
    and "b = b1 @ b2 @ b3 @ x4 @ x5 @ x6" "int (length b) \<le> max 0 k"
proof -
  let ?f = "g * LaneFastGasBps div 10000" and ?s = "g * LaneStandardGasBps div 10000"
    and ?w = "g * LaneSlowGasBps div 10000"
  obtain b1 u1 p1 b2 u2 p2 b3 u3 p3 c4 r4 p4 c5 r5 p5 r6
    where d1: "drainLane p LaneFast k ?f = (b1, u1, p1)"
    and d2: "drainLane p1 LaneStandard (k - int (length b1)) ?s = (b2, u2, p2)"
    and d3: "drainLane p2 LaneSlow (k - int (length (b1 @ b2))) ?w = (b3, u3, p3)"
    and e4: "drainExtra LaneFast k (b1 @ b2 @ b3, g - (u1 + u2 + u3), p3) = (c4, r4, p4)"
    and e5: "drainExtra LaneStandard k (c4, r4, p4) = (c5, r5, p5)"
    and e6: "drainExtra LaneSlow k (c5, r5, p5) = (b, r6, p')"
    using PopBatchLaned_steps [OF pop] .
  note m1 = drainLane_moves [OF inv d1]
  note m2 = drainLane_moves [OF lm_moves_inv [OF m1(1)] d2]
  note m3 = drainLane_moves [OF lm_moves_inv [OF m2(1)] d3]
  have len3: "int (length (b1 @ b2 @ b3)) \<le> max 0 k" using m1(2) m2(2) m3(2) by auto
  obtain x4 where x4: "c4 = (b1 @ b2 @ b3) @ x4" "lm_moves p3 x4 p4" "int (length c4) \<le> max 0 k"
      "gas_fits (g - (u1 + u2 + u3)) (lm_Pending p3) \<longrightarrow>
        unat (g - (u1 + u2 + u3)) = sum_list (map meta_gas x4) + unat r4"
    using drainExtra_moves [OF lm_moves_inv [OF m3(1)] len3 e4] by blast
  obtain x5 where x5: "c5 = c4 @ x5" "lm_moves p4 x5 p5" "int (length c5) \<le> max 0 k"
      "gas_fits r4 (lm_Pending p4) \<longrightarrow> unat r4 = sum_list (map meta_gas x5) + unat r5"
    using drainExtra_moves [OF lm_moves_inv [OF x4(2)] x4(3) e5] by blast
  obtain x6 where x6: "b = c5 @ x6" "lm_moves p5 x6 p'" "int (length b) \<le> max 0 k"
      "gas_fits r5 (lm_Pending p5) \<longrightarrow> sum_list (map meta_gas x6) \<le> unat r5"
    using drainExtra_moves [OF lm_moves_inv [OF x5(2)] x5(3) e6] by auto
  have "b = b1 @ b2 @ b3 @ x4 @ x5 @ x6" using x4(1) x5(1) x6(1) by simp
  from that [OF d1 m1(1) d2 m2(1) d3 m3(1) x4(2,4) x5(2,4) x6(2,4) this x6(3)] show ?thesis .
qed

lemma PopBatchLaned_facts:
  assumes inv: "lm_inv p" and pop: "PopBatchLaned p k g = (b, p')"
  shows "lm_moves p b p'" and "int (length b) \<le> max 0 k"
    and "gas_fits g (lm_Pending p) \<Longrightarrow> sum_list (map meta_gas b) \<le> unat g"
proof -
  let ?f = "g * LaneFastGasBps div 10000" and ?s = "g * LaneStandardGasBps div 10000"
    and ?w = "g * LaneSlowGasBps div 10000"
  from inv pop obtain b1 u1 p1 b2 u2 p2 b3 u3 p3 x4 r4 p4 x5 r5 p5 x6
    where d1: "drainLane p LaneFast k ?f = (b1, u1, p1)" and m1: "lm_moves p b1 p1"
    and d2: "drainLane p1 LaneStandard (k - int (length b1)) ?s = (b2, u2, p2)" and m2: "lm_moves p1 b2 p2"
    and d3: "drainLane p2 LaneSlow (k - int (length (b1 @ b2))) ?w = (b3, u3, p3)" and m3: "lm_moves p2 b3 p3"
    and x4: "lm_moves p3 x4 p4" "gas_fits (g - (u1 + u2 + u3)) (lm_Pending p3) \<longrightarrow>
        unat (g - (u1 + u2 + u3)) = sum_list (map meta_gas x4) + unat r4"
    and x5: "lm_moves p4 x5 p5" "gas_fits r4 (lm_Pending p4) \<longrightarrow> unat r4 = sum_list (map meta_gas x5) + unat r5"
    and x6: "lm_moves p5 x6 p'" "gas_fits r5 (lm_Pending p5) \<longrightarrow> sum_list (map meta_gas x6) \<le> unat r5"
    and b: "b = b1 @ b2 @ b3 @ x4 @ x5 @ x6" and len: "int (length b) \<le> max 0 k"
    by (rule PopBatchLaned_drains)
  note m12 = lm_moves_trans [OF m1 m2] note m123 = lm_moves_trans [OF m12 m3]
  note m4 = lm_moves_trans [OF m123 x4(1)] note m5 = lm_moves_trans [OF m4 x5(1)]
  show "lm_moves p b p'" using lm_moves_trans [OF m5 x6(1)] b by simp
  show "int (length b) \<le> max 0 k" by (rule len)
  assume fits: "gas_fits g (lm_Pending p)"
  have sh: "unat ?f + unat ?s + unat ?w \<le> unat g" by (rule shares_le)
  have q: "set (lm_Pending p1) \<subseteq> set (lm_Pending p)" "set (lm_Pending p2) \<subseteq> set (lm_Pending p)"
      "set (lm_Pending p3) \<subseteq> set (lm_Pending p)" "set (lm_Pending p4) \<subseteq> set (lm_Pending p)"
      "set (lm_Pending p5) \<subseteq> set (lm_Pending p)"
    using lm_moves_set [OF m1] lm_moves_set [OF m12] lm_moves_set [OF m123]
      lm_moves_set [OF m4] lm_moves_set [OF m5] by auto
  note sub = order_trans [OF lane_queue_Pending]
  have le: "unat ?f \<le> unat g" "unat ?s \<le> unat g" "unat ?w \<le> unat g" using sh by simp_all
  note g1 = drainLane_gas [OF inv d1 gas_fits_mono [OF fits le(1) lane_queue_Pending]]
  note g2 = drainLane_gas [OF lm_moves_inv [OF m1] d2 gas_fits_mono [OF fits le(2) sub [OF q(1)]]]
  note g3 = drainLane_gas [OF lm_moves_inv [OF m2] d3 gas_fits_mono [OF fits le(3) sub [OF q(2)]]]
  have u12: "unat (u1 + u2) = unat u1 + unat u2"
    using g1(2) g2(2) sh unat_u64_bound [of g] by (intro unat_add_no_wrap) linarith
  have u123: "unat (u1 + u2 + u3) = unat u1 + unat u2 + unat u3"
    using u12 g1(2) g2(2) g3(2) sh unat_u64_bound [of g] by (subst unat_add_no_wrap) linarith+
  then have r3: "unat (g - (u1 + u2 + u3)) = unat g - (unat u1 + unat u2 + unat u3)"
    using g1(2) g2(2) g3(2) sh by (subst unat_sub_no_wrap) (simp_all add: u64_le_nat)
  have s4: "unat (g - (u1 + u2 + u3)) = sum_list (map meta_gas x4) + unat r4"
    using x4(2) gas_fits_mono [OF fits _ q(3)] r3 by simp
  then have s5: "unat r4 = sum_list (map meta_gas x5) + unat r5"
    using x5(2) gas_fits_mono [OF fits _ q(4)] r3 by simp
  then have s6: "sum_list (map meta_gas x6) \<le> unat r5"
    using x6(2) gas_fits_mono [OF fits _ q(5)] r3 s4 by simp
  show "sum_list (map meta_gas b) \<le> unat g"
    using r3 s4 s5 s6 g1 g2 g3 sh b by simp
qed

lemma lm_Remove_inv:
  assumes inv: "lm_inv p"
  shows "lm_inv (lm_Remove p h)"
proof (cases "lm_known p h")
  case (Some l)
  let ?p = "lm_Remove p h"
  have ok: "lane_ok l (lane_queue p l)" using inv by (rule lm_inv_lane)
  then have dist: "distinct (map meta_hash (lane_queue p l))" by (simp add: lane_ok_def)
  note f = queue_remove_facts(2-) [OF dist, of h]
  have q: "lane_queue ?p l' = (if l' = l then queue_remove h (lane_queue p l) else lane_queue p l')" for l'
    using Some by (simp add: lm_Remove_def)
  have "lane_ok l (queue_remove h (lane_queue p l))"
    using ok f by (auto simp: lane_ok_def queue_remove_heap)
  then have lanes: "lane_ok l' (lane_queue ?p l')" for l' using q lm_inv_lane [OF inv] by simp
  have known: "lm_known ?p h' = Some l' \<longleftrightarrow> h' \<in> meta_hash ` set (lane_queue ?p l')" for h' l'
    using Some q f lm_inv_known [OF inv, of h' l'] by (auto simp: lm_Remove_def)
  have "length (lane_queue ?p l) \<le> length (lane_queue p l)" using q f by simp
  then have "lm_totalLen ?p \<le> lm_totalLen p"
    using q [of LaneFast] q [of LaneStandard] q [of LaneSlow] by (cases l) (auto simp: lm_totalLen_def)
  moreover have "lm_maxSize ?p = lm_maxSize p" "lm_tasteScoreWeight ?p = lm_tasteScoreWeight p"
    using Some by (simp_all add: lm_Remove_def)
  ultimately show ?thesis
    using lanes known inv unfolding lm_inv_def by (metis order_trans)
qed (use inv in \<open>simp add: lm_Remove_def\<close>)

lemma lm_Reset_inv: "lm_inv p \<Longrightarrow> lm_inv (lm_Reset p)"
proof -
  assume inv: "lm_inv p"
  have "lane_queue (lm_Reset p) l = []" for l by (cases l) (simp_all add: lm_Reset_def)
  then show ?thesis using inv by (auto simp: lm_inv_def lm_Reset_def lm_totalLen_def lane_ok_def)
qed

subsection \<open>The interface\<close>

interpretation lm: tx_pool lm_Add lm_PopBatch lm_Len lm_Pending lm_Has lm_inv lm_maxSize
  lm_tasteScoreWeight
proof
  fix p :: laned and t :: tx and s c now h k g b p'
  show "lm_Has p (tx_Hash t) \<Longrightarrow> lm_Add p t s c now = Inl ErrAlreadyKnown"
    by (simp add: lm_Has_def lm_Add_def)
  show "\<not> lm_Has p (tx_Hash t) \<Longrightarrow> lm_maxSize p \<le> lm_Len p \<Longrightarrow> lm_Add p t s c now = Inl ErrMempoolFull"
    by (simp add: lm_Has_def lm_Add_def lm_Len_def)
  assume p: "lm_inv p"
  show "is_finite c \<Longrightarrow> \<not> lm_Has p (tx_Hash t) \<Longrightarrow> lm_Len p < lm_maxSize p \<Longrightarrow>
      \<exists>p'. lm_Add p t s c now = Inr p' \<and> lm_inv p' \<and> lm_maxSize p' = lm_maxSize p \<and>
        lm_tasteScoreWeight p' = lm_tasteScoreWeight p \<and>
        mset (lm_Pending p') = add_mset (new_meta (lm_tasteScoreWeight p) t s c now) (mset (lm_Pending p))"
    using lm_Add_ok [OF p, of c t s now] by (simp add: lm_Has_def lm_Len_def)
  show "lm_Has p h \<longleftrightarrow> h \<in> meta_hash ` set (lm_Pending p)" using p by (rule lm_inv_Has)
  show "lm_Len p = int (length (lm_Pending p))" by (simp add: lm_Len_def lm_totalLen_Pending)
  show "distinct (map meta_hash (lm_Pending p))" using p by (rule lm_inv_distinct)
  assume pop: "lm_PopBatch p k g = (b, p')"
  note f = PopBatchLaned_facts [OF p pop [unfolded lm_PopBatch_def]]
  show "lm_inv p' \<and> lm_maxSize p' = lm_maxSize p \<and> lm_tasteScoreWeight p' = lm_tasteScoreWeight p \<and>
      mset (lm_Pending p) = mset b + mset (lm_Pending p') \<and> int (length b) \<le> max 0 k"
    using f(1,2) by (simp add: lm_moves_def)
  show "gas_fits g (lm_Pending p) \<Longrightarrow> sum_list (map meta_gas b) \<le> unat g" by (rule f(3))
qed

subsection \<open>The reachable pools\<close>

inductive lm_reach :: "f64 \<Rightarrow> int \<Rightarrow> laned \<Rightarrow> bool" for w n where
  New: "lm_New w n = Some p \<Longrightarrow> lm_reach w n p"
| Add: "lm_reach w n p \<Longrightarrow> is_finite c \<Longrightarrow> lm_Add p t s c now = Inr p' \<Longrightarrow> lm_reach w n p'"
| PopBatch: "lm_reach w n p \<Longrightarrow> lm_PopBatch p k g = (b, p') \<Longrightarrow> lm_reach w n p'"
| Remove: "lm_reach w n p \<Longrightarrow> lm_reach w n (lm_Remove p h)"
| Reset: "lm_reach w n p \<Longrightarrow> lm_reach w n (lm_Reset p)"

lemma lm_Remove_fields [simp]: "lm_maxSize (lm_Remove p h) = lm_maxSize p"
  "lm_tasteScoreWeight (lm_Remove p h) = lm_tasteScoreWeight p"
  by (simp_all add: lm_Remove_def split: option.split)

lemma lm_reach_inv:
  assumes "unit_f64 w" and "lm_reach w n p"
  shows "lm_inv p \<and> lm_maxSize p = n \<and> lm_tasteScoreWeight p = w"
  using assms(2)
proof induction
  case (New p)
  with assms(1) show ?case by (simp add: lm_New_inv)
next
  case (Add p c t s now p')
  then have "lm_inv p'" using lm_Add_inv by blast
  with Add show ?case by (auto simp: lm_Add_def Let_def split: if_splits)
next
  case (PopBatch p k g b p')
  then show ?case using lm.pop_partition [of p k g b p'] by simp
next
  case (Remove p h)
  then show ?case using lm_Remove_inv by simp
next
  case (Reset p)
  then show ?case using lm_Reset_inv by (simp add: lm_Reset_def)
qed

subsection \<open>Lane shares\<close>

lemma drainLane_none: "k \<le> 0 \<Longrightarrow> drainLane p l k g = ([], 0, p)"
  by (cases l) (simp_all add: drainLane_def drain_loop.simps)

lemma drainExtra_none: "k \<le> int (length b) \<Longrightarrow> drainExtra l k (b, r, p) = (b, r, p)"
  by (simp add: drainExtra_def)

lemma greedy_prefix_count: "int (length ms) \<le> k \<Longrightarrow>
    greedy_prefix k cap used ms = greedy_prefix (int (length ms)) cap used ms"
proof (induction ms arbitrary: k used)
  case (Cons m ms)
  then have "greedy_prefix (k - 1) cap (used + meta_gas m) ms
      = greedy_prefix (int (length ms)) cap (used + meta_gas m) ms"
    by (intro Cons.IH) simp
  with Cons.prems show ?case by simp
qed simp

lemma greedy_prefix_all: "used + sum_list (map meta_gas ms) \<le> cap \<Longrightarrow>
    greedy_prefix k cap used ms = take (nat k) ms"
proof (induction ms arbitrary: k used)
  case (Cons m ms)
  show ?case
  proof (cases "k \<le> 0")
    case False
    then have "nat k = Suc (nat (k - 1))" by simp
    moreover have "greedy_prefix (k - 1) cap (used + meta_gas m) ms = take (nat (k - 1)) ms"
      using Cons.prems by (intro Cons.IH) simp
    ultimately show ?thesis using False Cons.prems by simp
  qed simp
qed simp

text \<open>What a lane is entitled to: the greedy prefix of its queue within its share of the gas.\<close>

definition lane_share :: "u64 \<Rightarrow> lane \<Rightarrow> u64" where
  "lane_share g l = g * (case l of LaneFast \<Rightarrow> LaneFastGasBps | LaneStandard \<Rightarrow> LaneStandardGasBps
     | LaneSlow \<Rightarrow> LaneSlowGasBps) div 10000"

definition share_granted :: "u64 \<Rightarrow> tx_meta list \<Rightarrow> tx_meta list \<Rightarrow> bool" where
  "share_granted g q b \<longleftrightarrow> (\<exists>xs. mset xs = mset q \<and> sorted_wrt tx_before_eq xs \<and>
     set (greedy_prefix (int (length xs)) (unat g) 0 xs) \<subseteq> set b)"

lemma drainLane_granted:
  assumes "lm_inv p" and "drainLane p l k g = (b, u, p')" and "gas_fits g (lane_queue p l)"
    and "int (length (lane_queue p l)) \<le> k"
  shows "share_granted g (lane_queue p l) b"
proof -
  obtain xs where xs: "mset xs = mset (lane_queue p l)" "sorted_wrt tx_before_eq xs"
      "b = greedy_prefix k (unat g) 0 xs"
    using drainLane_greedy [OF assms(1-3)] by metis
  then have "length xs = length (lane_queue p l)" using mset_eq_length by blast
  with xs assms(4) show ?thesis
    unfolding share_granted_def using greedy_prefix_count [of xs k] by auto
qed

lemma share_granted_mono: "share_granted g q b \<Longrightarrow> set b \<subseteq> set b' \<Longrightarrow> share_granted g q b'"
  unfolding share_granted_def by (meson subset_trans)

lemma lane_shares_granted:
  assumes inv: "lm_inv p" and pop: "PopBatchLaned p k g = (b, p')" and fits: "gas_fits g (lm_Pending p)"
    and slots: "lm_totalLen p \<le> k"
  shows "share_granted (lane_share g l) (lane_queue p l) b"
proof -
  obtain b1 u1 p1 b2 u2 p2 b3 u3 p3 c4 r4 p4 c5 r5 p5 r6
    where d1: "drainLane p LaneFast k (lane_share g LaneFast) = (b1, u1, p1)"
    and d2: "drainLane p1 LaneStandard (k - int (length b1)) (lane_share g LaneStandard) = (b2, u2, p2)"
    and d3: "drainLane p2 LaneSlow (k - int (length (b1 @ b2))) (lane_share g LaneSlow) = (b3, u3, p3)"
    and e4: "drainExtra LaneFast k (b1 @ b2 @ b3, g - (u1 + u2 + u3), p3) = (c4, r4, p4)"
    and e5: "drainExtra LaneStandard k (c4, r4, p4) = (c5, r5, p5)"
    and e6: "drainExtra LaneSlow k (c5, r5, p5) = (b, r6, p')"
    using PopBatchLaned_steps [OF pop] unfolding lane_share_def lane.case .
  note m1 = drainLane_moves [OF inv d1]
  have i1: "lm_inv p1" using m1(1) by (rule lm_moves_inv)
  note m2 = drainLane_moves [OF i1 d2]
  have i2: "lm_inv p2" using m2(1) by (rule lm_moves_inv)
  have ext: "set b0 \<subseteq> set b0'" if "drainExtra l k (b0, r, q) = (b0', r', q')" for l b0 b0' r r' q q'
    using that by (auto simp: drainExtra_def split: if_splits prod.splits)
  have sub: "set (b1 @ b2 @ b3) \<subseteq> set b"
    using ext [OF e4] ext [OF e5] ext [OF e6] by blast
  have q: "lane_queue p1 LaneStandard = lane_queue p LaneStandard" "lane_queue p2 LaneSlow = lane_queue p LaneSlow"
    using m1(5) [of LaneStandard] m1(5) [of LaneSlow] m2(5) [of LaneSlow] by simp_all
  have len: "length b1 \<le> length (lm_fast p)" "length b2 \<le> length (lm_std p)"
    using m1(4) m2(4) mset_eq_length [of "lm_fast p" "b1 @ lm_fast p1"]
      mset_eq_length [of "lm_std p1" "b2 @ lm_std p2"] q by simp_all
  have sh: "unat (lane_share g l) \<le> unat g" for l
    using shares_le [of g] by (cases l) (simp_all add: lane_share_def)
  have fit: "gas_fits (lane_share g l) (lane_queue p l)" for l
    using gas_fits_mono [OF fits sh lane_queue_Pending] .
  have "share_granted (lane_share g LaneFast) (lane_queue p LaneFast) b1"
    using drainLane_granted [OF inv d1 fit] slots by (simp add: lm_totalLen_def)
  moreover have "share_granted (lane_share g LaneStandard) (lane_queue p LaneStandard) b2"
    using drainLane_granted [OF i1 d2] fit [of LaneStandard] slots len q by (simp add: lm_totalLen_def)
  moreover have "share_granted (lane_share g LaneSlow) (lane_queue p LaneSlow) b3"
    using drainLane_granted [OF i2 d3] fit [of LaneSlow] slots len q by (simp add: lm_totalLen_def)
  ultimately show ?thesis
    using sub by (cases l) (auto elim!: share_granted_mono)
qed

text \<open>With enough cheap fast transactions, the fast lane takes every slot in the first drain.\<close>

lemma fast_takes_all:
  assumes inv: "lm_inv p" and pop: "PopBatchLaned p k g = (b, p')" and fits: "gas_fits g (lm_Pending p)"
    and k: "0 \<le> k" "k \<le> int (length (lm_fast p))"
    and small: "sum_list (map meta_gas (lm_fast p)) \<le> unat (lane_share g LaneFast)"
  shows "set b \<subseteq> set (lm_fast p) \<and> int (length b) = k \<and> lm_std p' = lm_std p \<and> lm_slow p' = lm_slow p"
proof -
  obtain b1 u1 p1 b2 u2 p2 b3 u3 p3 c4 r4 p4 c5 r5 p5 r6
    where d1: "drainLane p LaneFast k (lane_share g LaneFast) = (b1, u1, p1)"
    and d2: "drainLane p1 LaneStandard (k - int (length b1)) (lane_share g LaneStandard) = (b2, u2, p2)"
    and d3: "drainLane p2 LaneSlow (k - int (length (b1 @ b2))) (lane_share g LaneSlow) = (b3, u3, p3)"
    and e4: "drainExtra LaneFast k (b1 @ b2 @ b3, g - (u1 + u2 + u3), p3) = (c4, r4, p4)"
    and e5: "drainExtra LaneStandard k (c4, r4, p4) = (c5, r5, p5)"
    and e6: "drainExtra LaneSlow k (c5, r5, p5) = (b, r6, p')"
    using PopBatchLaned_steps [OF pop] unfolding lane_share_def lane.case .
  have "unat (lane_share g LaneFast) \<le> unat g" using shares_le [of g] by (simp add: lane_share_def)
  then have "gas_fits (lane_share g LaneFast) (lane_queue p LaneFast)"
    using gas_fits_mono [OF fits _ lane_queue_Pending] by blast
  then obtain xs where xs: "mset xs = mset (lm_fast p)" "b1 = greedy_prefix k (unat (lane_share g LaneFast)) 0 xs"
    using drainLane_greedy [OF inv d1] by (metis lane_queue.simps(1))
  have "b1 = take (nat k) xs"
    unfolding xs(2) using small sum_list_mset_eq [OF xs(1), of meta_gas] by (intro greedy_prefix_all) simp
  then have len: "int (length b1) = k" using k mset_eq_length [OF xs(1)] by simp
  note m1 = drainLane_moves [OF inv d1]
  have s2: "b2 = []" "p2 = p1" "b3 = []" "p3 = p2"
    using d2 d3 len by (simp_all add: drainLane_none)
  then have "c4 = b1" "p4 = p1" using e4 len by (simp_all add: drainExtra_none)
  then have "c5 = b1" "p5 = p1" using e5 len by (simp_all add: drainExtra_none)
  then have "b = b1" "p' = p1" using e6 len by (simp_all add: drainExtra_none)
  then show ?thesis using m1(3) m1(5) [of LaneStandard] m1(5) [of LaneSlow] len by simp
qed

subsection \<open>An example: a fast and a slow transaction\<close>

definition lane_meta :: "tx \<Rightarrow> f64 \<Rightarrow> int \<Rightarrow> tx_meta" where
  "lane_meta t c now = new_meta (Fin (1 / 2)) t zero_address c now"

definition lm_pair :: "tx \<Rightarrow> tx \<Rightarrow> laned" where
  "lm_pair t1 t2 = \<lparr>lm_fast = [lane_meta t1 (Fin 1) 1], lm_std = [], lm_slow = [lane_meta t2 (Fin 0) 2],
     lm_known = [tx_Hash t1 \<mapsto> LaneFast, tx_Hash t2 \<mapsto> LaneSlow], lm_maxSize = 10,
     lm_tasteScoreWeight = Fin (1 / 2)\<rparr>"

lemma min_scores:
  "FastLaneMinScore = Fin (rnd64 (65 / 100))" "StandardLaneMinScore = Fin (rnd64 (15 / 100))"
  by (simp_all add: FastLaneMinScore_def StandardLaneMinScore_def to_f64_unit)

lemma min_score_bounds:
  "1 / 8 \<le> rnd64 (65 / 100)" "rnd64 (65 / 100) \<le> 1" "1 / 8 \<le> rnd64 (15 / 100)"
  using rnd64_mono [of "1 / 8" "65 / 100"] rnd64_mono [of "1 / 8" "15 / 100"] rnd64_eighths [of 1]
    rnd64_le_one [of "65 / 100"] by simp_all

lemma fle_Fin [simp]: "fle (Fin x) (Fin y) \<longleftrightarrow> x \<le> y"
  by (auto simp: fle_def feq_def)

lemma ClassifyLane_one [simp]: "ClassifyLane (Fin 1) = LaneFast"
  using min_score_bounds by (simp add: ClassifyLane_def min_scores)

lemma ClassifyLane_zero [simp]: "ClassifyLane (Fin 0) = LaneSlow"
  using min_score_bounds by (simp add: ClassifyLane_def min_scores)

lemma lm_pair_reach:
  assumes "tx_Hash t1 \<noteq> tx_Hash t2"
  shows "lm_reach (Fin (1 / 2)) 10 (lm_pair t1 t2)"
proof -
  let ?p0 = "\<lparr>lm_fast = [], lm_std = [], lm_slow = [], lm_known = Map.empty, lm_maxSize = 10,
     lm_tasteScoreWeight = Fin (1 / 2)\<rparr>"
  let ?p1 = "\<lparr>lm_fast = [lane_meta t1 (Fin 1) 1], lm_std = [], lm_slow = [],
     lm_known = [tx_Hash t1 \<mapsto> LaneFast], lm_maxSize = 10, lm_tasteScoreWeight = Fin (1 / 2)\<rparr>"
  have push: "heap_push tx_less [] x = [x]" for x by (simp add: heap_push_def heap_up_eq)
  have r0: "lm_reach (Fin (1 / 2)) 10 ?p0" by (rule lm_reach.New) (simp add: lm_New_def)
  have "lm_Add ?p0 t1 zero_address (Fin 1) 1 = Inr ?p1"
    by (simp add: lm_Add_def lm_totalLen_def Let_def push lane_meta_def)
  then have r1: "lm_reach (Fin (1 / 2)) 10 ?p1" by (rule lm_reach.Add [OF r0, rotated]) simp
  have "lm_Add ?p1 t2 zero_address (Fin 0) 2 = Inr (lm_pair t1 t2)"
    using assms by (simp add: lm_Add_def lm_totalLen_def Let_def push lane_meta_def lm_pair_def)
  then show ?thesis by (rule lm_reach.Add [OF r1, rotated]) simp
qed

lemma lm_pair_fits:
  "unat g + unat (tx_Gas t1) < 2 ^ 64 \<Longrightarrow> unat g + unat (tx_Gas t2) < 2 ^ 64 \<Longrightarrow>
   gas_fits g (lm_Pending (lm_pair t1 t2))"
  by (simp add: gas_fits_def lm_Pending_def lm_pair_def lane_meta_def meta_gas_def)

subsection \<open>Properties\<close>

text \<open>C14. Every laned pool that the methods can build is well formed: each lane is a heap of the
  transactions whose score classifies them into it, the map of known hashes sends a hash to a lane
  exactly if the transaction is queued there, no hash is queued twice, and the size is bounded.\<close>

theorem laned_reachable_well_formed:
  assumes "unit_f64 w" and "lm_reach w n p"
  shows "is_heap tx_less (lane_queue p l) \<and> (\<forall>x \<in> set (lane_queue p l). ClassifyLane (TasteScore x) = l) \<and>
    (lm_known p h = Some l \<longleftrightarrow> h \<in> meta_hash ` set (lane_queue p l)) \<and>
    distinct (map meta_hash (lm_Pending p)) \<and> lm_Len p \<le> max 0 n"
  using lm_reach_inv [OF assms] lm_inv_lane [of p l] lm_inv_known [of p h l] lm_inv_distinct [of p]
  by (auto simp: lane_ok_def lm_Len_def lm_inv_def)

lemma laned_reachable_well_formed_witness:
  "distinct (map meta_hash (lm_Pending (lm_pair (example_tx 1 21000 0) (example_tx 2 21000 0))))"
  using laned_reachable_well_formed [OF _ lm_pair_reach, of "example_tx 1 21000 0" "example_tx 2 21000 0"]
  by (simp add: example_tx_def)

text \<open>C15. \<open>PopBatchLaned\<close> only moves transactions: what was pending is the batch together with what
  is pending afterwards, the batch has at most \<open>maxTx\<close> transactions, and their gas stays within the
  limit when no gas sum can wrap around, whatever the second phase adds.\<close>

theorem laned_pop_batch_safe:
  assumes "unit_f64 w" and "lm_reach w n p" and "PopBatchLaned p k g = (b, p')"
    and "gas_fits g (lm_Pending p)"
  shows "mset (lm_Pending p) = mset b + mset (lm_Pending p') \<and> int (length b) \<le> max 0 k \<and>
    sum_list (map meta_gas b) \<le> unat g"
  using PopBatchLaned_facts [of p k g b p'] lm_reach_inv [OF assms(1,2)] assms(3,4)
  by (simp add: lm_moves_def)

lemma laned_pop_batch_safe_witness:
  "sum_list (map meta_gas (fst (PopBatchLaned (lm_pair (example_tx 1 21000 0) (example_tx 2 50000 0))
     5 60000))) \<le> 60000"
  using laned_pop_batch_safe [where k = 5 and g = 60000, OF _ lm_pair_reach surjective_pairing lm_pair_fits,
      of "example_tx 1 21000 0" "example_tx 2 50000 0"]
  by (simp add: example_tx_def)

text \<open>C27. The guarantee of the lanes: when the block has a slot for every pending transaction, each
  lane gets the greedy prefix of its queue within its share of the gas limit.\<close>

theorem laned_pop_batch_shares:
  assumes "unit_f64 w" and "lm_reach w n p" and "PopBatchLaned p k g = (b, p')"
    and "gas_fits g (lm_Pending p)" and "lm_Len p \<le> k"
  shows "share_granted (lane_share g l) (lane_queue p l) b"
  using lane_shares_granted lm_reach_inv [OF assms(1,2)] assms(3-5) by (simp add: lm_Len_def)

lemma laned_pop_batch_shares_witness:
  "share_granted (lane_share 60000 LaneSlow)
     (lane_queue (lm_pair (example_tx 1 21000 0) (example_tx 2 50000 0)) LaneSlow)
     (fst (PopBatchLaned (lm_pair (example_tx 1 21000 0) (example_tx 2 50000 0)) 5 60000))"
  using laned_pop_batch_shares [where k = 5 and g = 60000 and l = LaneSlow,
      OF _ lm_pair_reach surjective_pairing lm_pair_fits, of "example_tx 1 21000 0" "example_tx 2 50000 0"]
  by (simp add: example_tx_def lm_Len_def lm_totalLen_def lm_pair_def)

text \<open>The guarantee is one of gas only: when the fast lane has \<open>maxTx\<close> transactions that fit into
  its share, they take every slot of the block and the other lanes get nothing.\<close>

theorem laned_pop_batch_starves:
  assumes "unit_f64 w" and "lm_reach w n p" and "PopBatchLaned p k g = (b, p')"
    and "gas_fits g (lm_Pending p)" and "0 \<le> k" and "k \<le> int (length (lm_fast p))"
    and "sum_list (map meta_gas (lm_fast p)) \<le> unat (lane_share g LaneFast)"
  shows "set b \<subseteq> set (lm_fast p) \<and> int (length b) = k \<and> lm_std p' = lm_std p \<and> lm_slow p' = lm_slow p"
  using fast_takes_all lm_reach_inv [OF assms(1,2)] assms(3-7) by blast

lemma laned_pop_batch_starves_witness:
  "lm_slow (snd (PopBatchLaned (lm_pair (example_tx 1 21000 0) (example_tx 2 21000 0)) 1 30000000))
    = [lane_meta (example_tx 2 21000 0) (Fin 0) 2]"
proof -
  let ?t1 = "example_tx 1 21000 0" and ?t2 = "example_tx 2 21000 0"
  have ne: "tx_Hash ?t1 \<noteq> tx_Hash ?t2" by (simp add: example_tx_def)
  have fits: "gas_fits 30000000 (lm_Pending (lm_pair ?t1 ?t2))"
    by (rule lm_pair_fits) (simp_all add: example_tx_def)
  have "sum_list (map meta_gas (lm_fast (lm_pair ?t1 ?t2))) \<le> unat (lane_share 30000000 LaneFast)"
    by (simp add: lm_pair_def lane_meta_def meta_gas_def example_tx_def lane_share_def
        LaneFastGasBps_def)
  then show ?thesis
    using laned_pop_batch_starves [where k = 1, OF _ lm_pair_reach [OF ne] surjective_pairing fits]
    by (simp add: lm_pair_def)
qed

end
