(* ===== verification/Taste_Score.thy ===== *)
theory Taste_Score
  imports Lanes
begin

section \<open>The reputation client: internal/tastescore/client.go\<close>

text \<open>
  The client of the score API with its cache. The HTTP response to a request (its status and body, or
  no response at all) is an argument of the call that makes the request; the JSON decoding of the
  envelope and of the summary is a parameter. \<open>now\<close> is the clock in nanoseconds.
\<close>

record score_result =
  sr_Address :: string
  sr_CompositeScore :: f64
  sr_Confidence :: f64
  sr_Tier :: string
  sr_ModelVersion :: string
  sr_ChainBreakdown :: "string \<rightharpoonup> f64"

record v2_engine =
  ve_Score :: f64
  ve_Label :: string
  ve_Confidence :: f64
  ve_ModelVer :: string
  ve_Reasons :: "string list"

record v2_trust_profile =
  vt_Score :: f64
  vt_Label :: string
  vt_Confidence :: f64

record v2_summary =
  vs_Address :: string
  vs_ChainsChecked :: "string list"
  vs_TrustProfile :: v2_trust_profile
  vs_TasteScoreEngine :: v2_engine

record score_request =
  sq_Address :: string
  sq_Chains :: "string list"

record cached_score =
  cs_result :: score_result
  cs_fetchedAt :: int

record taste_client =
  tc_Enabled :: bool
  tc_CacheTTL :: int
  tc_Chains :: "string list"
  tc_cache :: "address \<rightharpoonup> cached_score"

definition tc_New :: "bool \<Rightarrow> int \<Rightarrow> string list \<Rightarrow> taste_client" where
  "tc_New enabled ttl names = \<lparr>tc_Enabled = enabled, tc_CacheTTL = ttl, tc_Chains = names, tc_cache = Map.empty\<rparr>"

text \<open>Decoding the body of a response: the raw summary in the envelope, then the summary.\<close>

record score_json =
  sj_envelope :: "bytes \<Rightarrow> bytes option"
  sj_summary :: "bytes \<Rightarrow> v2_summary option"
  sj_Hex :: "address \<Rightarrow> string"

datatype fetch_error = ErrApiCall | ErrApiStatus int | ErrDecodeEnvelope | ErrDecodeSummary

definition classifyTier :: "f64 \<Rightarrow> string" where
  "classifyTier score =
     (if fle (Fin (3 / 4)) score then ''Platinum''
      else if fle (Fin (1 / 2)) score then ''Gold''
      else if fle (Fin (1 / 4)) score then ''Silver''
      else if flt (Fin 0) score then ''Bronze''
      else ''Unscored'')"

definition fetch_request :: "score_json \<Rightarrow> taste_client \<Rightarrow> address \<Rightarrow> score_request" where
  "fetch_request J c addr = \<lparr>sq_Address = sj_Hex J addr, sq_Chains = tc_Chains c\<rparr>"

text \<open>What the client makes of the response to that request.\<close>

definition fetchScore :: "score_json \<Rightarrow> (int \<times> bytes) option \<Rightarrow> fetch_error + score_result" where
  "fetchScore J response = (case response of
     None \<Rightarrow> Inl ErrApiCall
   | Some (status, body) \<Rightarrow>
     (if status \<noteq> 200 then Inl (ErrApiStatus status)
      else (case sj_envelope J body of
          None \<Rightarrow> Inl ErrDecodeEnvelope
        | Some raw \<Rightarrow> (case sj_summary J raw of
            None \<Rightarrow> Inl ErrDecodeSummary
          | Some summary \<Rightarrow>
              (let engine = vs_TasteScoreEngine summary in
               Inr \<lparr>sr_Address = vs_Address summary, sr_CompositeScore = ve_Score engine,
                 sr_Confidence = ve_Confidence engine, sr_Tier = classifyTier (ve_Score engine),
                 sr_ModelVersion = ve_ModelVer engine,
                 sr_ChainBreakdown = fold (\<lambda>chain m. m(chain \<mapsto> ve_Score engine)) (vs_ChainsChecked summary) Map.empty\<rparr>)))))"

definition default_result :: "score_json \<Rightarrow> address \<Rightarrow> string \<Rightarrow> string \<Rightarrow> score_result" where
  "default_result J addr tier model = \<lparr>sr_Address = sj_Hex J addr, sr_CompositeScore = Fin (1 / 2),
     sr_Confidence = Fin 0, sr_Tier = tier, sr_ModelVersion = model, sr_ChainBreakdown = Map.empty\<rparr>"

text \<open>The method has an error in its signature; every path returns a nil error, so it is left out.\<close>

definition GetScoreResult :: "score_json \<Rightarrow> taste_client \<Rightarrow> address \<Rightarrow> int \<Rightarrow> (int \<times> bytes) option \<Rightarrow>
    score_result \<times> taste_client" where
  "GetScoreResult J c addr now response =
     (if \<not> tc_Enabled c then (default_result J addr ''Unscored'' ''disabled'', c)
      else (case (case tc_cache c addr of
            None \<Rightarrow> None
          | Some cached \<Rightarrow> if now - cs_fetchedAt cached < tc_CacheTTL c then Some (cs_result cached) else None) of
          Some r \<Rightarrow> (r, c)
        | None \<Rightarrow> (case fetchScore J response of
            Inl e \<Rightarrow> (default_result J addr ''Unknown'' ''fallback'', c)
          | Inr r \<Rightarrow> (r, c\<lparr>tc_cache := (tc_cache c)(addr \<mapsto> \<lparr>cs_result = r, cs_fetchedAt = now\<rparr>)\<rparr>))))"

definition GetScore :: "score_json \<Rightarrow> taste_client \<Rightarrow> address \<Rightarrow> int \<Rightarrow> (int \<times> bytes) option \<Rightarrow> f64 \<times> taste_client" where
  "GetScore J c addr now response = (case GetScoreResult J c addr now response of
     (r, c') \<Rightarrow> (sr_CompositeScore r, c'))"

definition EffectiveScore :: "score_result option \<Rightarrow> f64" where
  "EffectiveScore result = (case result of
     None \<Rightarrow> Fin (1 / 2)
   | Some r \<Rightarrow> fmul (sr_CompositeScore r) (sr_Confidence r))"

definition ClearCache :: "taste_client \<Rightarrow> taste_client" where
  "ClearCache c = c\<lparr>tc_cache := Map.empty\<rparr>"

definition CacheSize :: "taste_client \<Rightarrow> nat" where
  "CacheSize c = card (dom (tc_cache c))"

subsection \<open>Scores\<close>

lemma unit_f64_fmul: "unit_f64 a \<Longrightarrow> unit_f64 b \<Longrightarrow> unit_f64 (fmul a b)"
  by (auto simp: unit_f64_def to_f64_unit mult_le_one rnd64_nonneg rnd64_le_one split: f64.splits)

lemma GetScoreResult_default:
  assumes "tc_Enabled c \<longrightarrow> tc_cache c addr = None" and "tc_Enabled c \<longrightarrow> fetchScore J response = Inl e"
  shows "\<exists>tier model. GetScoreResult J c addr now response = (default_result J addr tier model, c)"
  using assms by (cases "tc_Enabled c") (auto simp: GetScoreResult_def)

text \<open>Every cached result came from the API: an invariant of the cache, for a property of results.\<close>

definition cache_ok :: "(score_result \<Rightarrow> bool) \<Rightarrow> taste_client \<Rightarrow> bool" where
  "cache_ok P c \<longleftrightarrow> (\<forall>addr cached. tc_cache c addr = Some cached \<longrightarrow> P (cs_result cached))"

lemma GetScoreResult_cache_ok:
  assumes "cache_ok P c" and "\<And>r. fetchScore J response = Inr r \<Longrightarrow> P r"
    and "\<And>tier model. P (default_result J addr tier model)" and "GetScoreResult J c addr now response = (r, c')"
  shows "P r \<and> cache_ok P c'"
proof (cases "tc_Enabled c")
  case False
  then show ?thesis using assms by (auto simp: GetScoreResult_def)
next
  case True
  show ?thesis
  proof (cases "\<exists>cached. tc_cache c addr = Some cached \<and> now - cs_fetchedAt cached < tc_CacheTTL c")
    case hit: True
    then obtain cached where c: "tc_cache c addr = Some cached" "now - cs_fetchedAt cached < tc_CacheTTL c" by blast
    then have "r = cs_result cached" "c' = c" using assms(4) True by (simp_all add: GetScoreResult_def)
    then show ?thesis using assms(1) c(1) by (auto simp: cache_ok_def)
  next
    case miss: False
    then have "(case tc_cache c addr of None \<Rightarrow> None
        | Some cached \<Rightarrow> if now - cs_fetchedAt cached < tc_CacheTTL c then Some (cs_result cached) else None) = None"
      by (auto split: option.split)
    then show ?thesis
      using assms True by (cases "fetchScore J response") (auto simp: GetScoreResult_def cache_ok_def split: if_splits)
  qed
qed

subsection \<open>Histories of the client\<close>

inductive client_reach :: "score_json \<Rightarrow> taste_client \<Rightarrow> bool" for J where
  New: "client_reach J (tc_New enabled ttl names)"
| Get: "client_reach J c \<Longrightarrow> GetScoreResult J c addr now response = (r, c') \<Longrightarrow> client_reach J c'"
| Clear: "client_reach J c \<Longrightarrow> client_reach J (ClearCache c)"

definition unit_result :: "score_result \<Rightarrow> bool" where
  "unit_result r \<longleftrightarrow> unit_f64 (sr_CompositeScore r) \<and> unit_f64 (sr_Confidence r)"

definition unit_api :: "score_json \<Rightarrow> bool" where
  "unit_api J \<longleftrightarrow> (\<forall>raw s. sj_summary J raw = Some s \<longrightarrow>
     unit_f64 (ve_Score (vs_TasteScoreEngine s)) \<and> unit_f64 (ve_Confidence (vs_TasteScoreEngine s)))"

lemma unit_api_results: "unit_api J \<Longrightarrow> fetchScore J response = Inr r \<Longrightarrow> unit_result r"
  by (auto simp: unit_api_def fetchScore_def Let_def unit_result_def split: option.splits if_splits)

lemma unit_default: "unit_result (default_result J addr tier model)"
  by (simp add: unit_result_def default_result_def)

lemma client_reach_units: "client_reach J c \<Longrightarrow> unit_api J \<Longrightarrow> cache_ok unit_result c"
proof (induction rule: client_reach.induct)
  case (Get c addr now response r c')
  then show ?case
    using GetScoreResult_cache_ok [OF Get.IH, of J response addr now r c'] unit_api_results unit_default by blast
qed (auto simp: cache_ok_def tc_New_def ClearCache_def)

subsection \<open>Properties\<close>

text \<open>C35. If the API's scores and confidences lie between 0 and 1, so does every effective score, from the
  cache, from a response or by default, in any history of the client: the scores that reach the pool
  are finite and never make a priority a NaN.\<close>

theorem effective_score_unit:
  assumes "client_reach J c" and "unit_api J" and "GetScoreResult J c addr now response = (r, c')"
  shows "unit_f64 (EffectiveScore (Some r)) \<and> is_finite (EffectiveScore (Some r))"
proof -
  have "unit_result r"
    using GetScoreResult_cache_ok [OF client_reach_units [OF assms(1,2)] _ _ assms(3)] unit_api_results [OF assms(2)]
      unit_default by blast
  then have "unit_f64 (EffectiveScore (Some r))" by (simp add: EffectiveScore_def unit_result_def unit_f64_fmul)
  then show ?thesis by (auto elim: unit_f64_elim)
qed

definition example_score_json :: score_json where
  "example_score_json = \<lparr>sj_envelope = Some, sj_summary = (\<lambda>b. if b = [1] then Some \<lparr>vs_Address = ''0x01'',
     vs_ChainsChecked = [''inso''], vs_TrustProfile = \<lparr>vt_Score = Fin 1, vt_Label = [], vt_Confidence = Fin 1\<rparr>,
     vs_TasteScoreEngine = \<lparr>ve_Score = Fin 1, ve_Label = [], ve_Confidence = Fin (1 / 2), ve_ModelVer = ''v2'',
       ve_Reasons = []\<rparr>\<rparr> else None), sj_Hex = (\<lambda>a. ''0x01'')\<rparr>"

definition example_score :: score_result where
  "example_score = \<lparr>sr_Address = ''0x01'', sr_CompositeScore = Fin 1, sr_Confidence = Fin (1 / 2),
     sr_Tier = ''Platinum'', sr_ModelVersion = ''v2'', sr_ChainBreakdown = [''inso'' \<mapsto> Fin 1]\<rparr>"

lemma example_fetch: "fetchScore example_score_json (Some (200, [1])) = Inr example_score"
  by (simp add: fetchScore_def example_score_json_def example_score_def classifyTier_def Let_def)

lemma effective_score_unit_witness:
  "\<exists>c'. GetScoreResult example_score_json (tc_New True 60 []) zero_address 0 (Some (200, [1])) = (example_score, c') \<and>
    unit_f64 (EffectiveScore (Some example_score))"
proof -
  obtain c' where x: "GetScoreResult example_score_json (tc_New True 60 []) zero_address 0 (Some (200, [1]))
      = (example_score, c')"
    by (simp add: GetScoreResult_def tc_New_def example_fetch)
  have "unit_api example_score_json" by (simp add: unit_api_def example_score_json_def)
  from effective_score_unit [OF client_reach.New this x] x show ?thesis by blast
qed

text \<open>A fetched score is used for the whole time to live, whatever the API would answer, and not a
  moment longer: when it expires and the API fails, the answer is the default, not the stale score.\<close>

theorem score_cached_until_expiry:
  assumes "tc_Enabled c" and "tc_cache c addr = None" and "fetchScore J response = Inr r"
  shows "\<exists>c'. GetScoreResult J c addr now response = (r, c') \<and>
    (\<forall>t later. t - now < tc_CacheTTL c \<longrightarrow> GetScoreResult J c' addr t later = (r, c')) \<and>
    (\<forall>t. tc_CacheTTL c \<le> t - now \<longrightarrow>
       GetScoreResult J c' addr t None = (default_result J addr ''Unknown'' ''fallback'', c'))"
proof -
  let ?c = "c\<lparr>tc_cache := (tc_cache c)(addr \<mapsto> \<lparr>cs_result = r, cs_fetchedAt = now\<rparr>)\<rparr>"
  have "GetScoreResult J c addr now response = (r, ?c)" using assms by (simp add: GetScoreResult_def)
  moreover have "GetScoreResult J ?c addr t later = (r, ?c)" if "t - now < tc_CacheTTL c" for t later
    using that assms(1) by (simp add: GetScoreResult_def)
  moreover have "GetScoreResult J ?c addr t None = (default_result J addr ''Unknown'' ''fallback'', ?c)"
    if "tc_CacheTTL c \<le> t - now" for t
    using that assms(1) by (simp add: GetScoreResult_def fetchScore_def)
  ultimately show ?thesis by blast
qed

lemma score_cached_until_expiry_witness:
  "\<exists>c'. GetScoreResult example_score_json (tc_New True 60 []) zero_address 0 (Some (200, [1])) = (example_score, c') \<and>
    GetScoreResult example_score_json c' zero_address 59 None = (example_score, c')"
proof -
  have "tc_Enabled (tc_New True 60 [])" "tc_cache (tc_New True 60 []) zero_address = None" "59 - 0 < tc_CacheTTL (tc_New True 60 [])"
    by (simp_all add: tc_New_def)
  from score_cached_until_expiry [OF this(1,2) example_fetch, of 0] this(3) show ?thesis by blast
qed

text \<open>When scoring is switched off or the API fails, the result reads 0.5 but has confidence 0, so the
  effective score is 0: every such sender is put into the slow lane. The failure is not cached.\<close>

theorem default_score_is_slow:
  assumes "tc_Enabled c \<longrightarrow> tc_cache c addr = None" and "tc_Enabled c \<longrightarrow> fetchScore J response = Inl e"
  shows "\<exists>r. GetScoreResult J c addr now response = (r, c) \<and> sr_CompositeScore r = Fin (1 / 2) \<and>
    EffectiveScore (Some r) = Fin 0 \<and> ClassifyLane (EffectiveScore (Some r)) = LaneSlow"
proof -
  have "EffectiveScore (Some (default_result J addr tier model)) = Fin 0" for tier model
    by (simp add: EffectiveScore_def default_result_def to_f64_unit)
  moreover obtain tier model where "GetScoreResult J c addr now response = (default_result J addr tier model, c)"
    using GetScoreResult_default [OF assms] by blast
  moreover have "sr_CompositeScore (default_result J addr tier model) = Fin (1 / 2)" by (simp add: default_result_def)
  ultimately show ?thesis by simp
qed

lemma default_score_is_slow_witness:
  "\<exists>r. GetScoreResult example_score_json (tc_New False 60 []) zero_address 0 None = (r, tc_New False 60 []) \<and>
    ClassifyLane (EffectiveScore (Some r)) = LaneSlow"
proof -
  have off: "\<not> tc_Enabled (tc_New False 60 [])" by (simp add: tc_New_def)
  from default_score_is_slow [of "tc_New False 60 []" zero_address example_score_json None ErrApiCall 0] off
  show ?thesis by blast
qed

text \<open>The tiers of the client and the lanes of the pool disagree: from 0.5 up to the fast lane's 0.65 a
  sender is Gold but in the standard lane, and below the standard lane's 0.15 a Bronze sender is in the
  slow lane.\<close>

theorem tier_lane_mismatch:
  "(1 / 2 \<le> x \<and> x < rnd64 (65 / 100) \<longrightarrow> classifyTier (Fin x) = ''Gold'' \<and> ClassifyLane (Fin x) = LaneStandard) \<and>
   (0 < x \<and> x < rnd64 (15 / 100) \<longrightarrow> classifyTier (Fin x) = ''Bronze'' \<and> ClassifyLane (Fin x) = LaneSlow)"
proof -
  have "rnd64 (65 / 100) \<le> 3 / 4" "rnd64 (15 / 100) \<le> 1 / 4"
    using rnd64_mono [of "65 / 100" "6 / 8"] rnd64_mono [of "15 / 100" "2 / 8"] rnd64_eighths [of 6] rnd64_eighths [of 2]
    by simp_all
  moreover have "rnd64 (15 / 100) \<le> rnd64 (65 / 100)" by (rule rnd64_mono) simp
  ultimately show ?thesis by (auto simp: classifyTier_def ClassifyLane_def min_scores)
qed

lemma tier_lane_mismatch_witness:
  "classifyTier (Fin (1 / 2)) = ''Gold'' \<and> ClassifyLane (Fin (1 / 2)) = LaneStandard \<and>
   classifyTier (Fin (1 / 16)) = ''Bronze'' \<and> ClassifyLane (Fin (1 / 16)) = LaneSlow"
proof -
  have "5 / 8 \<le> rnd64 (65 / 100)" using rnd64_mono [of "5 / 8" "65 / 100"] rnd64_eighths [of 5] by simp
  then show ?thesis
    using tier_lane_mismatch [of "1 / 2"] tier_lane_mismatch [of "1 / 16"] min_score_bounds(3) by simp
qed

end
