(* ===== verification/Json.thy ===== *)
theory Json
  imports Prelude Float64
begin

section \<open>JSON parameters, as encoding/json reads them\<close>

text \<open>
  A JSON value as the parser of Go's \<open>encoding/json\<close> sees it, and what \<open>json.Unmarshal\<close> makes of it for
  the target types of the RPC handler. A number literal is an integer or not; a null leaves the target
  at its zero value; the keys of an object match a field whatever their case, and the last one wins.
\<close>

datatype json = JNull | JBool bool | JInt int | JFrac f64 | JStr string | JArr "json list" | JObj "(string \<times> json) list"

fun as_string :: "json \<Rightarrow> string option" where
  "as_string (JStr s) = Some s"
| "as_string JNull = Some []"
| "as_string _ = None"

fun as_bool :: "json \<Rightarrow> bool option" where
  "as_bool (JBool b) = Some b"
| "as_bool JNull = Some False"
| "as_bool _ = None"

fun as_uint64 :: "json \<Rightarrow> u64 option" where
  "as_uint64 (JInt n) = (if 0 \<le> n \<and> n < 2 ^ 64 then Some (word_of_int n) else None)"
| "as_uint64 JNull = Some 0"
| "as_uint64 _ = None"

fun as_int :: "json \<Rightarrow> int option" where
  "as_int (JInt n) = (if - (2 ^ 63) \<le> n \<and> n < 2 ^ 63 then Some n else None)"
| "as_int JNull = Some 0"
| "as_int _ = None"

text \<open>\<open>[]json.RawMessage\<close>: the elements as they are.\<close>

fun as_raws :: "json \<Rightarrow> json list option" where
  "as_raws (JArr xs) = Some xs"
| "as_raws JNull = Some []"
| "as_raws _ = None"

fun all_some :: "'a option list \<Rightarrow> 'a list option" where
  "all_some [] = Some []"
| "all_some (x # xs) = (case x of None \<Rightarrow> None | Some y \<Rightarrow> map_option ((#) y) (all_some xs))"

lemma all_some_iff: "all_some xs = Some ys \<longleftrightarrow> xs = map Some ys"
  by (induction xs arbitrary: ys) (auto split: option.splits)

definition as_strings :: "json \<Rightarrow> string list option" where
  "as_strings j = (case as_raws j of None \<Rightarrow> None | Some xs \<Rightarrow> all_some (map as_string xs))"

text \<open>The parameters of a request, which may be missing; a list that is empty is rejected as well.\<close>

definition string_args :: "json option \<Rightarrow> string list option" where
  "string_args params = (case params of
     None \<Rightarrow> None
   | Some j \<Rightarrow> (case as_strings j of None \<Rightarrow> None | Some xs \<Rightarrow> if xs = [] then None else Some xs))"

definition raw_args :: "json option \<Rightarrow> json list option" where
  "raw_args params = (case params of
     None \<Rightarrow> None
   | Some j \<Rightarrow> (case as_raws j of None \<Rightarrow> None | Some xs \<Rightarrow> if xs = [] then None else Some xs))"

subsection \<open>Objects\<close>

definition lower_char :: "char \<Rightarrow> char" where
  "lower_char c = (let n = of_char c :: nat in if 65 \<le> n \<and> n \<le> 90 then char_of (n + 32) else c)"

text \<open>The value of a field in an object; a null object has no fields, and other values are errors.\<close>

definition json_field :: "string \<Rightarrow> (string \<times> json) list \<Rightarrow> json" where
  "json_field name kvs = (case find (\<lambda>(k, v). map lower_char k = map lower_char name) (rev kvs) of
     None \<Rightarrow> JNull | Some (k, v) \<Rightarrow> v)"

fun as_object :: "json \<Rightarrow> (string \<times> json) list option" where
  "as_object (JObj kvs) = Some kvs"
| "as_object JNull = Some []"
| "as_object _ = None"

text \<open>A pointer field whose type reads a text: nil for a null, an error for what is not a string.\<close>

definition pointer_text :: "(string \<Rightarrow> 'a option) \<Rightarrow> json \<Rightarrow> 'a option option" where
  "pointer_text parse j = (case j of
     JNull \<Rightarrow> Some None
   | JStr s \<Rightarrow> map_option Some (parse s)
   | _ \<Rightarrow> None)"

text \<open>\<open>fmt.Sscanf(s, "0x%x", &n)\<close> for an unsigned 64-bit target: ASCII blanks other than a newline may
  follow the prefix, the rest of the input after the digits is ignored.\<close>

definition blank :: "char \<Rightarrow> bool" where
  "blank c = (let n = of_char c :: nat in n = 32 \<or> n = 9 \<or> n = 11 \<or> n = 12 \<or> n = 13)"

definition hex_value :: "char \<Rightarrow> nat option" where
  "hex_value c = (let n = of_char c :: nat in
     if 48 \<le> n \<and> n \<le> 57 then Some (n - 48)
     else if 97 \<le> n \<and> n \<le> 102 then Some (n - 87)
     else if 65 \<le> n \<and> n \<le> 70 then Some (n - 55) else None)"

fun hex_prefix :: "nat \<Rightarrow> string \<Rightarrow> nat" where
  "hex_prefix acc [] = acc"
| "hex_prefix acc (c # cs) = (case hex_value c of None \<Rightarrow> acc | Some d \<Rightarrow> hex_prefix (acc * 16 + d) cs)"

definition sscanf_0x :: "string \<Rightarrow> u64 option" where
  "sscanf_0x s = (case s of
     a # b # rest \<Rightarrow> if a = CHR ''0'' \<and> b = CHR ''x'' then
         (case dropWhile blank rest of
            [] \<Rightarrow> None
          | c # cs \<Rightarrow> if hex_value c = None then None
              else let n = hex_prefix 0 (c # cs) in if n < 2 ^ 64 then Some (of_nat n) else None)
       else None
   | _ \<Rightarrow> None)"

end
