(* ===== verification/Rpc_Types.thy ===== *)
theory Rpc_Types
  imports State_Manager Tx_Pool Fees Taste_Score Json
begin

section \<open>Values and errors of the RPC handler\<close>

text \<open>
  The libraries that the handler of \<open>internal/rpc\<close> calls, the errors its methods return and the Go values
  it hands to \<open>json.Marshal\<close>. go-ethereum's parsing and printing of hexadecimal texts is \<open>hex_lib\<close>: the
  methods of \<open>hexutil\<close>, the text decoders of its types (which fail) and the conversions of \<open>common\<close>
  (which do not).
\<close>

record hex_lib =
  hx_DecodeUint64 :: "string \<Rightarrow> u64 option"
  hx_Decode :: "string \<Rightarrow> bytes option"
  hx_TextUint64 :: "string \<Rightarrow> u64 option"
  hx_TextBig :: "string \<Rightarrow> int option"
  hx_TextBytes :: "string \<Rightarrow> bytes option"
  hx_TextAddress :: "string \<Rightarrow> address option"
  hx_TextHash :: "string \<Rightarrow> hash option"
  hx_HexToHash :: "string \<Rightarrow> hash"
  hx_HexToAddress :: "string \<Rightarrow> address"

text \<open>The decoding of a raw transaction, its sender under the newest rules of a chain, its chain and the
  values of its signature.\<close>

record rpc_lib =
  rl_hex :: hex_lib
  rl_score :: score_json
  rl_DecodeTx :: "bytes \<Rightarrow> tx option"
  rl_Sender :: "u64 \<Rightarrow> tx \<Rightarrow> address option"
  rl_ChainId :: "tx \<Rightarrow> int"
  rl_RawSignatureValues :: "tx \<Rightarrow> int option \<times> int option \<times> int option"

text \<open>The clock, in nanoseconds, and the score API's answers while a request is handled.\<close>

record rpc_env =
  re_now :: int
  re_api :: "address \<Rightarrow> (int \<times> bytes) option"

text \<open>A fixed message; a message around a library's error; the errors of the components; no such method.\<close>

datatype rpc_error = RpcParams string | RpcWrapped string | RpcPool pool_error | RpcState mgr_error
  | RpcEvm string | RpcNoMethod string

text \<open>
  The values: quantities print in hexadecimal, decimal numbers as texts, an address lower case or with
  its checksum. A Go map is the list of its entries; nil and empty score maps are the same.
\<close>

datatype rpc_value = VNull | VBool bool | VInt int | VFloat f64 | VStr string
  | VQuantity int | VDecimal int | VHash hash | VAddress address | VChecksum address | VData bytes
  | VTx tx | VLogs "log_entry list" | VBatch batch | VStatus sequencer_status | VFeeStats fee_stats
  | VScores "string \<rightharpoonup> f64" | VList "rpc_value list" | VMap "(string \<times> rpc_value) list"

definition vu64 :: "u64 \<Rightarrow> rpc_value" where
  "vu64 n = VInt (uint n)"

definition hex64 :: "u64 \<Rightarrow> rpc_value" where
  "hex64 n = VQuantity (uint n)"

definition vopt :: "('a \<Rightarrow> rpc_value) \<Rightarrow> 'a option \<Rightarrow> rpc_value" where
  "vopt f x = (case x of None \<Rightarrow> VNull | Some y \<Rightarrow> f y)"

text \<open>\<open>json.Marshal\<close> fails on a float that is not a number or infinite. The handler drops the error, and
  the empty raw message it is left with prints as null.\<close>

fun marshals :: "rpc_value \<Rightarrow> bool" where
  "marshals (VFloat x) = is_finite x"
| "marshals (VFeeStats s) = (is_finite (fs_EMAGasUsage s) \<and> is_finite (fs_TargetGasUsage s))"
| "marshals (VStatus s) = is_finite (st_UptimeSeconds s)"
| "marshals (VList vs) = (\<forall>v \<in> set vs. marshals v)"
| "marshals (VMap kvs) = (\<forall>kv \<in> set kvs. marshals (snd kv))"
| "marshals _ = True"

definition marshal_result :: "rpc_value \<Rightarrow> rpc_value" where
  "marshal_result v = (if marshals v then v else VNull)"

text \<open>An entry of a map.\<close>

fun vfield :: "string \<Rightarrow> rpc_value \<Rightarrow> rpc_value option" where
  "vfield k (VMap kvs) = map_of kvs k"
| "vfield k _ = None"

end
