(* ===== verification/Rpc_Logs.thy ===== *)
theory Rpc_Logs
  imports Rpc_Types
begin

section \<open>Log queries: getLogs and matchLog of internal/rpc/handler.go\<close>

text \<open>
  The filter of \<open>eth_getLogs\<close>, the range of blocks it scans and the scan.
\<close>

record log_filter =
  lf_FromBlock :: "string option"
  lf_ToBlock :: "string option"
  lf_Address :: "address option"
  lf_Topics :: "hash list list"

text \<open>A pointer to a string: nil for a null.\<close>

fun pointer_string :: "json \<Rightarrow> string option option" where
  "pointer_string JNull = Some None"
| "pointer_string (JStr s) = Some (Some s)"
| "pointer_string _ = None"

fun as_hash :: "hex_lib \<Rightarrow> json \<Rightarrow> hash option" where
  "as_hash X (JStr s) = hx_TextHash X s"
| "as_hash X _ = None"

definition as_topics :: "hex_lib \<Rightarrow> json \<Rightarrow> hash list list option" where
  "as_topics X j = (case as_raws j of None \<Rightarrow> None | Some xs \<Rightarrow>
     all_some (map (\<lambda>x. case as_raws x of None \<Rightarrow> None | Some hs \<Rightarrow> all_some (map (as_hash X) hs)) xs))"

definition parse_filter :: "hex_lib \<Rightarrow> json \<Rightarrow> log_filter option" where
  "parse_filter X j = (case as_object j of
     None \<Rightarrow> None
   | Some kvs \<Rightarrow>
     (case (pointer_string (json_field ''fromBlock'' kvs), pointer_string (json_field ''toBlock'' kvs),
         pointer_text (hx_TextAddress X) (json_field ''address'' kvs), as_topics X (json_field ''topics'' kvs)) of
        (Some f, Some t, Some a, Some ts) \<Rightarrow>
          Some \<lparr>lf_FromBlock = f, lf_ToBlock = t, lf_Address = a, lf_Topics = ts\<rparr>
      | _ \<Rightarrow> None))"

text \<open>One topic filter per position; an empty one matches anything, also a missing topic.\<close>

fun match_topics :: "hash list list \<Rightarrow> hash list \<Rightarrow> bool" where
  "match_topics [] topics = True"
| "match_topics (f # fs) [] = (if f = [] then match_topics fs [] else False)"
| "match_topics (f # fs) (t # ts) = (if f = [] then match_topics fs ts
     else if t \<in> set f then match_topics fs ts else False)"

definition matchLog :: "log_entry \<Rightarrow> address option \<Rightarrow> hash list list \<Rightarrow> bool" where
  "matchLog l addr topics =
     (if (case addr of None \<Rightarrow> False | Some a \<Rightarrow> log_Address l \<noteq> a) then False
      else match_topics topics (log_Topics l))"

definition block_bound :: "hex_lib \<Rightarrow> u64 \<Rightarrow> u64 \<Rightarrow> string option \<Rightarrow> u64" where
  "block_bound X currentBlock dflt s = (case s of
     None \<Rightarrow> dflt
   | Some t \<Rightarrow> (if t = ''latest'' then currentBlock
       else (case hx_DecodeUint64 X t of None \<Rightarrow> dflt | Some n \<Rightarrow> n)))"

definition log_range :: "hex_lib \<Rightarrow> u64 \<Rightarrow> log_filter \<Rightarrow> u64 \<times> u64" where
  "log_range X currentBlock f =
     (let fromBlock = block_bound X currentBlock 0 (lf_FromBlock f);
          toBlock = block_bound X currentBlock currentBlock (lf_ToBlock f)
      in (fromBlock, if 1000 < toBlock - fromBlock then fromBlock + 1000 else toBlock))"

definition block_logs :: "log_filter \<Rightarrow> l2_block \<Rightarrow> log_entry list" where
  "block_logs f block = filter (\<lambda>l. matchLog l (lf_Address f) (lf_Topics f)) (concat (map rc_Logs (bk_Receipts block)))"

text \<open>The loop on \<open>uint64\<close>: it does not stop at the largest end, and \<open>None\<close> is not returning.\<close>

partial_function (option) logs_loop :: "(u64 \<Rightarrow> l2_block option) \<Rightarrow> log_filter \<Rightarrow> u64 \<Rightarrow> u64 \<Rightarrow> log_entry list \<Rightarrow>
    log_entry list option" where
  "logs_loop get f toBlock blockNum acc =
     (if blockNum \<le> toBlock then
        logs_loop get f toBlock (blockNum + 1)
          (case get blockNum of None \<Rightarrow> acc | Some block \<Rightarrow> acc @ block_logs f block)
      else Some acc)"

text \<open>The logs, or an error; \<open>None\<close> if the scan does not return.\<close>

definition getLogs :: "('d, 's) libs \<Rightarrow> hex_lib \<Rightarrow> 'd manager \<Rightarrow> json option \<Rightarrow> (rpc_error + log_entry list) option" where
  "getLogs B X m params = (case raw_args params of
     None \<Rightarrow> Some (Inl (RpcParams ''invalid params''))
   | Some args \<Rightarrow> (case parse_filter X (hd args) of
       None \<Rightarrow> Some (Inl (RpcWrapped ''invalid filter''))
     | Some f \<Rightarrow> (case log_range X (mg_CurrentBlock m) f of
         (fromBlock, toBlock) \<Rightarrow> map_option Inr (logs_loop (mg_GetBlock B m) f toBlock fromBlock []))))"

subsection \<open>The matching of topics\<close>

lemma match_topics_iff: "match_topics fs ts \<longleftrightarrow>
    (\<forall>i < length fs. fs ! i \<noteq> [] \<longrightarrow> i < length ts \<and> ts ! i \<in> set (fs ! i))"
proof (induction fs ts rule: match_topics.induct)
  case (2 f fs)
  then show ?case by (auto simp: All_less_Suc2)
next
  case (3 f fs t ts)
  then show ?case by (auto simp: All_less_Suc2)
qed simp

subsection \<open>The scan\<close>

definition scan_logs :: "(u64 \<Rightarrow> l2_block option) \<Rightarrow> log_filter \<Rightarrow> nat list \<Rightarrow> log_entry list" where
  "scan_logs get f ns = concat (map (\<lambda>n. case get (of_nat n) of None \<Rightarrow> [] | Some b \<Rightarrow> block_logs f b) ns)"

lemma logs_loop_eq:
  assumes "unat e + 1 < 2 ^ 64" and "unat n \<le> Suc (unat e)"
  shows "logs_loop get f e n acc = Some (acc @ scan_logs get f [unat n..<Suc (unat e)])"
  using assms(2)
proof (induction "Suc (unat e) - unat n" arbitrary: n acc)
  case 0
  then show ?case by (subst logs_loop.simps) (simp add: u64_le_nat scan_logs_def)
next
  case (Suc k)
  then have le: "unat n \<le> unat e" by simp
  then have n1: "unat (n + 1) = Suc (unat n)" using assms(1) by (subst unat_add_no_wrap) simp_all
  have "[unat n..<Suc (unat e)] = unat n # [Suc (unat n)..<Suc (unat e)]"
    using le by (simp add: upt_conv_Cons del: upt_Suc)
  then have s: "scan_logs get f [unat n..<Suc (unat e)] = (case get n of None \<Rightarrow> [] | Some b \<Rightarrow> block_logs f b) @
      scan_logs get f [Suc (unat n)..<Suc (unat e)]"
    by (simp add: scan_logs_def del: upt_Suc)
  have "logs_loop get f e (n + 1) acc' = Some (acc' @ scan_logs get f [Suc (unat n)..<Suc (unat e)])" for acc'
    using Suc.hyps(1) [of "n + 1" acc'] Suc.hyps(2) n1 le by simp
  then show ?case
    using le by (subst logs_loop.simps) (auto simp: s u64_le_nat split: option.split simp del: upt_Suc)
qed

text \<open>At the largest block number the loop never leaves.\<close>

lemma logs_loop_diverges: "logs_loop get f (- 1) n acc = None"
proof (rule ccontr)
  assume "logs_loop get f (- 1) n acc \<noteq> None"
  then obtain r where r: "logs_loop get f (- 1) n acc = Some r" by auto
  have "(- 1 :: u64) \<noteq> - 1"
  proof (rule logs_loop.raw_induct [where P = "\<lambda>get f e n acc r. e \<noteq> - 1", OF _ r])
    fix loop and get and f and e n :: u64 and acc r
    assume ih: "\<And>get f e n acc r. loop get f e n acc = Some r \<Longrightarrow> e \<noteq> - 1"
      and step: "(if n \<le> e then loop get f e (n + 1) (case get n of None \<Rightarrow> acc | Some block \<Rightarrow> acc @ block_logs f block)
        else Some acc) = Some r"
    show "e \<noteq> - 1"
    proof (cases "n \<le> e")
      case True
      then show ?thesis using step by (intro ih) simp
    next
      case False
      then show ?thesis using word_order.extremum [of n] by auto
    qed
  qed
  then show False by simp
qed

subsection \<open>Ranges of blocks\<close>

lemma getLogs_range:
  assumes "raw_args params = Some (j # rest)" and "parse_filter X j = Some f"
    and "log_range X (mg_CurrentBlock m) f = (a, e)"
  shows "getLogs B X m params = map_option Inr (logs_loop (mg_GetBlock B m) f e a [])"
  using assms by (simp add: getLogs_def)

lemma log_range_span:
  assumes "log_range X cur f = (a, e)" and "a \<le> e"
  shows "unat e - unat a \<le> 1000"
proof -
  obtain t where t: "e = (if 1000 < t - a then a + 1000 else t)"
    using assms(1) by (auto simp: log_range_def Let_def)
  show ?thesis
  proof (cases "1000 < t - a")
    case True
    then have "unat e \<le> unat a + 1000" using t by (simp add: unat_word_ariths)
    then show ?thesis by simp
  next
    case False
    then have "unat (t - a) \<le> 1000" "e = t" using t by (simp_all add: u64_less_nat)
    then show ?thesis using assms(2) by (simp add: unat_sub)
  qed
qed

lemma set_scan_logs: "l \<in> set (scan_logs get f ns) \<longleftrightarrow>
    (\<exists>n \<in> set ns. \<exists>b. get (of_nat n) = Some b \<and> (\<exists>r \<in> set (bk_Receipts b). l \<in> set (rc_Logs r)) \<and>
       matchLog l (lf_Address f) (lf_Topics f))"
proof -
  have "l \<in> set (case get n of None \<Rightarrow> [] | Some b \<Rightarrow> block_logs f b) \<longleftrightarrow> (\<exists>b. get n = Some b \<and>
      (\<exists>r \<in> set (bk_Receipts b). l \<in> set (rc_Logs r)) \<and> matchLog l (lf_Address f) (lf_Topics f))" for n
    by (cases "get n") (auto simp: block_logs_def)
  then show ?thesis by (simp add: scan_logs_def)
qed

lemma matchLog_iff: "matchLog l addr topics \<longleftrightarrow> (addr = None \<or> addr = Some (log_Address l)) \<and>
    (\<forall>i < length topics. topics ! i \<noteq> [] \<longrightarrow> i < length (log_Topics l) \<and> log_Topics l ! i \<in> set (topics ! i))"
  by (auto simp: matchLog_def match_topics_iff split: option.splits)

lemma in_u64_range:
  "(\<exists>k \<in> set [unat a..<Suc (unat e)]. P (of_nat k :: u64)) \<longleftrightarrow> (\<exists>n. a \<le> n \<and> n \<le> e \<and> P n)"
proof
  assume "\<exists>k \<in> set [unat a..<Suc (unat e)]. P (of_nat k :: u64)"
  then obtain k where k: "unat a \<le> k" "k \<le> unat e" "P (of_nat k :: u64)" by auto
  then have "unat (of_nat k :: u64) = k" using unat_u64_bound [of e] by (simp add: unat_of_nat del: unat_u64_bound)
  with k show "\<exists>n. a \<le> n \<and> n \<le> e \<and> P n" by (intro exI [of _ "of_nat k"]) (simp add: u64_le_nat)
next
  assume "\<exists>n. a \<le> n \<and> n \<le> e \<and> P n"
  then obtain n where "a \<le> n" "n \<le> e" "P n" by blast
  then show "\<exists>k \<in> set [unat a..<Suc (unat e)]. P (of_nat k :: u64)"
    by (intro bexI [of _ "unat n"]) (auto simp: u64_le_nat)
qed

subsection \<open>An instance\<close>

definition example_hex :: hex_lib where
  "example_hex = \<lparr>hx_DecodeUint64 = (\<lambda>s. if s = ''0x0'' then Some 0 else if s = ''0x7'' then Some 7
       else if s = ''0xffffffffffffffff'' then Some (- 1) else None),
     hx_Decode = (\<lambda>s. Some [1]), hx_TextUint64 = (\<lambda>s. Some 1), hx_TextBig = (\<lambda>s. Some 1),
     hx_TextBytes = (\<lambda>s. Some [1]), hx_TextAddress = (\<lambda>s. Some zero_address), hx_TextHash = (\<lambda>s. Some zero_hash),
     hx_HexToHash = (\<lambda>s. zero_hash), hx_HexToAddress = (\<lambda>s. zero_address)\<rparr>"

definition example_log :: log_entry where
  "example_log = \<lparr>log_Address = zero_address, log_Topics = [zero_hash], log_Data = []\<rparr>"

definition log_block :: l2_block where
  "log_block = (empty_block 1)\<lparr>bk_Receipts := [(example_rc 1)\<lparr>rc_Logs := [example_log]\<rparr>]\<rparr>"

definition log_manager :: "(bytes \<rightharpoonup> bytes) manager" where
  "log_manager = example_manager\<lparr>mg_chainDB := \<lparr>cdb_db = [prefixBlock @ u64_bytes 1 \<mapsto> [1]], cdb_currentBlock = 1,
     cdb_stateRoot = zero_hash\<rparr>, mg_currentBlock := 1\<rparr>"

definition log_query :: "string \<Rightarrow> string \<Rightarrow> json option" where
  "log_query a e = Some (JArr [JObj [(''fromBlock'', JStr a), (''toBlock'', JStr e), (''topics'', JArr [JArr [JStr ''0x00'']])]])"

definition query_filter :: "string \<Rightarrow> string \<Rightarrow> log_filter" where
  "query_filter a e = \<lparr>lf_FromBlock = Some a, lf_ToBlock = Some e, lf_Address = None, lf_Topics = [[zero_hash]]\<rparr>"

lemma example_query:
  "raw_args (log_query a e) = Some [JObj [(''fromBlock'', JStr a), (''toBlock'', JStr e), (''topics'', JArr [JArr [JStr ''0x00'']])]]"
  "parse_filter example_hex (JObj [(''fromBlock'', JStr a), (''toBlock'', JStr e), (''topics'', JArr [JArr [JStr ''0x00'']])])
    = Some (query_filter a e)"
  by (simp_all add: raw_args_def log_query_def parse_filter_def query_filter_def json_field_def lower_char_def Let_def
      as_topics_def pointer_text_def example_hex_def)

lemma example_get: "mg_GetBlock (example_libs log_block) log_manager n = (if n = 1 then Some log_block else None)"
proof (cases "n = 1")
  case False
  then show ?thesis
    by (simp add: mg_GetBlock_def cdb_ReadBlock_def log_manager_def mem_db_def)
qed (simp add: mg_GetBlock_def cdb_ReadBlock_def log_manager_def mem_db_def example_codec_def only_dec_def)

subsection \<open>Properties\<close>

text \<open>C19. A log query over a range that ends before the largest block number returns, and its answer has
  exactly the logs of the blocks of the range that match the filter: the address, when one is given,
  and at every position with topics, a topic that is among them. At most 1001 blocks are scanned.\<close>

theorem get_logs_complete:
  assumes "raw_args params = Some (j # rest)" and "parse_filter X j = Some f"
    and "log_range X (mg_CurrentBlock m) f = (a, e)" and "a \<le> e" and "e \<noteq> - 1"
  shows "\<exists>logs. getLogs B X m params = Some (Inr logs) \<and> unat e - unat a \<le> 1000 \<and>
    (\<forall>l. l \<in> set logs \<longleftrightarrow> (\<exists>n b. a \<le> n \<and> n \<le> e \<and> mg_GetBlock B m n = Some b \<and>
       (\<exists>r \<in> set (bk_Receipts b). l \<in> set (rc_Logs r)) \<and>
       (lf_Address f = None \<or> lf_Address f = Some (log_Address l)) \<and>
       (\<forall>i < length (lf_Topics f). lf_Topics f ! i \<noteq> [] \<longrightarrow>
          i < length (log_Topics l) \<and> log_Topics l ! i \<in> set (lf_Topics f ! i))))"
proof -
  have e: "unat e + 1 < 2 ^ 64" and a: "unat a \<le> Suc (unat e)"
    using assms(4,5) u64_max_nat [of e] by (simp_all add: u64_le_nat)
  let ?logs = "scan_logs (mg_GetBlock B m) f [unat a..<Suc (unat e)]"
  have "getLogs B X m params = Some (Inr ?logs)"
    using getLogs_range [OF assms(1-3), of B] logs_loop_eq [OF e a, of "mg_GetBlock B m" f "[]"] by (simp del: upt_Suc)
  moreover have "unat e - unat a \<le> 1000" by (rule log_range_span [OF assms(3,4)])
  moreover have "l \<in> set ?logs \<longleftrightarrow> (\<exists>n b. a \<le> n \<and> n \<le> e \<and> mg_GetBlock B m n = Some b \<and>
      (\<exists>r \<in> set (bk_Receipts b). l \<in> set (rc_Logs r)) \<and> matchLog l (lf_Address f) (lf_Topics f))" for l
    using in_u64_range [of a e "\<lambda>n. \<exists>b. mg_GetBlock B m n = Some b \<and> (\<exists>r \<in> set (bk_Receipts b). l \<in> set (rc_Logs r)) \<and>
      matchLog l (lf_Address f) (lf_Topics f)"]
    unfolding set_scan_logs by blast
  ultimately show ?thesis unfolding matchLog_iff by (intro exI [of _ ?logs]) blast
qed

lemma get_logs_complete_witness:
  "\<exists>logs. getLogs (example_libs log_block) example_hex log_manager (log_query ''0x0'' ''0x7'') = Some (Inr logs) \<and>
    example_log \<in> set logs"
proof -
  have "log_range example_hex (mg_CurrentBlock log_manager) (query_filter ''0x0'' ''0x7'') = (0, 7)"
    by (simp add: log_range_def block_bound_def query_filter_def example_hex_def)
  from get_logs_complete [OF example_query this, of "example_libs log_block"] obtain logs where logs:
    "getLogs (example_libs log_block) example_hex log_manager (log_query ''0x0'' ''0x7'') = Some (Inr logs)"
    "\<forall>l. l \<in> set logs \<longleftrightarrow> (\<exists>n b. 0 \<le> n \<and> n \<le> 7 \<and> mg_GetBlock (example_libs log_block) log_manager n = Some b \<and>
       (\<exists>r \<in> set (bk_Receipts b). l \<in> set (rc_Logs r)) \<and>
       (lf_Address (query_filter ''0x0'' ''0x7'') = None \<or> lf_Address (query_filter ''0x0'' ''0x7'') = Some (log_Address l)) \<and>
       (\<forall>i < length (lf_Topics (query_filter ''0x0'' ''0x7'')). lf_Topics (query_filter ''0x0'' ''0x7'') ! i \<noteq> [] \<longrightarrow>
          i < length (log_Topics l) \<and> log_Topics l ! i \<in> set (lf_Topics (query_filter ''0x0'' ''0x7'') ! i)))"
    by auto
  note logs(2)
  moreover have "mg_GetBlock (example_libs log_block) log_manager 1 = Some log_block" by (simp add: example_get)
  moreover have "\<exists>r \<in> set (bk_Receipts log_block). example_log \<in> set (rc_Logs r)" by (simp add: log_block_def)
  moreover have "(1 :: u64) \<le> 7" by simp
  ultimately have "example_log \<in> set logs" by (auto simp: query_filter_def example_log_def intro!: exI [of _ 1])
  with logs(1) show ?thesis by blast
qed

text \<open>C39. A log query that ends at the largest block number never returns: the counter wraps to zero after
  it, and the guard on the range does not see such a query when its start is close to its end.\<close>

theorem get_logs_never_returns:
  assumes "raw_args params = Some (j # rest)" and "parse_filter X j = Some f"
    and "lf_FromBlock f = Some s" and "lf_ToBlock f = Some t" and "s \<noteq> ''latest''" and "t \<noteq> ''latest''"
    and "hx_DecodeUint64 X s = Some a" and "hx_DecodeUint64 X t = Some (- 1)" and "2 ^ 64 - 1001 \<le> unat a"
  shows "getLogs B X m params = None"
proof -
  have "unat (- 1 - a) = 2 ^ 64 - 1 - unat a"
    by (subst unat_sub_no_wrap) (simp_all add: word_order.extremum)
  then have "\<not> 1000 < - 1 - a" using assms(9) by (simp add: u64_less_nat)
  then have "log_range X (mg_CurrentBlock m) f = (a, - 1)"
    using assms(3-8) by (simp add: log_range_def block_bound_def Let_def)
  from getLogs_range [OF assms(1,2) this] show ?thesis by (simp add: logs_loop_diverges)
qed

lemma get_logs_never_returns_witness:
  "getLogs (example_libs log_block) example_hex log_manager (log_query ''0xffffffffffffffff'' ''0xffffffffffffffff'') = None"
  by (rule get_logs_never_returns [OF example_query, where s = "''0xffffffffffffffff''" and t = "''0xffffffffffffffff''" and a = "- 1"])
    (simp_all add: query_filter_def example_hex_def)

text \<open>When the range is reversed, the subtraction of the guard wraps: the query scans the 1001 blocks
  from its start on, instead of none.\<close>

theorem get_logs_reversed_range:
  assumes "raw_args params = Some (j # rest)" and "parse_filter X j = Some f"
    and "block_bound X (mg_CurrentBlock m) 0 (lf_FromBlock f) = a"
    and "block_bound X (mg_CurrentBlock m) (mg_CurrentBlock m) (lf_ToBlock f) = t"
    and "t < a" and "unat a - unat t < 2 ^ 64 - 1000" and "unat a + 1001 < 2 ^ 64"
  shows "getLogs B X m params = Some (Inr (scan_logs (mg_GetBlock B m) f [unat a..<unat a + 1001]))"
proof -
  have "unat (t - a) = 2 ^ 64 + unat t - unat a" using assms(5) by (simp add: unat_sub_if_size u64_less_nat word_size)
  then have "1000 < t - a" using assms(5,6) by (simp add: u64_less_nat)
  then have r: "log_range X (mg_CurrentBlock m) f = (a, a + 1000)" using assms(3,4) by (simp add: log_range_def Let_def)
  have e: "unat (a + 1000) = unat a + 1000" using assms(7) by (subst unat_add_no_wrap) simp_all
  have "logs_loop (mg_GetBlock B m) f (a + 1000) a [] = Some (scan_logs (mg_GetBlock B m) f [unat a..<unat a + 1001])"
    using logs_loop_eq [of "a + 1000" a "mg_GetBlock B m" f "[]"] e assms(7)
    by (simp add: add.commute [of 1001] del: upt_Suc)
  then show ?thesis using getLogs_range [OF assms(1,2) r, of B] by simp
qed

lemma get_logs_reversed_range_witness:
  "getLogs (example_libs log_block) example_hex log_manager (log_query ''latest'' ''0x0'')
    = Some (Inr (scan_logs (mg_GetBlock (example_libs log_block) log_manager) (query_filter ''latest'' ''0x0'') [1..<1002]))"
  using get_logs_reversed_range [OF example_query [of "''latest''" "''0x0''"], of log_manager 1 0 "example_libs log_block"]
  by (simp add: query_filter_def block_bound_def example_hex_def log_manager_def mg_CurrentBlock_def)

end
