(* ===== verification/Receipts.thy ===== *)
theory Receipts
  imports Go_Bytes Pkg_Types
begin

section \<open>Verifiable compute receipts: internal/execution/receipts.go\<close>

text \<open>
  \<open>ComputeReceipt\<close>, its commitment hash and its check, the receipt store, and the Merkle root of a
  block's receipts. SHA-256 is the concrete function of \<open>Go_Bytes\<close>; Keccak-256 and \<open>BytesToHash\<close>
  are the parameter \<open>g\<close>. Statements about hashes name the two inputs that would have to collide.
\<close>

record compute_receipt =
  cr_TxHash :: hash
  cr_BlockNumber :: u64
  cr_TxIndex :: int
  cr_Sender :: address
  cr_To :: "address option"
  cr_Value :: "int option"
  cr_GasUsed :: u64
  cr_GasPrice :: int
  cr_PreStateRoot :: hash
  cr_PostStateRoot :: hash
  cr_Status :: u64
  cr_InputHash :: hash
  cr_OutputHash :: hash
  cr_LogsHash :: hash
  cr_ReceiptHash :: hash
  cr_ExecutedAt :: int

text \<open>The bytes that \<open>computeHash\<close> writes to the hash, in order.\<close>

definition receipt_preimage :: "compute_receipt \<Rightarrow> bytes" where
  "receipt_preimage r = cr_TxHash r @ be64 (cr_BlockNumber r) @ be64 (word_of_int (cr_TxIndex r)) @
     cr_Sender r @ (case cr_To r of None \<Rightarrow> [] | Some a \<Rightarrow> a) @
     (case cr_Value r of None \<Rightarrow> [] | Some v \<Rightarrow> int_bytes v) @ be64 (cr_GasUsed r) @
     cr_PreStateRoot r @ cr_PostStateRoot r @ be64 (cr_Status r) @
     cr_InputHash r @ cr_OutputHash r @ cr_LogsHash r"

definition cr_computeHash :: "geth \<Rightarrow> compute_receipt \<Rightarrow> hash" where
  "cr_computeHash g r = ge_BytesToHash g (sha256 (receipt_preimage r))"

definition cr_Verify :: "geth \<Rightarrow> compute_receipt \<Rightarrow> bool" where
  "cr_Verify g r \<longleftrightarrow> cr_ReceiptHash r = cr_computeHash g r"

definition log_bytes :: "log_entry \<Rightarrow> bytes" where
  "log_bytes l = log_Address l @ concat (log_Topics l) @ log_Data l"

definition computeLogsHash :: "geth \<Rightarrow> log_entry list \<Rightarrow> hash" where
  "computeLogsHash g logs =
     (if logs = [] then zero_hash else ge_BytesToHash g (sha256 (concat (map log_bytes logs))))"

definition CreateReceipt :: "geth \<Rightarrow> tx \<Rightarrow> receipt \<Rightarrow> u64 \<Rightarrow> int \<Rightarrow> address \<Rightarrow> hash \<Rightarrow> hash \<Rightarrow> bytes \<Rightarrow> int \<Rightarrow>
    compute_receipt" where
  "CreateReceipt g t rc blockNumber txIndex sender preStateRoot postStateRoot returnData now =
     (let cr = \<lparr>cr_TxHash = tx_Hash t, cr_BlockNumber = blockNumber, cr_TxIndex = txIndex,
            cr_Sender = sender, cr_To = tx_To t, cr_Value = Some (tx_Value t),
            cr_GasUsed = rc_GasUsed rc, cr_GasPrice = tx_GasPrice t,
            cr_PreStateRoot = preStateRoot, cr_PostStateRoot = postStateRoot,
            cr_Status = rc_Status rc, cr_InputHash = ge_Keccak256 g (tx_Data t),
            cr_OutputHash = ge_Keccak256 g returnData, cr_LogsHash = computeLogsHash g (rc_Logs rc),
            cr_ReceiptHash = zero_hash, cr_ExecutedAt = now\<rparr>
      in cr\<lparr>cr_ReceiptHash := cr_computeHash g cr\<rparr>)"

subsection \<open>The Merkle root\<close>

fun merkle_level :: "geth \<Rightarrow> hash list \<Rightarrow> hash list" where
  "merkle_level g (a # b # hs) = ge_Keccak256 g (a @ b) # merkle_level g hs"
| "merkle_level g hs = hs"

lemma merkle_level_length: "length (merkle_level g hs) = (length hs + 1) div 2"
  by (induction g hs rule: merkle_level.induct) auto

function merkle_loop :: "geth \<Rightarrow> hash list \<Rightarrow> hash list" where
  "merkle_loop g hs = (if 1 < length hs then merkle_loop g (merkle_level g hs) else hs)"
  by pat_completeness auto
termination
  by (relation "measure (\<lambda>(g, hs). length hs)") (auto simp: merkle_level_length)

declare merkle_loop.simps [simp del]

definition computeMerkleRoot :: "geth \<Rightarrow> hash list \<Rightarrow> hash" where
  "computeMerkleRoot g hs =
     (if hs = [] then zero_hash else if length hs = 1 then hs ! 0 else merkle_loop g hs ! 0)"

subsection \<open>The store\<close>

record receipt_store =
  rs_receipts :: "hash \<rightharpoonup> compute_receipt"
  rs_byBlock :: "u64 \<rightharpoonup> compute_receipt list"

definition NewReceiptStore :: receipt_store where
  "NewReceiptStore = \<lparr>rs_receipts = Map.empty, rs_byBlock = Map.empty\<rparr>"

definition rs_GetByBlock :: "receipt_store \<Rightarrow> u64 \<Rightarrow> compute_receipt list" where
  "rs_GetByBlock s n = (case rs_byBlock s n of None \<Rightarrow> [] | Some rs \<Rightarrow> rs)"

definition rs_Store :: "receipt_store \<Rightarrow> compute_receipt \<Rightarrow> receipt_store" where
  "rs_Store s r = s\<lparr>rs_receipts := (rs_receipts s)(cr_TxHash r \<mapsto> r),
     rs_byBlock := (rs_byBlock s)(cr_BlockNumber r \<mapsto> rs_GetByBlock s (cr_BlockNumber r) @ [r])\<rparr>"

definition rs_Get :: "receipt_store \<Rightarrow> hash \<Rightarrow> compute_receipt option" where
  "rs_Get s h = rs_receipts s h"

definition rs_Len :: "receipt_store \<Rightarrow> nat" where
  "rs_Len s = card (dom (rs_receipts s))"

definition rs_Count :: "receipt_store \<Rightarrow> nat" where
  "rs_Count s = card (dom (rs_receipts s))"

definition ComputeBlockReceiptRoot :: "geth \<Rightarrow> receipt_store \<Rightarrow> u64 \<Rightarrow> hash" where
  "ComputeBlockReceiptRoot g s n = (case rs_byBlock s n of
     None \<Rightarrow> zero_hash
   | Some rs \<Rightarrow> if rs = [] then zero_hash else computeMerkleRoot g (map cr_ReceiptHash rs))"

subsection \<open>Commitment\<close>

text \<open>Receipts with the lengths that the Go types give them.\<close>

definition receipt_wf :: "compute_receipt \<Rightarrow> bool" where
  "receipt_wf r \<longleftrightarrow> length (cr_TxHash r) = 32 \<and> 0 \<le> cr_TxIndex r \<and> cr_TxIndex r < 2 ^ 63 \<and>
     length (cr_Sender r) = 20 \<and> (case cr_To r of None \<Rightarrow> True | Some a \<Rightarrow> length a = 20) \<and>
     (case cr_Value r of None \<Rightarrow> False | Some v \<Rightarrow> 0 \<le> v) \<and>
     length (cr_PreStateRoot r) = 32 \<and> length (cr_PostStateRoot r) = 32 \<and>
     length (cr_InputHash r) = 32 \<and> length (cr_OutputHash r) = 32 \<and> length (cr_LogsHash r) = 32"

definition committed :: "compute_receipt \<Rightarrow> (hash \<times> u64 \<times> int \<times> address) \<times> (address option \<times> int option) \<times>
    (u64 \<times> hash \<times> hash \<times> u64 \<times> hash \<times> hash \<times> hash)" where
  "committed r = ((cr_TxHash r, cr_BlockNumber r, cr_TxIndex r, cr_Sender r), (cr_To r, cr_Value r),
     (cr_GasUsed r, cr_PreStateRoot r, cr_PostStateRoot r, cr_Status r, cr_InputHash r, cr_OutputHash r,
      cr_LogsHash r))"

lemma append_eq_fixed: "length a = length b \<Longrightarrow> a @ x = b @ y \<longleftrightarrow> a = b \<and> x = y"
  by simp

lemma append_eq_fixed_right: "length x = length y \<Longrightarrow> a @ x = b @ y \<longleftrightarrow> a = b \<and> x = y"
  by (metis append_eq_append_conv)

lemma word_of_index_inj:
  assumes "0 \<le> i" and "i < 2 ^ 63" and "0 \<le> j" and "j < 2 ^ 63"
    and "(word_of_int i :: u64) = word_of_int j"
  shows "i = j"
proof -
  have "uint (word_of_int i :: u64) = uint (word_of_int j :: u64)" using assms(5) by simp
  then have "i mod 2 ^ 64 = j mod 2 ^ 64" by (simp add: uint_word_of_int)
  then show ?thesis using assms(1-4) by simp
qed

lemma receipt_preimage_inj:
  assumes r: "receipt_wf r" and r': "receipt_wf r'" and to: "cr_To r = None \<longleftrightarrow> cr_To r' = None"
    and eq: "receipt_preimage r = receipt_preimage r'"
  shows "committed r = committed r'"
proof -
  let ?to = "\<lambda>r. case cr_To r of None \<Rightarrow> [] | Some a \<Rightarrow> a"
  let ?v = "\<lambda>r. case cr_Value r of None \<Rightarrow> [] | Some v \<Rightarrow> int_bytes v"
  let ?tail = "\<lambda>r. be64 (cr_GasUsed r) @ cr_PreStateRoot r @ cr_PostStateRoot r @ be64 (cr_Status r) @
     cr_InputHash r @ cr_OutputHash r @ cr_LogsHash r"
  have len: "length (cr_TxHash r) = 32" "length (cr_TxHash r') = 32"
      "length (cr_Sender r) = 20" "length (cr_Sender r') = 20"
      "length (cr_PreStateRoot r) = 32" "length (cr_PreStateRoot r') = 32"
      "length (cr_PostStateRoot r) = 32" "length (cr_PostStateRoot r') = 32"
      "length (cr_InputHash r) = 32" "length (cr_InputHash r') = 32"
      "length (cr_OutputHash r) = 32" "length (cr_OutputHash r') = 32"
      "length (cr_LogsHash r) = 32" "length (cr_LogsHash r') = 32"
    using r r' by (simp_all add: receipt_wf_def)
  have "length (?to r) = length (?to r')"
    using r r' to by (auto simp: receipt_wf_def split: option.splits)
  moreover have "length (?tail r) = length (?tail r')" using len by simp
  ultimately have parts: "cr_TxHash r = cr_TxHash r'" "be64 (cr_BlockNumber r) = be64 (cr_BlockNumber r')"
      "be64 (word_of_int (cr_TxIndex r)) = be64 (word_of_int (cr_TxIndex r'))"
      "cr_Sender r = cr_Sender r'" "?to r = ?to r'" "?v r = ?v r'" "?tail r = ?tail r'"
    using eq len unfolding receipt_preimage_def
    by (simp_all add: append_eq_fixed append_eq_fixed_right del: append_assoc)
  have "cr_To r = cr_To r'" using parts(5) to by (auto split: option.splits)
  moreover have "cr_Value r = cr_Value r'"
    using parts(6) r r' by (auto simp: receipt_wf_def int_bytes_def split: option.splits)
  moreover have "cr_TxIndex r = cr_TxIndex r'"
    using parts(3) r r' by (intro word_of_index_inj) (simp_all add: receipt_wf_def)
  ultimately show ?thesis using parts(1,2,4,7) len by (simp add: committed_def)
qed

subsection \<open>Binding of the Merkle root\<close>

text \<open>The inputs that the computation of the root hashes, level by level.\<close>

fun level_inputs :: "hash list \<Rightarrow> bytes list" where
  "level_inputs (a # b # hs) = (a @ b) # level_inputs hs"
| "level_inputs hs = []"

function merkle_inputs :: "geth \<Rightarrow> hash list \<Rightarrow> bytes list" where
  "merkle_inputs g hs = (if 1 < length hs then level_inputs hs @ merkle_inputs g (merkle_level g hs) else [])"
  by pat_completeness auto
termination
  by (relation "measure (\<lambda>(g, hs). length hs)") (auto simp: merkle_level_length)

declare merkle_inputs.simps [simp del]

definition keccak_collision :: "geth \<Rightarrow> bytes list \<Rightarrow> bytes list \<Rightarrow> bool" where
  "keccak_collision g xs ys \<longleftrightarrow>
     (\<exists>x \<in> set xs. \<exists>y \<in> set ys. x \<noteq> y \<and> ge_Keccak256 g x = ge_Keccak256 g y)"

lemma keccak_collision_append:
  "keccak_collision g xs ys \<Longrightarrow> keccak_collision g (xs @ xs') (ys @ ys')"
  "keccak_collision g xs' ys' \<Longrightarrow> keccak_collision g (xs @ xs') (ys @ ys')"
  by (auto simp: keccak_collision_def)

definition all_hashes :: "hash list \<Rightarrow> bool" where
  "all_hashes hs \<longleftrightarrow> (\<forall>h \<in> set hs. length h = 32)"

lemma merkle_level_hashes: "geth_laws g \<Longrightarrow> all_hashes hs \<Longrightarrow> all_hashes (merkle_level g hs)"
  by (induction g hs rule: merkle_level.induct) (auto simp: all_hashes_def geth_keccak_length)

lemma merkle_level_binding:
  assumes "length hs = length hs'" and "all_hashes hs" and "all_hashes hs'"
    and "merkle_level g hs = merkle_level g hs'"
  shows "hs = hs' \<or> keccak_collision g (level_inputs hs) (level_inputs hs')"
  using assms
proof (induction g hs arbitrary: hs' rule: merkle_level.induct)
  case (1 g a b hs)
  then obtain a' b' hs1 where hs': "hs' = a' # b' # hs1" by (metis length_Suc_conv length_Cons)
  have k: "ge_Keccak256 g (a @ b) = ge_Keccak256 g (a' @ b')" "merkle_level g hs = merkle_level g hs1"
    using 1(5) hs' by simp_all
  have len: "length a = length a'" using 1(3,4) hs' by (simp add: all_hashes_def)
  have "hs = hs1 \<or> keccak_collision g (level_inputs hs) (level_inputs hs1)"
    using 1 k(2) hs' by (intro 1(1)) (auto simp: all_hashes_def)
  then show ?case
    using k(1) len hs' by (auto simp: keccak_collision_def)
next
  case "2_1"
  then show ?case by simp
next
  case "2_2"
  then show ?case by (cases hs' rule: level_inputs.cases) auto
qed

lemma merkle_loop_short: "\<not> 1 < length hs \<Longrightarrow> merkle_loop g hs = hs"
  by (simp add: merkle_loop.simps)

lemma merkle_loop_step: "1 < length hs \<Longrightarrow> merkle_loop g hs = merkle_loop g (merkle_level g hs)"
  by (simp add: merkle_loop.simps [of g hs])

lemma merkle_loop_single: "hs \<noteq> [] \<Longrightarrow> length (merkle_loop g hs) = 1"
proof (induction g hs rule: merkle_loop.induct)
  case (1 g hs)
  show ?case
  proof (cases "1 < length hs")
    case True
    have "length (merkle_level g hs) \<noteq> 0" using True by (simp add: merkle_level_length)
    then have "merkle_level g hs \<noteq> []" by auto
    then show ?thesis using True 1 by (simp add: merkle_loop_step)
  next
    case False
    then show ?thesis using 1(2) by (cases hs) (auto simp: merkle_loop_short)
  qed
qed

lemma merkle_loop_binding:
  assumes "geth_laws g" and "length hs = length hs'" and "all_hashes hs" and "all_hashes hs'"
    and "merkle_loop g hs = merkle_loop g hs'"
  shows "hs = hs' \<or> keccak_collision g (merkle_inputs g hs) (merkle_inputs g hs')"
  using assms
proof (induction g hs arbitrary: hs' rule: merkle_loop.induct)
  case (1 g hs)
  show ?case
  proof (cases "1 < length hs")
    case True
    then have up: "merkle_level g hs = merkle_level g hs' \<or>
        keccak_collision g (merkle_inputs g (merkle_level g hs)) (merkle_inputs g (merkle_level g hs'))"
      using 1 by (intro 1(1)) (auto simp: merkle_level_length merkle_level_hashes merkle_loop_step)
    have inp: "merkle_inputs g hs = level_inputs hs @ merkle_inputs g (merkle_level g hs)"
      "merkle_inputs g hs' = level_inputs hs' @ merkle_inputs g (merkle_level g hs')"
      using True 1(3) by (simp_all add: merkle_inputs.simps [of g])
    show ?thesis
      using up merkle_level_binding [OF 1(3,4,5)] unfolding inp by (auto intro: keccak_collision_append)
  next
    case False
    with 1 show ?thesis by (simp add: merkle_loop_short)
  qed
qed

lemma computeMerkleRoot_eq: "hs \<noteq> [] \<Longrightarrow> computeMerkleRoot g hs = merkle_loop g hs ! 0"
  by (cases "length hs = 1") (simp_all add: computeMerkleRoot_def merkle_loop_short)

lemma merkle_root_binding:
  assumes "geth_laws g" and "length hs = length hs'" and "all_hashes hs" and "all_hashes hs'"
    and "computeMerkleRoot g hs = computeMerkleRoot g hs'"
  shows "hs = hs' \<or> keccak_collision g (merkle_inputs g hs) (merkle_inputs g hs')"
proof (cases "hs = []")
  case False
  then have ne: "hs' \<noteq> []" using assms(2) by auto
  have "merkle_loop g hs = merkle_loop g hs'"
    using assms(5) merkle_loop_single [OF False, of g] merkle_loop_single [OF ne, of g] False ne
    by (intro nth_equalityI) (simp_all add: computeMerkleRoot_eq)
  then show ?thesis using merkle_loop_binding assms(1-4) by blast
qed (use assms(2) in simp)

subsection \<open>The store after a sequence of receipts\<close>

definition store_all :: "compute_receipt list \<Rightarrow> receipt_store" where
  "store_all rs = fold (\<lambda>r s. rs_Store s r) rs NewReceiptStore"

lemma store_all_byBlock: "rs_GetByBlock (store_all rs) n = filter (\<lambda>r. cr_BlockNumber r = n) rs"
proof (induction rs rule: rev_induct)
  case Nil
  then show ?case by (simp add: store_all_def NewReceiptStore_def rs_GetByBlock_def)
next
  case (snoc r rs)
  have "store_all (rs @ [r]) = rs_Store (store_all rs) r" by (simp add: store_all_def)
  with snoc show ?case by (auto simp: rs_Store_def rs_GetByBlock_def split: if_splits)
qed

lemma store_all_get: "rs_Get (store_all rs) h = (if h \<in> cr_TxHash ` set rs
    then Some (last (filter (\<lambda>r. cr_TxHash r = h) rs)) else None)"
proof (induction rs rule: rev_induct)
  case Nil
  then show ?case by (simp add: store_all_def NewReceiptStore_def rs_Get_def)
next
  case (snoc r rs)
  have "store_all (rs @ [r]) = rs_Store (store_all rs) r" by (simp add: store_all_def)
  with snoc show ?case by (auto simp: rs_Store_def rs_Get_def)
qed

subsection \<open>Properties\<close>

text \<open>C29. The Merkle root binds the receipts of a block: two lists of the same length with the same
  root are equal, or the two computations exhibit a Keccak collision, on inputs they hashed.\<close>

theorem merkle_root_binds:
  assumes "geth_laws g" and "length hs = length hs'" and "\<forall>h \<in> set hs. length h = 32"
    and "\<forall>h \<in> set hs'. length h = 32" and "computeMerkleRoot g hs = computeMerkleRoot g hs'"
  shows "hs = hs' \<or> keccak_collision g (merkle_inputs g hs) (merkle_inputs g hs')"
  using merkle_root_binding assms by (simp add: all_hashes_def)

lemma merkle_root_binds_witness:
  "[zero_hash, zero_hash] = [zero_hash, zero_hash] \<or>
   keccak_collision example_geth (merkle_inputs example_geth [zero_hash, zero_hash])
     (merkle_inputs example_geth [zero_hash, zero_hash])"
  by (rule merkle_root_binds) simp_all

text \<open>The root does not separate leaves from inner nodes: the root of two pairs is the root of the
  two hashes of the pairs, so lists of different lengths share a root without any collision.\<close>

theorem merkle_root_node_as_leaf:
  "computeMerkleRoot g [a, b, c, d] = computeMerkleRoot g [ge_Keccak256 g (a @ b), ge_Keccak256 g (c @ d)]"
  by (simp add: computeMerkleRoot_def merkle_loop.simps)


definition example_receipt :: compute_receipt where
  "example_receipt = CreateReceipt example_geth (example_tx 1 21000 5)
     (example_rc 1)
     1 0 zero_address zero_hash zero_hash [] 0"

lemma example_receipt_wf: "receipt_wf example_receipt"
  by (simp add: example_receipt_def CreateReceipt_def Let_def receipt_wf_def example_tx_def
      example_rc_def example_geth_def computeLogsHash_def)

lemma example_receipt_verifies: "cr_Verify example_geth example_receipt"
  by (simp add: example_receipt_def CreateReceipt_def Let_def cr_Verify_def cr_computeHash_def
      receipt_preimage_def)


text \<open>The hash does not cover the gas price and the time of execution: a receipt with both altered
  still verifies.\<close>

theorem receipt_price_not_covered:
  "cr_Verify g (r\<lparr>cr_GasPrice := price, cr_ExecutedAt := time\<rparr>) \<longleftrightarrow> cr_Verify g r"
  by (simp add: cr_Verify_def cr_computeHash_def receipt_preimage_def)

text \<open>The recipient and the value are written without lengths: a transfer of nothing to an address
  and a contract creation whose value has the bytes of that address have the same hash.\<close>

theorem receipt_to_value_ambiguous:
  assumes "cr_To r = Some a" and "cr_Value r = Some 0" and "a \<noteq> []" and "hd a \<noteq> 0"
  shows "cr_computeHash g (r\<lparr>cr_To := None, cr_Value := Some (int (bytes_nat a))\<rparr>) = cr_computeHash g r"
  using assms nat_bytes_of_bytes [of a]
  by (simp add: cr_computeHash_def receipt_preimage_def int_bytes_def)

lemma receipt_to_value_ambiguous_witness:
  "cr_computeHash example_geth (example_receipt\<lparr>cr_To := None, cr_Value := Some (int (bytes_nat (replicate 20 7)))\<rparr>)
    = cr_computeHash example_geth (example_receipt\<lparr>cr_To := Some (replicate 20 7), cr_Value := Some 0\<rparr>)"
  using receipt_to_value_ambiguous [of "example_receipt\<lparr>cr_To := Some (replicate 20 7), cr_Value := Some 0\<rparr>"
      "replicate 20 7" example_geth] by simp

text \<open>C30. The store after any sequence of receipts: a block's receipts are those stored for it, in order,
  a hash answers the last receipt stored with it, and the block's root is the Merkle root of their
  receipt hashes.\<close>

theorem receipt_store_contents:
  "rs_GetByBlock (store_all rs) n = filter (\<lambda>r. cr_BlockNumber r = n) rs \<and>
   rs_Get (store_all rs) h = (if h \<in> cr_TxHash ` set rs
     then Some (last (filter (\<lambda>r. cr_TxHash r = h) rs)) else None) \<and>
   ComputeBlockReceiptRoot g (store_all rs) n =
     computeMerkleRoot g (map cr_ReceiptHash (filter (\<lambda>r. cr_BlockNumber r = n) rs))"
proof -
  have "ComputeBlockReceiptRoot g (store_all rs) n
      = computeMerkleRoot g (map cr_ReceiptHash (rs_GetByBlock (store_all rs) n))"
    by (auto simp: ComputeBlockReceiptRoot_def rs_GetByBlock_def computeMerkleRoot_def split: option.split)
  then show ?thesis by (simp add: store_all_byBlock store_all_get)
qed

end
