(* ===== verification/Mempool.thy ===== *)
theory Mempool
  imports Tx_Pool
begin

section \<open>The single-queue pool: internal/mempool/mempool.go\<close>

text \<open>
  \<open>Mempool\<close>: one priority queue and the set of known hashes. Every method of the code holds the
  mutex from its first to its last line, so a method is one step; the reachable pools are those
  that the methods can make, in any order. The pool is an instance of the \<open>tx_pool\<close> interface.
\<close>

record mempool =
  mp_pending :: "tx_meta list"
  mp_known :: "hash set"
  mp_senderNonces :: "address \<rightharpoonup> u64"
  mp_tasteScoreWeight :: f64
  mp_maxSize :: int

text \<open>\<open>make\<close> panics on a negative capacity: \<open>None\<close>.\<close>

definition mp_New :: "f64 \<Rightarrow> int \<Rightarrow> mempool option" where
  "mp_New w maxSize = (if maxSize < 0 then None else Some
     \<lparr>mp_pending = heap_init tx_less [], mp_known = {}, mp_senderNonces = Map.empty,
      mp_tasteScoreWeight = w, mp_maxSize = maxSize\<rparr>)"

definition mp_Add :: "mempool \<Rightarrow> tx \<Rightarrow> address \<Rightarrow> f64 \<Rightarrow> int \<Rightarrow> pool_error + mempool" where
  "mp_Add m t sender tasteScore now =
     (if tx_Hash t \<in> mp_known m then Inl ErrAlreadyKnown
      else if mp_maxSize m \<le> int (length (mp_pending m)) then Inl ErrMempoolFull
      else Inr (m\<lparr>mp_pending := heap_push tx_less (mp_pending m)
                    (new_meta (mp_tasteScoreWeight m) t sender tasteScore now),
                  mp_known := insert (tx_Hash t) (mp_known m)\<rparr>))"

definition mp_Pop :: "mempool \<Rightarrow> tx_meta option \<times> mempool" where
  "mp_Pop m = (if mp_pending m = [] then (None, m)
     else (case heap_pop tx_less (mp_pending m) of (item, q) \<Rightarrow>
       (Some item, m\<lparr>mp_pending := q, mp_known := mp_known m - {tx_Hash (Tx item)}\<rparr>)))"

definition mp_Peek :: "mempool \<Rightarrow> tx_meta option" where
  "mp_Peek m = (if mp_pending m = [] then None else Some (mp_pending m ! 0))"

definition mp_PopBatch :: "mempool \<Rightarrow> int \<Rightarrow> u64 \<Rightarrow> tx_meta list \<times> mempool" where
  "mp_PopBatch m maxTx gasLimit =
     (case drain_loop (\<lambda>h known. known - {h}) maxTx gasLimit (mp_pending m) (mp_known m) [] 0 of
        (q, known, batch, gasTotal) \<Rightarrow> (batch, m\<lparr>mp_pending := q, mp_known := known\<rparr>))"

definition mp_Remove :: "mempool \<Rightarrow> hash \<Rightarrow> mempool" where
  "mp_Remove m h = m\<lparr>mp_known := mp_known m - {h}, mp_pending := queue_remove h (mp_pending m)\<rparr>"

definition mp_Has :: "mempool \<Rightarrow> hash \<Rightarrow> bool" where
  "mp_Has m h \<longleftrightarrow> h \<in> mp_known m"

definition mp_Len :: "mempool \<Rightarrow> int" where
  "mp_Len m = int (length (mp_pending m))"

definition mp_Pending :: "mempool \<Rightarrow> tx_meta list" where
  "mp_Pending m = mp_pending m"

definition mp_Reset :: "mempool \<Rightarrow> mempool" where
  "mp_Reset m = m\<lparr>mp_pending := heap_init tx_less [], mp_known := {}\<rparr>"

definition mempool_ops :: "mempool pool_ops" where
  "mempool_ops = \<lparr>tp_Add = mp_Add, tp_PopBatch = mp_PopBatch, tp_Len = mp_Len, tp_Pending = mp_Pending,
     tp_Has = mp_Has, tp_LaneSizes = (\<lambda>p. None)\<rparr>"

subsection \<open>The invariant\<close>

definition mp_inv :: "mempool \<Rightarrow> bool" where
  "mp_inv m \<longleftrightarrow> is_heap tx_less (mp_pending m) \<and> (\<forall>x \<in> set (mp_pending m). ordered_meta x) \<and>
     distinct (map meta_hash (mp_pending m)) \<and> mp_known m = meta_hash ` set (mp_pending m) \<and>
     int (length (mp_pending m)) \<le> mp_maxSize m \<and> unit_f64 (mp_tasteScoreWeight m)"

lemma fold_del_set: "fold (\<lambda>h known. known - {h}) hs K = K - set hs"
  by (induction hs arbitrary: K) auto

lemma mp_New_inv:
  assumes "unit_f64 w" and "mp_New w n = Some m"
  shows "mp_inv m \<and> mp_maxSize m = n \<and> mp_tasteScoreWeight m = w"
  using assms by (auto simp: mp_New_def mp_inv_def split: if_splits)

lemma mp_Add_ok:
  assumes "mp_inv m" and "is_finite c" and "tx_Hash t \<notin> mp_known m" and "mp_Len m < mp_maxSize m"
  shows "\<exists>m'. mp_Add m t s c now = Inr m' \<and> mp_inv m' \<and> mp_maxSize m' = mp_maxSize m \<and>
      mp_tasteScoreWeight m' = mp_tasteScoreWeight m \<and>
      mset (mp_pending m') = add_mset (new_meta (mp_tasteScoreWeight m) t s c now) (mset (mp_pending m))"
proof -
  let ?x = "new_meta (mp_tasteScoreWeight m) t s c now"
  have x: "ordered_meta ?x" using assms by (simp add: mp_inv_def new_meta_ordered)
  then have h: "is_heap tx_less (heap_push tx_less (mp_pending m) ?x)"
    using assms(1) by (simp add: mp_inv_def txq.push_heap)
  have "mset (map meta_hash (heap_push tx_less (mp_pending m) ?x)) = mset (map meta_hash (?x # mp_pending m))"
    by simp
  then have "distinct (map meta_hash (heap_push tx_less (mp_pending m) ?x))
      \<longleftrightarrow> distinct (map meta_hash (?x # mp_pending m))"
    by (rule mset_eq_imp_distinct_iff)
  with assms x h show ?thesis by (auto simp: mp_Add_def mp_inv_def mp_Len_def)
qed

lemma mp_Add_inv: "mp_inv m \<Longrightarrow> is_finite c \<Longrightarrow> mp_Add m t s c now = Inr m' \<Longrightarrow> mp_inv m'"
  using mp_Add_ok [of m c t s now] by (auto simp: mp_Add_def mp_Len_def split: if_splits)

lemma mp_PopBatch_parts:
  assumes "mp_inv m" and "mp_PopBatch m k g = (b, m')"
  shows "mp_inv m' \<and> mp_maxSize m' = mp_maxSize m \<and> mp_tasteScoreWeight m' = mp_tasteScoreWeight m \<and>
    mset (mp_pending m) = mset b + mset (mp_pending m') \<and> int (length b) \<le> max 0 k"
proof -
  let ?r = "drain_loop (\<lambda>h known. known - {h}) k g (mp_pending m) (mp_known m) [] 0"
  have h: "is_heap tx_less (mp_pending m)" "\<forall>x \<in> set (mp_pending m). ordered_meta x"
    using assms(1) by (simp_all add: mp_inv_def)
  obtain q known used where r: "?r = (q, known, b, used)"
    and m': "m' = m\<lparr>mp_pending := q, mp_known := known\<rparr>"
    using assms(2) by (auto simp: mp_PopBatch_def split: prod.splits)
  obtain new where new: "moved (\<lambda>h known. known - {h}) (mp_pending m) (mp_known m) [] new ?r"
      "int (length new) \<le> max 0 (k - int (length ([] :: tx_meta list)))"
    using drain_moves [OF h, of "\<lambda>h known. known - {h}" "mp_known m" "[]" k g 0] by auto
  have b: "b = new" "mset (mp_pending m) = mset b + mset q" "is_heap tx_less q"
      "known = mp_known m - set (map meta_hash b)"
    using new(1) by (simp_all add: moved_def r fold_del_set)
  note split = hashes_split [OF b(2)]
  have old: "mp_known m = meta_hash ` set (mp_pending m)" "distinct (map meta_hash (mp_pending m))"
      "\<forall>x \<in> set (mp_pending m). ordered_meta x" "int (length (mp_pending m)) \<le> mp_maxSize m"
      "unit_f64 (mp_tasteScoreWeight m)"
    using assms(1) by (simp_all add: mp_inv_def)
  have "mp_inv m'"
    unfolding mp_inv_def m' using b(3,4) old split [OF old(2)] by simp
  then show ?thesis using b(1,2) new(2) m' by simp
qed

text \<open>The batch is the greedy prefix of the pending transactions in order of priority.\<close>

lemma mp_PopBatch_greedy:
  assumes "mp_inv m" and "mp_PopBatch m k g = (b, m')" and "gas_fits g (mp_pending m)"
  obtains xs where "mset xs = mset (mp_pending m)" and "sorted_wrt tx_before_eq xs"
    and "b = greedy_prefix k (unat g) 0 xs" and "mset (mp_pending m') = mset (drop (length b) xs)"
proof -
  have h: "is_heap tx_less (mp_pending m)" "\<forall>x \<in> set (mp_pending m). ordered_meta x"
    using assms(1) by (simp_all add: mp_inv_def)
  obtain xs where "drained (\<lambda>h known. known - {h}) (mp_pending m) (mp_known m) [] (unat (0 :: u64)) xs
      (greedy_prefix (k - int (length ([] :: tx_meta list))) (unat g) (unat (0 :: u64)) xs)
      (drain_loop (\<lambda>h known. known - {h}) k g (mp_pending m) (mp_known m) [] 0)"
    using drain_refines [OF h assms(3), of 0 "\<lambda>h known. known - {h}" "mp_known m" "[]" k] by auto
  then show ?thesis
    using assms(2) by (intro that [of xs]) (auto simp: mp_PopBatch_def drained_def split: prod.splits)
qed

lemma mp_Pop_inv:
  assumes "mp_inv m"
  shows "mp_inv (snd (mp_Pop m))"
proof (cases "mp_pending m = []")
  case False
  let ?x = "fst (heap_pop tx_less (mp_pending m))" and ?q = "snd (heap_pop tx_less (mp_pending m))"
  have m: "mset (mp_pending m) = mset [?x] + mset ?q"
    using heap_pop_front(1,2) [OF False, of tx_less] by simp
  have "is_heap tx_less ?q" using False assms by (simp add: mp_inv_def txq.pop_heap)
  with False assms hashes_split [OF m] show ?thesis
    by (auto simp: mp_Pop_def mp_inv_def meta_hash_def case_prod_beta)
qed (use assms in \<open>simp add: mp_Pop_def\<close>)

lemma mp_Remove_inv: "mp_inv m \<Longrightarrow> mp_inv (mp_Remove m h)"
  using queue_remove_facts [of "mp_pending m" h]
  by (auto simp: mp_inv_def mp_Remove_def)

lemma mp_Reset_inv: "mp_inv m \<Longrightarrow> mp_inv (mp_Reset m)"
  by (auto simp: mp_inv_def mp_Reset_def)

subsection \<open>The interface\<close>

interpretation mp: tx_pool mp_Add mp_PopBatch mp_Len mp_Pending mp_Has mp_inv mp_maxSize
  mp_tasteScoreWeight
proof
  fix p :: mempool and t :: tx and s c now h k g b p'
  show "mp_Has p (tx_Hash t) \<Longrightarrow> mp_Add p t s c now = Inl ErrAlreadyKnown"
    by (simp add: mp_Has_def mp_Add_def)
  show "\<not> mp_Has p (tx_Hash t) \<Longrightarrow> mp_maxSize p \<le> mp_Len p \<Longrightarrow> mp_Add p t s c now = Inl ErrMempoolFull"
    by (simp add: mp_Has_def mp_Add_def mp_Len_def)
  assume p: "mp_inv p"
  show "is_finite c \<Longrightarrow> \<not> mp_Has p (tx_Hash t) \<Longrightarrow> mp_Len p < mp_maxSize p \<Longrightarrow>
      \<exists>p'. mp_Add p t s c now = Inr p' \<and> mp_inv p' \<and> mp_maxSize p' = mp_maxSize p \<and>
        mp_tasteScoreWeight p' = mp_tasteScoreWeight p \<and>
        mset (mp_Pending p') = add_mset (new_meta (mp_tasteScoreWeight p) t s c now) (mset (mp_Pending p))"
    using mp_Add_ok [OF p, of c t s now] by (simp add: mp_Has_def mp_Pending_def)
  show "mp_Has p h \<longleftrightarrow> h \<in> meta_hash ` set (mp_Pending p)"
    using p by (simp add: mp_inv_def mp_Has_def mp_Pending_def)
  show "mp_Len p = int (length (mp_Pending p))" by (simp add: mp_Len_def mp_Pending_def)
  show "distinct (map meta_hash (mp_Pending p))" using p by (simp add: mp_inv_def mp_Pending_def)
  assume pop: "mp_PopBatch p k g = (b, p')"
  show "mp_inv p' \<and> mp_maxSize p' = mp_maxSize p \<and> mp_tasteScoreWeight p' = mp_tasteScoreWeight p \<and>
      mset (mp_Pending p) = mset b + mset (mp_Pending p') \<and> int (length b) \<le> max 0 k"
    using mp_PopBatch_parts [OF p pop] by (simp add: mp_Pending_def)
  assume fits: "gas_fits g (mp_Pending p)"
  obtain xs where "b = greedy_prefix k (unat g) 0 xs"
    using mp_PopBatch_greedy [OF p pop] fits unfolding mp_Pending_def by blast
  then show "sum_list (map meta_gas b) \<le> unat g"
    using greedy_prefix_gas [of 0 "unat g" k xs] by simp
qed

subsection \<open>The reachable pools\<close>

text \<open>Any sequence of calls, with scores that are finite numbers.\<close>

inductive mp_reach :: "f64 \<Rightarrow> int \<Rightarrow> mempool \<Rightarrow> bool" for w n where
  New: "mp_New w n = Some m \<Longrightarrow> mp_reach w n m"
| Add: "mp_reach w n m \<Longrightarrow> is_finite c \<Longrightarrow> mp_Add m t s c now = Inr m' \<Longrightarrow> mp_reach w n m'"
| Pop: "mp_reach w n m \<Longrightarrow> mp_Pop m = (r, m') \<Longrightarrow> mp_reach w n m'"
| PopBatch: "mp_reach w n m \<Longrightarrow> mp_PopBatch m k g = (b, m') \<Longrightarrow> mp_reach w n m'"
| Remove: "mp_reach w n m \<Longrightarrow> mp_reach w n (mp_Remove m h)"
| Reset: "mp_reach w n m \<Longrightarrow> mp_reach w n (mp_Reset m)"

lemma mp_reach_inv:
  assumes "unit_f64 w" and "mp_reach w n m"
  shows "mp_inv m \<and> mp_maxSize m = n \<and> mp_tasteScoreWeight m = w"
  using assms(2)
proof induction
  case (New m)
  with assms(1) show ?case by (simp add: mp_New_inv)
next
  case (Add m c t s now m')
  then have "mp_inv m'" using mp_Add_inv by blast
  with Add show ?case by (auto simp: mp_Add_def split: if_splits)
next
  case (Pop m r m')
  then show ?case using mp_Pop_inv [of m] by (auto simp: mp_Pop_def split: if_splits prod.splits)
next
  case (PopBatch m k g b m')
  then show ?case using mp_PopBatch_parts by blast
next
  case (Remove m h)
  then show ?case using mp_Remove_inv by (simp add: mp_Remove_def)
next
  case (Reset m)
  then show ?case using mp_Reset_inv by (simp add: mp_Reset_def)
qed

text \<open>A pool of two transactions that came in one after the other, for the examples.\<close>

definition two_txs :: "tx \<Rightarrow> tx \<Rightarrow> mempool" where
  "two_txs t1 t2 = (case mp_Add \<lparr>mp_pending = [], mp_known = {}, mp_senderNonces = Map.empty,
        mp_tasteScoreWeight = Fin (1 / 2), mp_maxSize = 10\<rparr> t1 zero_address (Fin (1 / 2)) 1 of
      Inl _ \<Rightarrow> undefined | Inr m \<Rightarrow>
      (case mp_Add m t2 zero_address (Fin (1 / 2)) 2 of Inl _ \<Rightarrow> undefined | Inr m \<Rightarrow> m))"

lemma two_txs_reach:
  assumes "tx_Hash t1 \<noteq> tx_Hash t2"
  shows "mp_reach (Fin (1 / 2)) 10 (two_txs t1 t2)"
proof -
  let ?m0 = "\<lparr>mp_pending = [], mp_known = {}, mp_senderNonces = Map.empty,
        mp_tasteScoreWeight = Fin (1 / 2), mp_maxSize = 10\<rparr>"
  have r0: "mp_reach (Fin (1 / 2)) 10 ?m0" by (rule mp_reach.New) (simp add: mp_New_def)
  obtain m1 where m1: "mp_Add ?m0 t1 zero_address (Fin (1 / 2)) 1 = Inr m1"
      "mp_known m1 = {tx_Hash t1}" "length (mp_pending m1) = 1" "mp_maxSize m1 = 10"
    by (simp add: mp_Add_def)
  obtain m2 where m2: "mp_Add m1 t2 zero_address (Fin (1 / 2)) 2 = Inr m2"
    using m1(2-4) assms by (simp add: mp_Add_def)
  have "mp_reach (Fin (1 / 2)) 10 m1" by (rule mp_reach.Add [OF r0 _ m1(1)]) simp
  then have "mp_reach (Fin (1 / 2)) 10 m2" by (rule mp_reach.Add [OF _ _ m2]) simp
  then show ?thesis using m1(1) m2 by (simp add: two_txs_def)
qed

definition two_meta :: "tx \<Rightarrow> int \<Rightarrow> tx_meta" where
  "two_meta t now = new_meta (Fin (1 / 2)) t zero_address (Fin (1 / 2)) now"

lemma two_meta_order:
  assumes "tx_GasPrice t = tx_GasPrice t'"
  shows "tx_less (two_meta t now) (two_meta t' now') \<longleftrightarrow> now < now'"
proof -
  have "Priority (two_meta t now) = Priority (two_meta t' now')"
    using assms by (simp add: two_meta_def new_meta_def ComputePriority_def)
  moreover have "Priority (two_meta t now) \<noteq> NaN"
    using new_meta_ordered [of "Fin (1 / 2)" "Fin (1 / 2)" t zero_address now]
    by (simp add: two_meta_def ordered_meta_def)
  moreover have "ReceivedAt (two_meta t now) = now" for t now
    by (simp add: two_meta_def new_meta_def ComputePriority_def)
  ultimately show ?thesis by (simp add: tx_less_def feq_def)
qed

lemma two_meta_Tx [simp]: "Tx (two_meta t now) = t"
  by (simp add: two_meta_def)

lemma two_txs_pending:
  assumes "tx_Hash t1 \<noteq> tx_Hash t2" and "tx_GasPrice t1 = tx_GasPrice t2"
  shows "mp_pending (two_txs t1 t2) = [two_meta t1 1, two_meta t2 2]"
  using assms two_meta_order [of t2 t1 2 1]
  by (simp add: two_txs_def mp_Add_def heap_push_def heap_up_eq [of tx_less _ "Suc 0"]
      heap_up_eq [of tx_less _ 0] heap_parent_def flip: two_meta_def)

lemma two_txs_pop_batch:
  assumes "tx_Hash t1 \<noteq> tx_Hash t2" and "tx_GasPrice t1 = tx_GasPrice t2"
    and "\<not> g < tx_Gas t1" and "\<not> g < tx_Gas t1 + tx_Gas t2"
  shows "mp_PopBatch (two_txs t1 t2) 5 g =
    ([two_meta t1 1, two_meta t2 2], snd (mp_PopBatch (two_txs t1 t2) 5 g))"
proof -
  let ?a = "two_meta t1 1" and ?b = "two_meta t2 2"
  have pop: "heap_pop tx_less [?a, ?b] = (?a, [?b])" "heap_pop tx_less [?b] = (?b, [])"
    by (simp_all add: heap_pop_def exchange_def Let_def heap_down.simps)
  show ?thesis
    using assms by (simp add: mp_PopBatch_def two_txs_pending drain_loop.simps pop)
qed

subsection \<open>Properties\<close>

text \<open>C17. Every pool that the methods can build from \<open>New\<close>, in any order of calls, is well formed:
  its queue is a heap, the set of known hashes is exactly the set of the queued hashes, no
  transaction is queued twice, and the queue never exceeds its maximal size.\<close>

theorem mempool_reachable_well_formed:
  assumes "unit_f64 w" and "mp_reach w n m"
  shows "is_heap tx_less (mp_pending m) \<and> mp_known m = meta_hash ` set (mp_pending m) \<and>
    distinct (map meta_hash (mp_pending m)) \<and> mp_Len m \<le> n"
  using mp_reach_inv [OF assms] by (auto simp: mp_inv_def mp_Len_def)

lemma mempool_reachable_well_formed_witness:
  "mp_Len (two_txs (example_tx 1 21000 0) (example_tx 2 21000 0)) \<le> 10"
  using mempool_reachable_well_formed [OF _ two_txs_reach] by (simp add: example_tx_def)

text \<open>C16. \<open>PopBatch\<close> implements its specification: sort the pending transactions by priority, then
  by arrival; the batch is the longest prefix within the count and the gas limit, and the pool keeps
  the others. It holds when no gas sum can wrap around.\<close>

theorem mempool_pop_batch_greedy:
  assumes "unit_f64 w" and "mp_reach w n m" and "gas_fits g (mp_pending m)"
    and "mp_PopBatch m k g = (b, m')"
  shows "\<exists>xs. mset xs = mset (mp_pending m) \<and> sorted_wrt tx_before_eq xs \<and>
    b = greedy_prefix k (unat g) 0 xs \<and> mset (mp_pending m') = mset (drop (length b) xs)"
  using mp_PopBatch_greedy [of m k g b m'] mp_reach_inv assms by metis

lemma mempool_pop_batch_greedy_witness:
  "\<exists>b m' xs. mp_PopBatch (two_txs (example_tx 1 21000 0) (example_tx 2 50000 0)) 5 30000 = (b, m') \<and>
    b = greedy_prefix 5 (unat (30000 :: u64)) 0 xs"
proof -
  let ?m = "two_txs (example_tx 1 21000 0) (example_tx 2 50000 0)"
  obtain b m' where pop: "mp_PopBatch ?m 5 30000 = (b, m')" by (cases "mp_PopBatch ?m 5 30000")
  have fits: "gas_fits 30000 (mp_pending ?m)"
    by (simp add: two_txs_def mp_Add_def gas_fits_def meta_gas_def example_tx_def)
  show ?thesis
    using mempool_pop_batch_greedy [OF _ two_txs_reach fits pop] pop by (auto simp: example_tx_def)
qed

text \<open>The gas test of \<open>PopBatch\<close> is a wrapping sum: a transaction that declares
  \<open>2^64 - 21000\<close> gas passes it behind one of \<open>21000\<close>, and the batch exceeds the limit.\<close>

theorem mempool_pop_batch_overflow:
  "\<exists>m b m'. mp_reach (Fin (1 / 2)) 10 m \<and> mp_PopBatch m 5 30000000 = (b, m') \<and>
    30000000 < sum_list (map meta_gas b)"
proof -
  let ?t1 = "example_tx 1 21000 0" and ?t2 = "example_tx 2 (- 21000) 0"
  let ?m = "two_txs ?t1 ?t2"
  have ne: "tx_Hash ?t1 \<noteq> tx_Hash ?t2" by (simp add: example_tx_def)
  have "mp_PopBatch ?m 5 30000000 = ([two_meta ?t1 1, two_meta ?t2 2], snd (mp_PopBatch ?m 5 30000000))"
    by (rule two_txs_pop_batch [OF ne]) (simp_all add: example_tx_def)
  moreover have "30000000 < sum_list (map meta_gas [two_meta ?t1 1, two_meta ?t2 2])"
    by (simp add: two_meta_def meta_gas_def example_tx_def)
  ultimately show ?thesis using two_txs_reach [OF ne] by blast
qed

text \<open>\<open>Add\<close> rejects a known hash, and then a full pool; otherwise it adds exactly the new
  transaction, with its metadata.\<close>

theorem mempool_add_behaviour:
  assumes "unit_f64 w" and "mp_reach w n m" and "is_finite c"
  shows "(if mp_Has m (tx_Hash t) then mp_Add m t s c now = Inl ErrAlreadyKnown
     else if n \<le> mp_Len m then mp_Add m t s c now = Inl ErrMempoolFull
     else \<exists>m'. mp_Add m t s c now = Inr m' \<and> mp_Has m' (tx_Hash t) \<and>
       mset (mp_Pending m') = add_mset (new_meta w t s c now) (mset (mp_Pending m)))"
proof -
  have inv: "mp_inv m" "mp_maxSize m = n" "mp_tasteScoreWeight m = w"
    using mp_reach_inv [OF assms(1,2)] by auto
  show ?thesis
  proof (cases "mp_Has m (tx_Hash t) \<or> n \<le> mp_Len m")
    case True
    then show ?thesis using mp.add_known mp.add_full inv(2) by auto
  next
    case False
    then obtain m' where m': "mp_Add m t s c now = Inr m'" "mp_inv m'"
        "mset (mp_Pending m') = add_mset (new_meta w t s c now) (mset (mp_Pending m))"
      using mp.add_ok [OF inv(1) assms(3), of t s now] inv(2,3) by auto
    moreover have "mp_Has m' (tx_Hash t)"
      using m'(1) False by (auto simp: mp_Add_def mp_Has_def split: if_splits)
    ultimately show ?thesis using False by auto
  qed
qed

lemma mempool_add_behaviour_witness:
  "\<exists>m'. mp_Add (two_txs (example_tx 1 21000 0) (example_tx 2 21000 0)) (example_tx 3 21000 0)
      zero_address (Fin 1) 3 = Inr m' \<and> mp_Has m' (replicate 32 3)"
proof -
  let ?m = "two_txs (example_tx 1 21000 0) (example_tx 2 21000 0)"
  have "mp_reach (Fin (1 / 2)) 10 ?m" by (rule two_txs_reach) (simp add: example_tx_def)
  moreover have "\<not> mp_Has ?m (tx_Hash (example_tx 3 21000 0))" "mp_Len ?m < 10"
    by (simp_all add: two_txs_def mp_Add_def mp_Has_def mp_Len_def example_tx_def)
  ultimately show ?thesis
    using mempool_add_behaviour [of "Fin (1 / 2)" 10 ?m "Fin 1" "example_tx 3 21000 0" zero_address 3]
    by (auto simp: example_tx_def)
qed

end
