(* ===== verification/Producer.thy ===== *)
theory Producer
  imports Mempool Lanes Adaptive Fees Receipts State_Manager Metrics
begin

section \<open>The block producer: internal/producer/producer.go\<close>

text \<open>
  One tick of the producer: drain the pool, execute and commit a block, return what was skipped,
  adjust the fee and the block size, issue a compute receipt per transaction. The pool is the
  interface \<open>TxPool\<close>: a record of its operations, given by either pool. The ticker and the logger are
  left out; \<open>now\<close> is the clock in nanoseconds, one reading for a tick.
\<close>

record ('p, 'd) producer =
  pd_MaxTxPerBlock :: int
  pd_MaxBlockGas :: u64
  pd_mempool :: 'p
  pd_state :: "'d manager"
  pd_feeModel :: fee_model
  pd_sizer :: "sizer option"
  pd_receiptStore :: "receipt_store option"
  pd_metrics :: "metrics option"

definition pd_New :: "int \<Rightarrow> u64 \<Rightarrow> 'p \<Rightarrow> 'd manager \<Rightarrow> fee_model \<Rightarrow> ('p, 'd) producer" where
  "pd_New maxTx maxGas mp sm fm = \<lparr>pd_MaxTxPerBlock = maxTx, pd_MaxBlockGas = maxGas, pd_mempool = mp,
     pd_state = sm, pd_feeModel = fm, pd_sizer = None, pd_receiptStore = None, pd_metrics = None\<rparr>"

definition SetAdaptiveSizer :: "('p, 'd) producer \<Rightarrow> sizer \<Rightarrow> ('p, 'd) producer" where
  "SetAdaptiveSizer p s = p\<lparr>pd_sizer := Some s\<rparr>"

definition SetReceiptStore :: "('p, 'd) producer \<Rightarrow> receipt_store \<Rightarrow> ('p, 'd) producer" where
  "SetReceiptStore p rs = p\<lparr>pd_receiptStore := Some rs\<rparr>"

definition pd_SetMetrics :: "('p, 'd) producer \<Rightarrow> metrics \<Rightarrow> ('p, 'd) producer" where
  "pd_SetMetrics p m = p\<lparr>pd_metrics := Some m\<rparr>"

text \<open>The limits of the next block.\<close>

definition block_limits :: "('p, 'd) producer \<Rightarrow> int \<times> u64" where
  "block_limits p = (case pd_sizer p of
     None \<Rightarrow> (pd_MaxTxPerBlock p, pd_MaxBlockGas p)
   | Some s \<Rightarrow> (sz_CurrentMaxTx s, sz_CurrentGasLimit s))"

text \<open>What is added again: everything after a failure; after a success, each skipped transaction with
  the metadata of the first drained one that has its hash.\<close>

definition return_all :: "tx list \<Rightarrow> (tx \<times> address \<times> f64) list" where
  "return_all txs = map (\<lambda>t. (t, zero_address, Fin 0)) txs"

definition return_skipped :: "tx_meta list \<Rightarrow> tx list \<Rightarrow> (tx \<times> address \<times> f64) list" where
  "return_skipped metas skipped = concat (map (\<lambda>t. case find (\<lambda>m. tx_Hash (Tx m) = tx_Hash t) metas of
     None \<Rightarrow> [] | Some m \<Rightarrow> [(t, Sender m, TasteScore m)]) skipped)"

text \<open>The counters after a block.\<close>

definition block_metrics :: "'p pool_ops \<Rightarrow> u64 \<Rightarrow> l2_block \<Rightarrow> u64 \<Rightarrow> int \<Rightarrow> 'p \<Rightarrow> fee_model \<Rightarrow> sizer option \<Rightarrow>
    metrics \<Rightarrow> metrics" where
  "block_metrics P blockNum block gasLimit now pool fm sz mt =
     (let m1 = mt\<lparr>BlockHeight := blockNum, BlocksProduced := BlocksProduced mt + 1,
            TxProcessed := TxProcessed mt + word_of_int (hd_TxCount (bk_Header block)),
            GasUsedTotal := GasUsedTotal mt + hd_GasUsed (bk_Header block),
            GasLimitTotal := GasLimitTotal mt + gasLimit, LastBlockTime := now div 1000000,
            MempoolSize := tp_Len P pool, BaseFeeGwei := wrap_int (fm_BaseFee fm div 1000000)\<rparr>;
          m2 = (case tp_LaneSizes P pool of None \<Rightarrow> m1
            | Some (fast, std, slow) \<Rightarrow> m1\<lparr>LaneFastCount := fast, LaneStdCount := std, LaneSlowCount := slow\<rparr>)
      in (case sz of None \<Rightarrow> m2
          | Some s \<Rightarrow> (case sz_Stats s of (gl, mtx, util) \<Rightarrow> m2\<lparr>AdaptiveGasLimit := gl, AdaptiveMaxTx := mtx,
              AdaptiveUtilization := f64_to_int (fmul util (Fin 10000))\<rparr>)))"

text \<open>The receipts of a block, in order; a receipt without a transaction at its index is a panic.\<close>

fun store_receipts :: "('d, 's) libs \<Rightarrow> l2_block \<Rightarrow> u64 \<Rightarrow> hash \<Rightarrow> int \<Rightarrow> nat \<Rightarrow> receipt list \<Rightarrow> receipt_store \<Rightarrow>
    receipt_store option" where
  "store_receipts B block blockNum pre now i [] rs = Some rs"
| "store_receipts B block blockNum pre now i (rc # rcs) rs =
     (if i < length (bk_Transactions block) then
        (let t = bk_Transactions block ! i;
             sender = (case ev_Sender (lb_L B) t of None \<Rightarrow> zero_address | Some a \<Rightarrow> a);
             cr = CreateReceipt (lb_g B) t rc blockNum (int i) sender pre (hd_StateRoot (bk_Header block)) [] now
         in store_receipts B block blockNum pre now (Suc i) rcs (rs_Store rs cr))
      else None)"

text \<open>\<open>None\<close> is a panic.\<close>

definition produceBlock :: "('d, 's) libs \<Rightarrow> 'p pool_ops \<Rightarrow> ('p, 'd) producer \<Rightarrow> int \<Rightarrow> ('p, 'd) producer option" where
  "produceBlock B P p now =
     (case block_limits p of (maxTx, gasLimit) \<Rightarrow>
      (case tp_PopBatch P (pd_mempool p) maxTx gasLimit of (txMetas, pool1) \<Rightarrow>
        (let blockNum = mg_CurrentBlock (pd_state p) + 1;
             timestamp = word_of_int (now div 1000000000);
             parentHash = mg_GetBlockHash B (pd_state p) (blockNum - 1);
             baseFee = fm_BaseFee (pd_feeModel p);
             preStateRoot = GetLatestStateRoot (pd_state p);
             txs = map Tx txMetas
         in (case ExecuteAndCommitBlock B (pd_state p) txs blockNum timestamp parentHash baseFee of
               (sm, skipped, Inl e) \<Rightarrow>
                 Some (p\<lparr>pd_state := sm, pd_mempool := add_all (tp_Add P) now (return_all txs) pool1\<rparr>)
             | (sm, skipped, Inr block) \<Rightarrow>
                 (let pool2 = add_all (tp_Add P) now (return_skipped txMetas skipped) pool1;
                      fm = fm_AdjustAfterBlock (pd_feeModel p) (hd_GasUsed (bk_Header block)) gasLimit;
                      sz = map_option (\<lambda>s. sz_AdjustAfterBlock s (hd_GasUsed (bk_Header block)) gasLimit) (pd_sizer p);
                      mt = map_option (block_metrics P blockNum block gasLimit now pool2 fm sz) (pd_metrics p);
                      p' = p\<lparr>pd_state := sm, pd_mempool := pool2, pd_feeModel := fm, pd_sizer := sz, pd_metrics := mt\<rparr>
                  in (case pd_receiptStore p of
                        None \<Rightarrow> Some p'
                      | Some rs \<Rightarrow> (if bk_Transactions block = [] then Some p'
                          else (case store_receipts B block blockNum preStateRoot now 0 (bk_Receipts block) rs of
                              None \<Rightarrow> None
                            | Some rs' \<Rightarrow> Some (p'\<lparr>pd_receiptStore := Some rs',
                                pd_metrics := map_option (\<lambda>m. m\<lparr>
                                  ReceiptsGenerated := ReceiptsGenerated m + of_nat (length (bk_Receipts block)),
                                  ReceiptsStored := of_nat (rs_Len rs')\<rparr>) mt\<rparr>)))))))))"

subsection \<open>What a tick does to the pool\<close>

lemma select_map: "select marks (map f xs) = map f (select marks xs)"
  by (induction marks xs rule: select.induct) auto

lemma select_split:
  "length marks = length xs \<Longrightarrow> mset xs = mset (select marks xs) + mset (select (map Not marks) xs)"
  by (induction marks xs rule: select.induct) auto

lemma find_by_key: "distinct (map f xs) \<Longrightarrow> x \<in> set xs \<Longrightarrow> find (\<lambda>y. f y = f x) xs = Some x"
  by (induction xs) auto

lemma return_skipped_drained:
  assumes "distinct (map meta_hash b)" and "set ms \<subseteq> set b"
  shows "return_skipped b (map Tx ms) = map (\<lambda>m. (Tx m, Sender m, TasteScore m)) ms"
  using assms(2)
proof (induction ms)
  case (Cons m ms)
  have "find (\<lambda>y. tx_Hash (Tx y) = tx_Hash (Tx m)) b = Some m"
    using find_by_key [OF assms(1), of m] Cons.prems by (simp add: meta_hash_def)
  then show ?case using Cons by (simp add: return_skipped_def)
qed (simp add: return_skipped_def)

lemma store_receipts_total:
  "i + length rcs \<le> length (bk_Transactions block) \<Longrightarrow>
   store_receipts B block n pre now i rcs rs \<noteq> None"
  by (induction rcs arbitrary: i rs) (simp_all add: Let_def)

text \<open>The two outcomes of a tick, apart from the receipts and counters.\<close>

lemma produceBlock_failed:
  assumes "block_limits p = (k, g)" and "tp_PopBatch P (pd_mempool p) k g = (metas, pool1)"
    and "ExecuteAndCommitBlock B (pd_state p) (map Tx metas) (mg_currentBlock (pd_state p) + 1)
      (word_of_int (now div 1000000000)) (mg_GetBlockHash B (pd_state p) (mg_currentBlock (pd_state p)))
      (fm_BaseFee (pd_feeModel p)) = (sm, skipped, Inl e)"
  shows "produceBlock B P p now = Some (p\<lparr>pd_state := sm,
    pd_mempool := add_all (tp_Add P) now (return_all (map Tx metas)) pool1\<rparr>)"
  using assms by (simp add: produceBlock_def Let_def mg_CurrentBlock_def)

lemma produceBlock_committed:
  assumes "block_limits p = (k, g)" and "tp_PopBatch P (pd_mempool p) k g = (metas, pool1)"
    and "ExecuteAndCommitBlock B (pd_state p) (map Tx metas) (mg_currentBlock (pd_state p) + 1)
      (word_of_int (now div 1000000000)) (mg_GetBlockHash B (pd_state p) (mg_currentBlock (pd_state p)))
      (fm_BaseFee (pd_feeModel p)) = (sm, skipped, Inr block)"
    and "length (bk_Receipts block) = length (bk_Transactions block)"
  shows "\<exists>p'. produceBlock B P p now = Some p' \<and> pd_state p' = sm \<and>
    pd_mempool p' = add_all (tp_Add P) now (return_skipped metas skipped) pool1 \<and>
    pd_feeModel p' = fm_AdjustAfterBlock (pd_feeModel p) (hd_GasUsed (bk_Header block)) g \<and>
    pd_sizer p' = map_option (\<lambda>s. sz_AdjustAfterBlock s (hd_GasUsed (bk_Header block)) g) (pd_sizer p) \<and>
    pd_receiptStore p' = (case pd_receiptStore p of None \<Rightarrow> None
      | Some rs \<Rightarrow> store_receipts B block (mg_currentBlock (pd_state p) + 1) (mg_stateRoot (pd_state p)) now 0
          (bk_Receipts block) rs)"
proof (cases "pd_receiptStore p")
  case None
  then show ?thesis using assms by (simp add: produceBlock_def Let_def mg_CurrentBlock_def GetLatestStateRoot_def)
next
  case (Some rs)
  obtain rs' where rs': "store_receipts B block (mg_currentBlock (pd_state p) + 1) (mg_stateRoot (pd_state p)) now 0
      (bk_Receipts block) rs = Some rs'"
    using store_receipts_total [of 0 "bk_Receipts block" block] assms(4) by fastforce
  show ?thesis
  proof (cases "bk_Transactions block = []")
    case True
    then show ?thesis
      using assms Some rs' by (simp add: produceBlock_def Let_def mg_CurrentBlock_def GetLatestStateRoot_def)
  next
    case False
    then show ?thesis
      using assms Some rs' by (simp add: produceBlock_def Let_def mg_CurrentBlock_def GetLatestStateRoot_def)
  qed
qed

text \<open>What the pending transactions are assumed to be: finite scores, and gas that does not wrap.\<close>

definition pending_ok :: "tx_meta list \<Rightarrow> bool" where
  "pending_ok ms \<longleftrightarrow> (\<forall>m \<in> set ms. is_finite (TasteScore m) \<and> length (meta_hash m) = 32 \<and>
     unat (tx_Gas (Tx m)) + 30000000 < 2 ^ 64)"

lemma pending_ok_union: "mset xs = mset ys + mset zs \<Longrightarrow> pending_ok ys \<Longrightarrow> pending_ok zs \<Longrightarrow> pending_ok xs"
  unfolding pending_ok_def by (metis Un_iff set_mset_mset set_mset_union)

lemma pending_ok_part: "pending_ok xs \<Longrightarrow> mset xs = mset ys + mset zs \<Longrightarrow> pending_ok zs"
  unfolding pending_ok_def by (metis Un_iff set_mset_mset set_mset_union)

lemma pending_ok_new:
  "pending_ok ms \<Longrightarrow> \<forall>m \<in> set ms. is_finite (score m) \<Longrightarrow>
   pending_ok (map (\<lambda>m. new_meta w (Tx m) (sender m) (score m) now) ms)"
  by (auto simp: pending_ok_def meta_hash_def)

text \<open>A block of the chain can be read, and its transactions can be encoded again.\<close>

definition stored_block :: "('d, 's) libs \<Rightarrow> 'd manager \<Rightarrow> u64 \<Rightarrow> bool" where
  "stored_block B m n \<longleftrightarrow> (case mg_GetBlock B m n of None \<Rightarrow> False
     | Some b \<Rightarrow> (\<forall>t \<in> set (bk_Transactions b). enc_tx (lb_C B) t \<noteq> None))"

text \<open>What else a tick keeps: the capacity, the condition on the pending transactions, every block but the
  one it makes, which is stored; fees and sizing are as they were or adjusted once.\<close>

definition tick_keeps :: "('d, 's) libs \<Rightarrow> ('p \<Rightarrow> tx_meta list) \<Rightarrow> ('p \<Rightarrow> int) \<Rightarrow> ('p, 'd) producer \<Rightarrow> ('p, 'd) producer \<Rightarrow> bool" where
  "tick_keeps B pending capacity p p' \<longleftrightarrow>
     capacity (pd_mempool p') = capacity (pd_mempool p) \<and> pending_ok (pending (pd_mempool p')) \<and>
     (\<forall>i. i \<noteq> mg_currentBlock (pd_state p) + 1 \<longrightarrow> mg_GetBlock B (pd_state p') i = mg_GetBlock B (pd_state p) i) \<and>
     (mg_currentBlock (pd_state p') \<noteq> mg_currentBlock (pd_state p) \<longrightarrow>
        stored_block B (pd_state p') (mg_currentBlock (pd_state p) + 1)) \<and>
     (pd_feeModel p' = pd_feeModel p \<and> pd_sizer p' = pd_sizer p \<or>
      (\<exists>u l. pd_feeModel p' = fm_AdjustAfterBlock (pd_feeModel p) u l \<and>
         pd_sizer p' = map_option (\<lambda>s. sz_AdjustAfterBlock s u l) (pd_sizer p)))"

text \<open>The specification of a tick, for any pool that keeps the laws of the interface.\<close>

definition tick_spec :: "('d, 's) libs \<Rightarrow> ('p \<Rightarrow> tx_meta list) \<Rightarrow> ('p, 'd) producer \<Rightarrow> ('p, 'd) producer \<Rightarrow> bool" where
  "tick_spec B pending p p' \<longleftrightarrow>
     (\<exists>b. mg_GetBlock B (pd_state p') (mg_currentBlock (pd_state p) + 1) = Some b \<and>
        mg_currentBlock (pd_state p') = mg_currentBlock (pd_state p) + 1 \<and>
        mset (map meta_hash (pending (pd_mempool p)))
          = mset (map tx_Hash (bk_Transactions b)) + mset (map meta_hash (pending (pd_mempool p')))) \<or>
     (mg_currentBlock (pd_state p') = mg_currentBlock (pd_state p) \<and>
        mg_stateRoot (pd_state p') = mg_stateRoot (pd_state p) \<and>
        mset (map Tx (pending (pd_mempool p'))) = mset (map Tx (pending (pd_mempool p))))"

context tx_pool
begin

lemma drained_txs_ok:
  assumes "inv p" and "pop_batch p k g = (b, p')" and "pending_ok (pending p)"
  shows "txs_ok (map Tx b)" and "distinct (map meta_hash b)" and "set b \<subseteq> set (pending p)"
proof -
  have part: "mset (pending p) = mset b + mset (pending p')" using pop_partition [OF assms(1,2)] by simp
  show d: "distinct (map meta_hash b)" using hashes_split(2) [OF part hashes_distinct [OF assms(1)]] .
  show sub: "set b \<subseteq> set (pending p)"
    using hashes_split(4) [OF part hashes_distinct [OF assms(1)]] by simp
  have "map tx_Hash (map Tx b) = map meta_hash b" by (simp add: meta_hash_def)
  then show "txs_ok (map Tx b)"
    using d sub assms(3) unfolding txs_ok_def pending_ok_def by (auto simp: meta_hash_def [abs_def] comp_def)
qed

lemma return_skipped_pool:
  assumes p: "inv p" and room: "pool_len p \<le> capacity p" and pop: "pop_batch p k g = (b, p')"
    and ok: "pending_ok (pending p)" and marks: "length marks = length b"
  shows "inv (add_all add now (return_skipped b (map Tx (select (map Not marks) b))) p') \<and>
    capacity (add_all add now (return_skipped b (map Tx (select (map Not marks) b))) p') = capacity p \<and>
    pending_ok (pending (add_all add now (return_skipped b (map Tx (select (map Not marks) b))) p')) \<and>
    mset (map meta_hash (pending p)) = mset (map meta_hash (select marks b)) +
      mset (map meta_hash (pending (add_all add now (return_skipped b (map Tx (select (map Not marks) b))) p')))"
proof -
  let ?ms = "select (map Not marks) b"
  let ?ts = "map (\<lambda>m. (Tx m, Sender m, TasteScore m)) ?ms"
  have part: "inv p'" "capacity p' = capacity p" "mset (pending p) = mset b + mset (pending p')"
    using pop_partition [OF p pop] by auto
  note d = drained_txs_ok [OF p pop ok]
  have ret: "return_skipped b (map Tx ?ms) = ?ts"
    by (rule return_skipped_drained [OF d(2) select_subset])
  have len: "pool_len p = pool_len p' + int (length b)"
    using mset_eq_length [of "pending p" "b @ pending p'"] part(3) len_eq [OF p] len_eq [OF part(1)] by simp
  have split: "mset b = mset (select marks b) + mset ?ms" by (rule select_split [OF marks])
  then have "length ?ms \<le> length b" by (metis add.commute le_add1 size_mset size_union)
  have "inv (add_all add now ?ts p') \<and> capacity (add_all add now ?ts p') = capacity p' \<and>
      weight (add_all add now ?ts p') = weight p' \<and> mset (pending (add_all add now ?ts p'))
      = mset (map (\<lambda>(t, s, c). new_meta (weight p') t s c now) ?ts) + mset (pending p')"
  proof (rule add_all_new [OF part(1)])
    show "\<forall>(t, s, c) \<in> set ?ts. is_finite c"
      using ok d(3) select_subset [of "map Not marks" b] by (auto simp: pending_ok_def)
    show "distinct (map (\<lambda>(t, s, c). tx_Hash t) ?ts)"
      using distinct_select [OF d(2), of "map Not marks"] by (simp add: comp_def meta_hash_def [abs_def])
    show "\<forall>(t, s, c) \<in> set ?ts. \<not> has p' (tx_Hash t)"
      using popped_not_known [OF p pop] select_subset [of "map Not marks" b] by (auto simp: meta_hash_def)
    show "pool_len p' + int (length ?ts) \<le> capacity p'"
      using len room part(2) \<open>length ?ms \<le> length b\<close> by simp
  qed
  note r = this
  have "pending_ok (pending (add_all add now ?ts p'))"
  proof (rule pending_ok_union)
    show "mset (pending (add_all add now ?ts p')) =
        mset (map (\<lambda>m. new_meta (weight p') (Tx m) (Sender m) (TasteScore m) now) ?ms) + mset (pending p')"
      using r by (simp add: comp_def)
    show "pending_ok (map (\<lambda>m. new_meta (weight p') (Tx m) (Sender m) (TasteScore m) now) ?ms)"
      using ok d(3) select_subset [of "map Not marks" b] by (intro pending_ok_new) (auto simp: pending_ok_def)
    show "pending_ok (pending p')"
      using ok part(3) by (rule pending_ok_part)
  qed
  then show ?thesis
    unfolding ret using part(2,3) split r
    by (simp add: comp_def image_mset.compositionality meta_hash_def [abs_def])
qed

text \<open>A tick whose block fails, and one whose block is committed.\<close>

lemma tick_failed:
  assumes ops: "tp_Add P = add" "tp_PopBatch P = pop_batch" and laws: "libs_laws B"
    and p: "inv (pd_mempool p)" and room: "pool_len (pd_mempool p) \<le> capacity (pd_mempool p)"
    and ok: "pending_ok (pending (pd_mempool p))"
    and lim: "block_limits p = (k, g)" and pop: "pop_batch (pd_mempool p) k g = (b, q)"
    and ex: "ExecuteAndCommitBlock B (pd_state p) (map Tx b) (mg_currentBlock (pd_state p) + 1)
      (word_of_int (now div 1000000000)) (mg_GetBlockHash B (pd_state p) (mg_currentBlock (pd_state p)))
      (fm_BaseFee (pd_feeModel p)) = (sm, skipped, Inl e)"
  shows "\<exists>p'. produceBlock B P p now = Some p' \<and> inv (pd_mempool p') \<and> tick_spec B pending p p' \<and>
    tick_keeps B pending capacity p p'"
proof -
  note tok = drained_txs_ok [OF p pop ok]
  let ?q = "add_all add now (map (\<lambda>m. (Tx m, zero_address, Fin 0)) b) q"
  have all: "return_all (map Tx b) = map (\<lambda>m. (Tx m, zero_address, Fin 0)) b" by (simp add: return_all_def)
  have part: "mset (pending (pd_mempool p)) = mset b + mset (pending q)" using pop_partition [OF p pop] by simp
  have fin: "\<forall>m \<in> set b. is_finite (Fin 0)" by simp
  note rb = return_batch [where score = "\<lambda>m. Fin 0" and sender = "\<lambda>m. zero_address" and now = now, OF p room pop fin]
  have okb: "pending_ok b" using ok tok(3) by (auto simp: pending_ok_def)
  have mq: "mset (pending ?q) = mset (map (\<lambda>m. new_meta (weight (pd_mempool p)) (Tx m) zero_address (Fin 0) now) b) +
      mset (pending q)" using rb by simp
  have "pending_ok (pending ?q)"
    by (rule pending_ok_union [OF mq pending_ok_new [OF okb] pending_ok_part [OF ok part]]) simp
  moreover have "mg_GetBlock B sm i = mg_GetBlock B (pd_state p) i" for i
  proof -
    have tl: "trie_laws (lb_E B) (lb_T B)" using laws by (simp add: libs_laws_def)
    have "\<forall>k. key_ok k \<longrightarrow> ed_Get (lb_E B) (cdb_db (mg_chainDB sm)) (key_bytes k)
        = ed_Get (lb_E B) (cdb_db (mg_chainDB (pd_state p))) (key_bytes k)"
      using Execute_failed [OF tl ex] by blast
    from this [rule_format, of "KBlock i"] show ?thesis by (simp add: mg_GetBlock_def cdb_ReadBlock_def)
  qed
  moreover have "inv ?q \<and> image_mset Tx (mset (pending ?q)) = image_mset Tx (mset (pending (pd_mempool p))) \<and>
      capacity ?q = capacity (pd_mempool p)"
    using rb by blast
  moreover have "mg_currentBlock sm = mg_currentBlock (pd_state p) \<and> mg_stateRoot sm = mg_stateRoot (pd_state p)"
    using Execute_failed [OF _ ex] laws by (simp add: libs_laws_def)
  ultimately show ?thesis
    using produceBlock_failed [OF lim _ ex] pop by (auto simp: ops all tick_spec_def tick_keeps_def)
qed

lemma tick_committed:
  assumes ops: "tp_Add P = add" "tp_PopBatch P = pop_batch" and laws: "libs_laws B"
    and p: "inv (pd_mempool p)" and room: "pool_len (pd_mempool p) \<le> capacity (pd_mempool p)"
    and ok: "pending_ok (pending (pd_mempool p))"
    and lim: "block_limits p = (k, g)" and pop: "pop_batch (pd_mempool p) k g = (b, q)"
    and ex: "ExecuteAndCommitBlock B (pd_state p) (map Tx b) (mg_currentBlock (pd_state p) + 1)
      (word_of_int (now div 1000000000)) (mg_GetBlockHash B (pd_state p) (mg_currentBlock (pd_state p)))
      (fm_BaseFee (pd_feeModel p)) = (sm, skipped, Inr block)"
  shows "\<exists>p'. produceBlock B P p now = Some p' \<and> inv (pd_mempool p') \<and> tick_spec B pending p p' \<and>
    tick_keeps B pending capacity p p'"
proof -
  note tok = drained_txs_ok [OF p pop ok]
  obtain marks where k: "length marks = length (map Tx b)"
    "map tx_Hash (bk_Transactions block) = map tx_Hash (select marks (map Tx b))"
    "skipped = select (map Not marks) (map Tx b)"
    "map rc_TxHash (bk_Receipts block) = map tx_Hash (bk_Transactions block)"
    by (rule committed_block [OF laws tok(1) ex])
  have len: "length (bk_Receipts block) = length (bk_Transactions block)" using k(4) by (metis length_map)
  obtain disk' where w: "written (lb_E B) (lb_C B) block ((mg_chainDB (pd_state p))\<lparr>cdb_db := disk'\<rparr>) (mg_chainDB sm)"
    and keep: "\<forall>k. key_ok k \<longrightarrow> ed_Get (lb_E B) disk' (key_bytes k)
      = ed_Get (lb_E B) (cdb_db (mg_chainDB (pd_state p))) (key_bytes k)"
    and tip: "mg_currentBlock sm = hd_Number (bk_Header block)"
    by (rule committed_written [OF laws tok(1) ex])
  have num: "hd_Number (bk_Header block) = mg_currentBlock (pd_state p) + 1"
    by (rule Execute_ok [OF ex]) simp
  have get: "mg_GetBlock B sm (mg_currentBlock (pd_state p) + 1) = Some block"
    using ReadBlock_written [OF w] num by (simp add: mg_GetBlock_def)
  have sk: "skipped = map Tx (select (map Not marks) b)" by (simp add: k(3) select_map)
  let ?q = "add_all add now (return_skipped b (map Tx (select (map Not marks) b))) q"
  have old: "mg_GetBlock B sm i = mg_GetBlock B (pd_state p) i" if "i \<noteq> mg_currentBlock (pd_state p) + 1" for i
    using ReadBlock_other [OF w, of i] keep [rule_format, of "KBlock i"] that num
    by (simp add: mg_GetBlock_def cdb_ReadBlock_def)
  have pool: "inv ?q \<and> capacity ?q = capacity (pd_mempool p) \<and> pending_ok (pending ?q) \<and> mset (map meta_hash (pending (pd_mempool p)))
      = mset (map meta_hash (select marks b)) + mset (map meta_hash (pending ?q))"
    using k(1) by (intro return_skipped_pool [OF p room pop ok]) simp
  have hs: "map tx_Hash (bk_Transactions block) = map meta_hash (select marks b)"
    using k(2) by (simp add: select_map meta_hash_def [abs_def] comp_def)
  have pop': "tp_PopBatch P (pd_mempool p) k g = (b, q)" using pop by (simp add: ops)
  obtain p' where p': "produceBlock B P p now = Some p'" "pd_state p' = sm" "pd_mempool p' = ?q"
    "pd_feeModel p' = fm_AdjustAfterBlock (pd_feeModel p) (hd_GasUsed (bk_Header block)) g"
    "pd_sizer p' = map_option (\<lambda>s. sz_AdjustAfterBlock s (hd_GasUsed (bk_Header block)) g) (pd_sizer p)"
    using produceBlock_committed [OF lim pop' ex len] unfolding ops sk by blast
  have st: "stored_block B sm (mg_currentBlock (pd_state p) + 1)"
    using get written_encodes [OF w] by (auto simp: stored_block_def)
  have "tick_spec B pending p p'"
    unfolding tick_spec_def p'(2,3)
    using get tip num pool hs by (intro disjI1 exI [of _ block]) simp
  moreover have "tick_keeps B pending capacity p p'"
    unfolding tick_keeps_def p'(2,3)
    by (intro conjI disjI2 exI [of _ "hd_GasUsed (bk_Header block)"] exI [of _ g]) (use p'(4,5) pool old st in simp_all)
  ultimately show ?thesis using p' pool by auto
qed

lemma tick_full:
  assumes ops: "tp_Add P = add" "tp_PopBatch P = pop_batch" and laws: "libs_laws B"
    and p: "inv (pd_mempool p)" and room: "pool_len (pd_mempool p) \<le> capacity (pd_mempool p)"
    and ok: "pending_ok (pending (pd_mempool p))"
  shows "\<exists>p'. produceBlock B P p now = Some p' \<and> inv (pd_mempool p') \<and> tick_spec B pending p p' \<and>
    tick_keeps B pending capacity p p'"
proof -
  obtain k g where lim: "block_limits p = (k, g)" by fastforce
  obtain b q where pop: "pop_batch (pd_mempool p) k g = (b, q)" by fastforce
  obtain sm skipped r where ex: "ExecuteAndCommitBlock B (pd_state p) (map Tx b) (mg_currentBlock (pd_state p) + 1)
      (word_of_int (now div 1000000000)) (mg_GetBlockHash B (pd_state p) (mg_currentBlock (pd_state p)))
      (fm_BaseFee (pd_feeModel p)) = (sm, skipped, r)"
    by (metis prod_cases3)
  show ?thesis
    using tick_failed [OF assms lim pop] tick_committed [OF assms lim pop] ex by (cases r) auto
qed

lemma tick_ok:
  assumes "tp_Add P = add" "tp_PopBatch P = pop_batch" and "libs_laws B"
    and "inv (pd_mempool p)" and "pool_len (pd_mempool p) \<le> capacity (pd_mempool p)"
    and "pending_ok (pending (pd_mempool p))"
  shows "\<exists>p'. produceBlock B P p now = Some p' \<and> inv (pd_mempool p') \<and> tick_spec B pending p p'"
  using tick_full [OF assms, of now] by blast

end

subsection \<open>The compute receipts of a block\<close>

definition block_receipts :: "('d, 's) libs \<Rightarrow> l2_block \<Rightarrow> u64 \<Rightarrow> hash \<Rightarrow> int \<Rightarrow> compute_receipt list" where
  "block_receipts B block n pre now = map (\<lambda>(i, rc). CreateReceipt (lb_g B) (bk_Transactions block ! i) rc n (int i)
     (case ev_Sender (lb_L B) (bk_Transactions block ! i) of None \<Rightarrow> zero_address | Some a \<Rightarrow> a)
     pre (hd_StateRoot (bk_Header block)) [] now) (enumerate 0 (bk_Receipts block))"

lemma store_receipts_fold:
  assumes "i + length rcs \<le> length (bk_Transactions block)"
  shows "store_receipts B block n pre now i rcs rs = Some (fold (\<lambda>cr s. rs_Store s cr)
    (map (\<lambda>(i, rc). CreateReceipt (lb_g B) (bk_Transactions block ! i) rc n (int i)
      (case ev_Sender (lb_L B) (bk_Transactions block ! i) of None \<Rightarrow> zero_address | Some a \<Rightarrow> a)
      pre (hd_StateRoot (bk_Header block)) [] now) (enumerate i rcs)) rs)"
  using assms by (induction rcs arbitrary: i rs) (simp_all add: Let_def)

lemma fold_store_byBlock:
  "\<forall>r \<in> set rs. cr_BlockNumber r = n \<Longrightarrow>
   rs_GetByBlock (fold (\<lambda>cr s. rs_Store s cr) rs st) n = rs_GetByBlock st n @ rs"
  by (induction rs arbitrary: st) (simp_all add: rs_Store_def rs_GetByBlock_def)

lemma CreateReceipt_fields [simp]:
  "cr_TxHash (CreateReceipt g t rc n i s pre post rd now) = tx_Hash t"
  "cr_BlockNumber (CreateReceipt g t rc n i s pre post rd now) = n"
  "cr_TxIndex (CreateReceipt g t rc n i s pre post rd now) = i"
  "cr_PreStateRoot (CreateReceipt g t rc n i s pre post rd now) = pre"
  "cr_PostStateRoot (CreateReceipt g t rc n i s pre post rd now) = post"
  "cr_GasUsed (CreateReceipt g t rc n i s pre post rd now) = rc_GasUsed rc"
  "cr_Verify g (CreateReceipt g t rc n i s pre post rd now)"
  by (simp_all add: CreateReceipt_def Let_def cr_Verify_def cr_computeHash_def receipt_preimage_def)

subsection \<open>An example\<close>

definition example_producer :: "(laned, (bytes \<rightharpoonup> bytes)) producer" where
  "example_producer = SetReceiptStore (pd_New 1 30000000
     (lm_pair (example_tx 1 21000 0) (example_tx 2 21000 0)) example_manager NewDynamicFeeModel) NewReceiptStore"

lemma example_producer_fields [simp]:
  "pd_mempool example_producer = lm_pair (example_tx 1 21000 0) (example_tx 2 21000 0)"
  "pd_state example_producer = example_manager" "block_limits example_producer = (1, 30000000)"
  "pd_receiptStore example_producer = Some NewReceiptStore"
  by (simp_all add: example_producer_def SetReceiptStore_def pd_New_def block_limits_def)

lemma example_pool: "lm_inv (lm_pair (example_tx 1 21000 0) (example_tx 2 21000 0))"
  and example_pending: "pending_ok (lm_Pending (lm_pair (example_tx 1 21000 0) (example_tx 2 21000 0)))"
proof -
  have "lm_reach (Fin (1 / 2)) 10 (lm_pair (example_tx 1 21000 0) (example_tx 2 21000 0))"
    by (rule lm_pair_reach) (simp add: example_tx_def)
  then show "lm_inv (lm_pair (example_tx 1 21000 0) (example_tx 2 21000 0))"
    using lm_reach_inv [of "Fin (1 / 2)"] by simp
  show "pending_ok (lm_Pending (lm_pair (example_tx 1 21000 0) (example_tx 2 21000 0)))"
    by (simp add: pending_ok_def lm_Pending_def lm_pair_def lane_meta_def example_tx_def)
qed

lemma example_drain:
  obtains b q where "lm_PopBatch (lm_pair (example_tx 1 21000 0) (example_tx 2 21000 0)) 1 30000000 = (b, q)"
    and "b = [lane_meta (example_tx 1 21000 0) (Fin 1) 1]"
proof -
  let ?pool = "lm_pair (example_tx 1 21000 0) (example_tx 2 21000 0)"
  obtain b q where pop: "lm_PopBatch ?pool 1 30000000 = (b, q)" by fastforce
  have fits: "gas_fits 30000000 (lm_Pending ?pool)" by (rule lm_pair_fits) (simp_all add: example_tx_def)
  have "sum_list (map meta_gas (lm_fast ?pool)) \<le> unat (lane_share 30000000 LaneFast)"
    by (simp add: lm_pair_def lane_meta_def meta_gas_def example_tx_def lane_share_def LaneFastGasBps_def)
  then have b: "set b \<subseteq> set (lm_fast ?pool)" "int (length b) = 1"
    using fast_takes_all [OF example_pool _ fits, of 1 b q] pop by (auto simp: lm_PopBatch_def lm_pair_def)
  then obtain m where "b = [m]" by (auto simp: length_Suc_conv)
  with b(1) have "b = [lane_meta (example_tx 1 21000 0) (Fin 1) 1]" by (simp add: lm_pair_def)
  with pop show ?thesis by (rule that)
qed

text \<open>A codec for one block with one transaction and one receipt, and the block the example executes.\<close>

definition one_codec :: "l2_block \<Rightarrow> tx \<Rightarrow> receipt \<Rightarrow> codec" where
  "one_codec b t r = (example_codec b (example_batch 1))\<lparr>enc_tx := only t, dec_tx := only_dec t,
     enc_receipt := only r, dec_receipt := only_dec r\<rparr>"

definition one_libs :: "l2_block \<Rightarrow> tx \<Rightarrow> receipt \<Rightarrow> ((bytes \<rightharpoonup> bytes), ledger) libs" where
  "one_libs b t r = (example_libs b)\<lparr>lb_C := one_codec b t r\<rparr>"

lemma one_libs_laws: "libs_laws (one_libs b t r)"
proof -
  have "codec_laws (one_codec b t r)"
    by (auto simp: one_codec_def codec_laws_def example_codec_def only_def only_dec_def split: if_splits)
  then show ?thesis using example_libs_laws [of b] by (simp add: libs_laws_def one_libs_def)
qed

lemma example_execute_one:
  obtains block m' r where "ExecuteAndCommitBlock (one_libs block (example_tx 1 21000 0) r) example_manager
      [example_tx 1 21000 0] 1 0 zero_hash bf = (m', [], Inr block)"
    and "bk_Transactions block = [example_tx 1 21000 0]" and "bk_Receipts block = [r]"
proof -
  let ?t = "example_tx 1 21000 0"
  obtain s' res gas where et: "ExecuteTransactions (example_lib 100) (0, 0) [?t] (mg_exec_ctx example_manager 1 0 zero_hash bf)
      = (s', [res], [], gas)" and h: "rc_TxHash (er_Receipt res) = tx_Hash ?t"
    by (simp add: ExecuteTransactions_def exec_block_ctx_def mg_exec_ctx_def block_gas_limit_def applyTransaction_def
        example_lib_def example_tx_def Let_def settle_def example_call_def from_big_def)
  have hash: "computeBlockHash example_geth n r 0 zero_hash = zero_hash" for n r
    by (rule computeBlockHash_parent) simp_all
  let ?r = "final_receipt zero_hash 1 (0, res)"
  let ?block = "\<lparr>bk_Header = \<lparr>hd_Number = 1, hd_Hash = zero_hash, hd_ParentHash = zero_hash,
     hd_Timestamp = 0, hd_StateRoot = replicate 32 9, hd_GasUsed = gas, hd_GasLimit = block_gas_limit,
     hd_TxCount = 1, hd_SequencerAddr = zero_address, hd_L1Origin = no_l1_origin, hd_BaseFee = Some bf\<rparr>,
     bk_Transactions = [?t], bk_Receipts = [?r]\<rparr>"
  obtain m' where "ExecuteAndCommitBlock (one_libs ?block ?t ?r) example_manager [?t] 1 0 zero_hash bf = (m', [], Inr ?block)"
    using et by (simp add: ExecuteAndCommitBlock_def Let_def hash example_trie_def CommitState_def OpenState_def
        executed_txs_def h one_libs_def example_manager_def cdb_WriteBlock_def one_codec_def example_codec_def only_def
        mem_db_def)
  then show ?thesis by (rule that) simp_all
qed

subsection \<open>Properties\<close>



text \<open>When a block fails, every drained transaction goes back with the zero address as its sender and
  the score 0: whatever lane it had earned, it waits in the slow lane from then on.\<close>

theorem produce_block_failure_demotes:
  assumes "lm_inv (pd_mempool p)" and "0 \<le> lm_maxSize (pd_mempool p)" and "block_limits p = (k, g)"
    and "lm_PopBatch (pd_mempool p) k g = (b, q)"
    and "ExecuteAndCommitBlock B (pd_state p) (map Tx b) (mg_currentBlock (pd_state p) + 1)
      (word_of_int (now div 1000000000)) (mg_GetBlockHash B (pd_state p) (mg_currentBlock (pd_state p)))
      (fm_BaseFee (pd_feeModel p)) = (sm, skipped, Inl e)"
  shows "\<exists>p'. produceBlock B laned_ops p now = Some p' \<and>
    (\<forall>m \<in> set b. \<exists>m' \<in> set (lm_slow (pd_mempool p')). Tx m' = Tx m \<and> Sender m' = zero_address \<and> TasteScore m' = Fin 0)"
proof -
  let ?q = "add_all lm_Add now (map (\<lambda>m. (Tx m, zero_address, Fin 0)) b) q"
  have room: "lm_Len (pd_mempool p) \<le> lm_maxSize (pd_mempool p)" using assms(1,2) by (simp add: lm_inv_def lm_Len_def)
  have r: "lm_inv ?q" "\<forall>m \<in> set b. new_meta (lm_tasteScoreWeight (pd_mempool p)) (Tx m) zero_address (Fin 0) now
      \<in> set (lm_Pending ?q)"
    using lm.return_batch [OF assms(1) room assms(4), of "\<lambda>m. Fin 0" now "\<lambda>m. zero_address"] by simp_all
  have slow: "m' \<in> set (lm_slow ?q)" if pend: "m' \<in> set (lm_Pending ?q)" and zero: "TasteScore m' = Fin 0" for m'
  proof -
    obtain l where l: "m' \<in> set (lane_queue ?q l)" using pend by (auto simp: set_lm_Pending)
    then have "ClassifyLane (TasteScore m') = l" using lm_inv_lane [OF r(1), of l] by (simp add: lane_ok_def)
    then show ?thesis using l zero by auto
  qed
  have "tp_PopBatch laned_ops (pd_mempool p) k g = (b, q)" using assms(4) by (simp add: laned_ops_def)
  from produceBlock_failed [OF assms(3) this assms(5)]
  have "produceBlock B laned_ops p now = Some (p\<lparr>pd_state := sm, pd_mempool := ?q\<rparr>)"
    by (simp add: laned_ops_def return_all_def comp_def)
  moreover have "\<forall>m \<in> set b. \<exists>m' \<in> set (lm_slow ?q). Tx m' = Tx m \<and> Sender m' = zero_address \<and> TasteScore m' = Fin 0"
  proof
    fix m assume "m \<in> set b"
    let ?m = "new_meta (lm_tasteScoreWeight (pd_mempool p)) (Tx m) zero_address (Fin 0) now"
    have "?m \<in> set (lm_Pending ?q)" using r(2) \<open>m \<in> set b\<close> by blast
    then have "?m \<in> set (lm_slow ?q)" by (rule slow) simp
    then show "\<exists>m' \<in> set (lm_slow ?q). Tx m' = Tx m \<and> Sender m' = zero_address \<and> TasteScore m' = Fin 0"
      by (intro bexI [of _ ?m]) simp_all
  qed
  ultimately show ?thesis by (intro exI conjI) (assumption, simp)
qed

lemma produce_block_failure_demotes_witness:
  "\<exists>p'. produceBlock ((example_libs (empty_block 1))\<lparr>lb_T := example_trie\<lparr>tl_Commit := \<lambda>d s n. (d, None)\<rparr>\<rparr>)
      laned_ops example_producer 0 = Some p' \<and>
    (\<exists>m' \<in> set (lm_slow (pd_mempool p')). Tx m' = example_tx 1 21000 0)"
proof -
  let ?B = "(example_libs (empty_block 1))\<lparr>lb_T := example_trie\<lparr>tl_Commit := \<lambda>d s n. (d, None)\<rparr>\<rparr>"
  let ?pool = "lm_pair (example_tx 1 21000 0) (example_tx 2 21000 0)"
  obtain b q where pop: "lm_PopBatch ?pool 1 30000000 = (b, q)" and "b = [lane_meta (example_tx 1 21000 0) (Fin 1) 1]"
    by (rule example_drain)
  then have mem: "lane_meta (example_tx 1 21000 0) (Fin 1) 1 \<in> set b" by simp
  let ?n = "mg_currentBlock (pd_state example_producer) + 1" and ?ts = "word_of_int (0 div 1000000000) :: u64"
  let ?ph = "mg_GetBlockHash ?B (pd_state example_producer) (mg_currentBlock (pd_state example_producer))"
  let ?bf = "fm_BaseFee (pd_feeModel example_producer)"
  obtain s' r sk gas where "ExecuteTransactions (example_lib 100) (0, 0) (map Tx b)
      (mg_exec_ctx (pd_state example_producer) ?n ?ts ?ph ?bf) = (s', r, sk, gas)"
    by (metis prod_cases4)
  then obtain sm where ex: "ExecuteAndCommitBlock ?B (pd_state example_producer) (map Tx b) ?n ?ts ?ph ?bf
      = (sm, sk, Inl ErrCommitState)"
    by (simp add: ExecuteAndCommitBlock_def example_trie_def CommitState_def OpenState_def)
  have inv: "lm_inv (pd_mempool example_producer)" and cap: "0 \<le> lm_maxSize (pd_mempool example_producer)"
    and pop': "lm_PopBatch (pd_mempool example_producer) 1 30000000 = (b, q)"
    using example_pool pop by (simp_all add: lm_pair_def)
  obtain p' where p': "produceBlock ?B laned_ops example_producer 0 = Some p'"
    and slow: "\<forall>m \<in> set b. \<exists>m' \<in> set (lm_slow (pd_mempool p')). Tx m' = Tx m \<and> Sender m' = zero_address \<and> TasteScore m' = Fin 0"
    using produce_block_failure_demotes [OF inv cap example_producer_fields(3) pop' ex] by blast
  have "Tx (lane_meta (example_tx 1 21000 0) (Fin 1) 1) = example_tx 1 21000 0" by (simp add: lane_meta_def)
  then have "\<exists>m' \<in> set (lm_slow (pd_mempool p')). Tx m' = example_tx 1 21000 0" using bspec [OF slow mem] by auto
  with p' show ?thesis by blast
qed

text \<open>C23. A committed block with transactions gives each of them a compute receipt, in order: it carries
  the transaction's hash, its index, the state roots before and after the block and the gas of the
  execution receipt, and it verifies.\<close>

theorem produce_block_receipts:
  assumes "libs_laws B" and "lm_inv (pd_mempool p)" and "pending_ok (lm_Pending (pd_mempool p))"
    and "block_limits p = (k, g)" and "lm_PopBatch (pd_mempool p) k g = (b, q)"
    and "ExecuteAndCommitBlock B (pd_state p) (map Tx b) (mg_currentBlock (pd_state p) + 1)
      (word_of_int (now div 1000000000)) (mg_GetBlockHash B (pd_state p) (mg_currentBlock (pd_state p)))
      (fm_BaseFee (pd_feeModel p)) = (sm, skipped, Inr block)"
    and "pd_receiptStore p = Some rs"
  shows "\<exists>p' rs' crs. produceBlock B laned_ops p now = Some p' \<and> pd_receiptStore p' = Some rs' \<and>
    rs_GetByBlock rs' (hd_Number (bk_Header block)) = rs_GetByBlock rs (hd_Number (bk_Header block)) @ crs \<and>
    map cr_TxHash crs = map tx_Hash (bk_Transactions block) \<and>
    (\<forall>i < length crs. cr_TxIndex (crs ! i) = int i \<and> cr_PreStateRoot (crs ! i) = mg_stateRoot (pd_state p) \<and>
       cr_PostStateRoot (crs ! i) = mg_stateRoot sm \<and>
       cr_GasUsed (crs ! i) = rc_GasUsed (bk_Receipts block ! i) \<and> cr_Verify (lb_g B) (crs ! i))"
proof -
  let ?n = "mg_currentBlock (pd_state p) + 1"
  let ?crs = "block_receipts B block ?n (mg_stateRoot (pd_state p)) now"
  note ok = lm.drained_txs_ok [OF assms(2,5,3)]
  obtain marks where k: "map rc_TxHash (bk_Receipts block) = map tx_Hash (bk_Transactions block)"
    by (rule committed_block [OF assms(1) ok(1) assms(6)])
  then have len: "length (bk_Receipts block) = length (bk_Transactions block)" by (metis length_map)
  obtain disk' where tip: "mg_stateRoot sm = hd_StateRoot (bk_Header block)"
    by (rule committed_written [OF assms(1) ok(1) assms(6)])
  have num: "hd_Number (bk_Header block) = ?n" by (rule Execute_ok [OF assms(6)]) simp
  have "tp_PopBatch laned_ops (pd_mempool p) k g = (b, q)" using assms(5) by (simp add: laned_ops_def)
  then obtain p' where p': "produceBlock B laned_ops p now = Some p'"
    "pd_receiptStore p' = store_receipts B block ?n (mg_stateRoot (pd_state p)) now 0 (bk_Receipts block) rs"
    using produceBlock_committed [OF assms(4) _ assms(6) len, of laned_ops] assms(7) by auto
  have st: "pd_receiptStore p' = Some (fold (\<lambda>cr s. rs_Store s cr) ?crs rs)"
    unfolding p'(2) block_receipts_def using len by (intro store_receipts_fold) simp
  have byb: "rs_GetByBlock (fold (\<lambda>cr s. rs_Store s cr) ?crs rs) ?n = rs_GetByBlock rs ?n @ ?crs"
    by (rule fold_store_byBlock) (auto simp: block_receipts_def)
  have "map cr_TxHash ?crs = map tx_Hash (bk_Transactions block)"
    using len by (intro nth_equalityI) (simp_all add: block_receipts_def nth_enumerate_eq)
  moreover have "\<forall>i < length ?crs. cr_TxIndex (?crs ! i) = int i \<and> cr_PreStateRoot (?crs ! i) = mg_stateRoot (pd_state p) \<and>
       cr_PostStateRoot (?crs ! i) = mg_stateRoot sm \<and>
       cr_GasUsed (?crs ! i) = rc_GasUsed (bk_Receipts block ! i) \<and> cr_Verify (lb_g B) (?crs ! i)"
    by (simp add: block_receipts_def nth_enumerate_eq tip)
  ultimately show ?thesis using p'(1) st byb num by auto
qed

lemma produce_block_receipts_witness:
  "\<exists>block r p' rs' cr. produceBlock (one_libs block (example_tx 1 21000 0) r) laned_ops example_producer 0 = Some p' \<and>
    pd_receiptStore p' = Some rs' \<and> rs_GetByBlock rs' 1 = [cr] \<and> cr_TxHash cr = replicate 32 1 \<and>
    cr_PreStateRoot cr = replicate 32 9 \<and> cr_Verify example_geth cr"
proof -
  let ?t = "example_tx 1 21000 0"
  let ?bf = "fm_BaseFee (pd_feeModel example_producer)"
  obtain block m' r where ex: "ExecuteAndCommitBlock (one_libs block ?t r) example_manager [?t] 1 0 zero_hash ?bf
      = (m', [], Inr block)" "bk_Transactions block = [?t]" "bk_Receipts block = [r]"
    by (rule example_execute_one)
  let ?B = "one_libs block ?t r"
  obtain b q where pop: "lm_PopBatch (pd_mempool example_producer) 1 30000000 = (b, q)"
    and b: "b = [lane_meta ?t (Fin 1) 1]"
    using example_drain by auto
  have "mg_GetBlockHash ?B example_manager 0 = zero_hash"
    by (simp add: mg_GetBlockHash_def cdb_ReadBlockHash_def cdb_ReadBlock_def one_libs_def example_manager_def mem_db_def
        key_defs)
  then have ex': "ExecuteAndCommitBlock ?B (pd_state example_producer) (map Tx b) (mg_currentBlock (pd_state example_producer) + 1)
      (word_of_int (0 div 1000000000)) (mg_GetBlockHash ?B (pd_state example_producer) (mg_currentBlock (pd_state example_producer)))
      ?bf = (m', [], Inr block)"
    using ex(1) by (simp add: b lane_meta_def example_manager_def)
  have inv: "lm_inv (pd_mempool example_producer)" "pending_ok (lm_Pending (pd_mempool example_producer))"
    using example_pool example_pending by simp_all
  have n: "hd_Number (bk_Header block) = 1" by (rule Execute_ok [OF ex(1)]) simp
  obtain p' rs' crs where c: "produceBlock ?B laned_ops example_producer 0 = Some p'" "pd_receiptStore p' = Some rs'"
    "rs_GetByBlock rs' 1 = rs_GetByBlock NewReceiptStore 1 @ crs" "map cr_TxHash crs = [tx_Hash ?t]"
    "\<forall>i < length crs. cr_PreStateRoot (crs ! i) = mg_stateRoot example_manager \<and> cr_Verify (lb_g ?B) (crs ! i)"
    using produce_block_receipts [OF one_libs_laws inv example_producer_fields(3) pop ex' example_producer_fields(4)]
      ex(2) n by auto
  obtain cr where "crs = [cr]" using c(4) by auto
  moreover have "rs_GetByBlock NewReceiptStore 1 = []" by (simp add: NewReceiptStore_def rs_GetByBlock_def)
  ultimately have "rs_GetByBlock rs' 1 = [cr] \<and> cr_TxHash cr = replicate 32 1 \<and>
      cr_PreStateRoot cr = replicate 32 9 \<and> cr_Verify example_geth cr"
    using c(3-5) by (simp add: example_manager_def one_libs_def example_tx_def)
  then show ?thesis using c(1,2) by blast
qed

end
