(* ===== verification/Rpc_Eth.thy ===== *)
theory Rpc_Eth
  imports Rpc_Logs Receipts Producer
begin

section \<open>The Ethereum methods: internal/rpc/handler.go\<close>

text \<open>
  The handler's state and its \<open>eth_\<close> methods. Methods that only read return an error or a value; those
  that ask for a score also return the handler. The pool is used through \<open>pool_ops\<close>; whether the laned
  pool is attached is a flag, since it is the pool of the handler itself (\<open>cmd/sequencer/main.go\<close>).
\<close>

record ('p, 'd) handler =
  rh_mempool :: 'p
  rh_state :: "'d manager"
  rh_tastescore :: "taste_client option"
  rh_feeModel :: fee_model
  rh_receiptStore :: "receipt_store option"
  rh_lanedPool :: bool
  rh_sizer :: "sizer option"
  rh_metrics :: "metrics option"
  rh_chainID :: u64

definition NewHandler :: "'p \<Rightarrow> 'd manager \<Rightarrow> taste_client option \<Rightarrow> u64 \<Rightarrow> fee_model \<Rightarrow> ('p, 'd) handler" where
  "NewHandler mp sm ts chainID fm = \<lparr>rh_mempool = mp, rh_state = sm, rh_tastescore = ts, rh_feeModel = fm,
     rh_receiptStore = None, rh_lanedPool = False, rh_sizer = None, rh_metrics = None, rh_chainID = chainID\<rparr>"

definition rh_SetReceiptStore :: "('p, 'd) handler \<Rightarrow> receipt_store \<Rightarrow> ('p, 'd) handler" where
  "rh_SetReceiptStore h rs = h\<lparr>rh_receiptStore := Some rs\<rparr>"

definition rh_SetLanedPool :: "('p, 'd) handler \<Rightarrow> ('p, 'd) handler" where
  "rh_SetLanedPool h = h\<lparr>rh_lanedPool := True\<rparr>"

definition rh_SetAdaptiveSizer :: "('p, 'd) handler \<Rightarrow> sizer \<Rightarrow> ('p, 'd) handler" where
  "rh_SetAdaptiveSizer h s = h\<lparr>rh_sizer := Some s\<rparr>"

definition rh_SetMetrics :: "('p, 'd) handler \<Rightarrow> metrics \<Rightarrow> ('p, 'd) handler" where
  "rh_SetMetrics h m = h\<lparr>rh_metrics := Some m\<rparr>"

text \<open>The score of an address, if a client is attached: its cache is the only thing that changes.\<close>

definition ask_score :: "rpc_lib \<Rightarrow> rpc_env \<Rightarrow> ('p, 'd) handler \<Rightarrow> address \<Rightarrow> score_result option \<times> ('p, 'd) handler" where
  "ask_score R env h addr = (case rh_tastescore h of
     None \<Rightarrow> (None, h)
   | Some c \<Rightarrow> (case GetScoreResult (rl_score R) c addr (re_now env) (re_api env addr) of
       (r, c') \<Rightarrow> (Some r, h\<lparr>rh_tastescore := Some c'\<rparr>)))"

subsection \<open>Sending a transaction\<close>

definition sendRawTransaction :: "'p pool_ops \<Rightarrow> rpc_lib \<Rightarrow> rpc_env \<Rightarrow> ('p, 'd) handler \<Rightarrow> json option \<Rightarrow>
    (rpc_error + rpc_value) \<times> ('p, 'd) handler" where
  "sendRawTransaction P R env h params = (case string_args params of
     None \<Rightarrow> (Inl (RpcParams ''invalid params''), h)
   | Some args \<Rightarrow> (case hx_Decode (rl_hex R) (hd args) of
       None \<Rightarrow> (Inl (RpcWrapped ''invalid hex data''), h)
     | Some rawTx \<Rightarrow> (case rl_DecodeTx R rawTx of
         None \<Rightarrow> (Inl (RpcWrapped ''invalid transaction''), h)
       | Some t \<Rightarrow> (case rl_Sender R (rh_chainID h) t of
           None \<Rightarrow> (Inl (RpcWrapped ''invalid sender''), h)
         | Some sender \<Rightarrow> (case ask_score R env h sender of
             (r, h1) \<Rightarrow>
               (let score = (case r of None \<Rightarrow> Fin 0 | Some sr \<Rightarrow> EffectiveScore (Some sr)) in
                (case tp_Add P (rh_mempool h1) t sender score (re_now env) of
                   Inl e \<Rightarrow> (Inl (RpcPool e), h1)
                 | Inr pool \<Rightarrow> (Inr (VHash (tx_Hash t)), h1\<lparr>rh_mempool := pool\<rparr>))))))))"

subsection \<open>Blocks\<close>

definition ethBlockResponse :: "hex_lib \<Rightarrow> l2_block \<Rightarrow> bool \<Rightarrow> rpc_value" where
  "ethBlockResponse X block fullTx =
     (let hdr = bk_Header block;
          txs = map (\<lambda>t. if fullTx then VTx t else VHash (tx_Hash t)) (bk_Transactions block);
          baseFee = (case hd_BaseFee hdr of None \<Rightarrow> 0 | Some b \<Rightarrow> b)
      in VMap [(''number'', hex64 (hd_Number hdr)), (''hash'', VHash (hd_Hash hdr)),
        (''parentHash'', VHash (hd_ParentHash hdr)), (''timestamp'', hex64 (hd_Timestamp hdr)),
        (''stateRoot'', VHash (hd_StateRoot hdr)), (''gasUsed'', hex64 (hd_GasUsed hdr)),
        (''gasLimit'', hex64 (hd_GasLimit hdr)), (''baseFeePerGas'', VQuantity baseFee),
        (''miner'', VAddress (hd_SequencerAddr hdr)), (''transactions'', VList txs),
        (''transactionsRoot'', VHash zero_hash), (''receiptsRoot'', VHash zero_hash),
        (''logsBloom'', VData (replicate 256 0)), (''difficulty'', hex64 0), (''totalDifficulty'', hex64 0),
        (''size'', hex64 0), (''extraData'', VStr ''0x''), (''nonce'', VStr ''0x0000000000000000''),
        (''sha3Uncles'', VHash (hx_HexToHash X ''0x1dcc4de8dec75d7aab85b567b6ccd41ad312451b948a7413f0a142fd40d49347'')),
        (''uncles'', VList []), (''mixHash'', VHash zero_hash)])"

text \<open>The second argument, when it is a boolean.\<close>

definition full_tx_flag :: "json list \<Rightarrow> bool" where
  "full_tx_flag args = (case args of
     _ # j # _ \<Rightarrow> (case as_bool j of None \<Rightarrow> False | Some b \<Rightarrow> b)
   | _ \<Rightarrow> False)"

definition getBlockByNumber :: "('d, 's) libs \<Rightarrow> hex_lib \<Rightarrow> ('p, 'd) handler \<Rightarrow> json option \<Rightarrow> rpc_error + rpc_value" where
  "getBlockByNumber B X h params = (case raw_args params of
     None \<Rightarrow> Inl (RpcParams ''invalid params'')
   | Some args \<Rightarrow> (case as_string (hd args) of
       None \<Rightarrow> Inl (RpcParams ''invalid block number'')
     | Some blockNumStr \<Rightarrow>
       (case (if blockNumStr = ''latest'' then Some (mg_CurrentBlock (rh_state h)) else hx_DecodeUint64 X blockNumStr) of
          None \<Rightarrow> Inl (RpcWrapped ''invalid block number'')
        | Some blockNum \<Rightarrow> (case mg_GetBlock B (rh_state h) blockNum of
            None \<Rightarrow> Inr VNull
          | Some block \<Rightarrow> Inr (ethBlockResponse X block (full_tx_flag args))))))"

definition getBlockByHash :: "('d, 's) libs \<Rightarrow> hex_lib \<Rightarrow> ('p, 'd) handler \<Rightarrow> json option \<Rightarrow> rpc_error + rpc_value" where
  "getBlockByHash B X h params = (case raw_args params of
     None \<Rightarrow> Inl (RpcParams ''invalid params'')
   | Some args \<Rightarrow> (case as_string (hd args) of
       None \<Rightarrow> Inl (RpcParams ''invalid block hash'')
     | Some hashStr \<Rightarrow> (case mg_GetBlockByHash B (rh_state h) (hx_HexToHash X hashStr) of
         None \<Rightarrow> Inr VNull
       | Some block \<Rightarrow> Inr (ethBlockResponse X block (full_tx_flag args)))))"

subsection \<open>Transactions and receipts\<close>

text \<open>The receipt with the transaction it belongs to, if that is stored.\<close>

definition receipt_response :: "rpc_lib \<Rightarrow> ('p, 'd) handler \<Rightarrow> receipt \<Rightarrow> tx option \<Rightarrow> rpc_value" where
  "receipt_response R h r tx =
     VMap ([(''transactionHash'', VHash (rc_TxHash r)), (''transactionIndex'', VQuantity (int (rc_TransactionIndex r))),
        (''blockHash'', VHash (rc_BlockHash r)), (''blockNumber'', hex64 (word_of_int (rc_BlockNumber r))),
        (''from'', VAddress (case tx of None \<Rightarrow> zero_address | Some t \<Rightarrow>
           (case rl_Sender R (rh_chainID h) t of None \<Rightarrow> zero_address | Some a \<Rightarrow> a))),
        (''gasUsed'', hex64 (rc_GasUsed r)), (''cumulativeGasUsed'', hex64 (rc_CumulativeGasUsed r)),
        (''status'', hex64 (rc_Status r)), (''logsBloom'', VData (rc_Bloom r)),
        (''type'', VQuantity (uint (rc_Type r))), (''effectiveGasPrice'', VQuantity (fm_BaseFee (rh_feeModel h))),
        (''contractAddress'', if rc_ContractAddress r \<noteq> zero_address then VAddress (rc_ContractAddress r) else VNull),
        (''logs'', VLogs (rc_Logs r))] @
        (case tx of None \<Rightarrow> [] | Some t \<Rightarrow> [(''to'', vopt VAddress (tx_To t))]))"

definition getTransactionReceipt :: "('d, 's) libs \<Rightarrow> rpc_lib \<Rightarrow> ('p, 'd) handler \<Rightarrow> json option \<Rightarrow> rpc_error + rpc_value" where
  "getTransactionReceipt B R h params = (case string_args params of
     None \<Rightarrow> Inl (RpcParams ''invalid params'')
   | Some args \<Rightarrow> (let hash = hx_HexToHash (rl_hex R) (hd args) in
      (case mg_GetReceipt B (rh_state h) hash of
         None \<Rightarrow> Inr VNull
       | Some r \<Rightarrow> Inr (receipt_response R h r (mg_GetTransaction B (rh_state h) hash)))))"

definition tx_response :: "('d, 's) libs \<Rightarrow> rpc_lib \<Rightarrow> ('p, 'd) handler \<Rightarrow> tx \<Rightarrow> u64 \<times> bool \<Rightarrow> rpc_value" where
  "tx_response B R h t nf = (case rl_RawSignatureValues R t of (v, r, s) \<Rightarrow>
     VMap ([(''hash'', VHash (tx_Hash t)), (''nonce'', hex64 (tx_Nonce t)),
        (''from'', VAddress (case rl_Sender R (rh_chainID h) t of None \<Rightarrow> zero_address | Some a \<Rightarrow> a)),
        (''to'', vopt VAddress (tx_To t)), (''value'', VQuantity (tx_Value t)), (''gas'', hex64 (tx_Gas t)),
        (''gasPrice'', VQuantity (tx_GasPrice t)), (''input'', VData (tx_Data t)),
        (''type'', VQuantity (uint (tx_Type t))), (''chainId'', VQuantity (rl_ChainId R t))] @
        (if snd nf then [(''blockNumber'', hex64 (fst nf)),
           (''blockHash'', VHash (mg_GetBlockHash B (rh_state h) (fst nf))), (''transactionIndex'', hex64 0)]
         else [(''blockNumber'', VNull), (''blockHash'', VNull), (''transactionIndex'', VNull)]) @
        [(''v'', case v of None \<Rightarrow> VStr ''0x0'' | Some x \<Rightarrow> VQuantity x),
         (''r'', case r of None \<Rightarrow> VStr ''0x0'' | Some x \<Rightarrow> VQuantity x),
         (''s'', case s of None \<Rightarrow> VStr ''0x0'' | Some x \<Rightarrow> VQuantity x)]))"

definition getTransactionByHash :: "('d, 's) libs \<Rightarrow> rpc_lib \<Rightarrow> ('p, 'd) handler \<Rightarrow> json option \<Rightarrow> rpc_error + rpc_value" where
  "getTransactionByHash B R h params = (case string_args params of
     None \<Rightarrow> Inl (RpcParams ''invalid params'')
   | Some args \<Rightarrow> (let hash = hx_HexToHash (rl_hex R) (hd args) in
      (case mg_GetTransaction B (rh_state h) hash of
         None \<Rightarrow> Inr VNull
       | Some t \<Rightarrow> Inr (tx_response B R h t (mg_GetTxBlockNumber B (rh_state h) hash)))))"

subsection \<open>Accounts\<close>

definition getBalance :: "('d, 's) libs \<Rightarrow> hex_lib \<Rightarrow> ('p, 'd) handler \<Rightarrow> json option \<Rightarrow> rpc_error + rpc_value" where
  "getBalance B X h params = (case string_args params of
     None \<Rightarrow> Inl (RpcParams ''invalid params'')
   | Some args \<Rightarrow> Inr (VQuantity (mg_GetBalance B (rh_state h) (hx_HexToAddress X (hd args)))))"

definition getTransactionCount :: "('d, 's) libs \<Rightarrow> hex_lib \<Rightarrow> ('p, 'd) handler \<Rightarrow> json option \<Rightarrow> rpc_error + rpc_value" where
  "getTransactionCount B X h params = (case string_args params of
     None \<Rightarrow> Inl (RpcParams ''invalid params'')
   | Some args \<Rightarrow> Inr (hex64 (mg_GetNonce B (rh_state h) (hx_HexToAddress X (hd args)))))"

definition getCode :: "('d, 's) libs \<Rightarrow> hex_lib \<Rightarrow> ('p, 'd) handler \<Rightarrow> json option \<Rightarrow> rpc_error + rpc_value" where
  "getCode B X h params = (case string_args params of
     None \<Rightarrow> Inl (RpcParams ''invalid params'')
   | Some args \<Rightarrow> Inr (VData (mg_GetCode B (rh_state h) (hx_HexToAddress X (hd args)))))"

definition getStorageAt :: "('d, 's) libs \<Rightarrow> hex_lib \<Rightarrow> ('p, 'd) handler \<Rightarrow> json option \<Rightarrow> rpc_error + rpc_value" where
  "getStorageAt B X h params = (case string_args params of
     Some (a # k # _) \<Rightarrow> Inr (VHash (mg_GetStorageAt B (rh_state h) (hx_HexToAddress X a) (hx_HexToHash X k)))
   | _ \<Rightarrow> Inl (RpcParams ''invalid params: need [address, key]''))"

subsection \<open>Calls\<close>

record call_args =
  ca_From :: "address option"
  ca_To :: "address option"
  ca_Gas :: "u64 option"
  ca_GasPrice :: "int option"
  ca_Value :: "int option"
  ca_Data :: "bytes option"
  ca_Input :: "bytes option"

definition parse_call_args :: "hex_lib \<Rightarrow> json \<Rightarrow> call_args option" where
  "parse_call_args X j = (case as_object j of
     None \<Rightarrow> None
   | Some kvs \<Rightarrow> (let field = (\<lambda>k. json_field k kvs) in
      (case (pointer_text (hx_TextAddress X) (field ''from''), pointer_text (hx_TextAddress X) (field ''to''),
          pointer_text (hx_TextUint64 X) (field ''gas''), pointer_text (hx_TextBig X) (field ''gasPrice''),
          pointer_text (hx_TextBig X) (field ''value''), pointer_text (hx_TextBytes X) (field ''data''),
          pointer_text (hx_TextBytes X) (field ''input'')) of
        (Some f, Some t, Some g, Some gp, Some v, Some d, Some i) \<Rightarrow>
          Some \<lparr>ca_From = f, ca_To = t, ca_Gas = g, ca_GasPrice = gp, ca_Value = v, ca_Data = d, ca_Input = i\<rparr>
      | _ \<Rightarrow> None)))"

text \<open>The base fee is a pointer that may be nil; the handler's never is.\<close>

definition toMessage :: "call_args \<Rightarrow> int option \<Rightarrow> message" where
  "toMessage args baseFee =
     \<lparr>ms_From = (case ca_From args of None \<Rightarrow> zero_address | Some a \<Rightarrow> a), ms_To = ca_To args,
      ms_Data = (case ca_Input args of Some d \<Rightarrow> d | None \<Rightarrow> (case ca_Data args of None \<Rightarrow> [] | Some d \<Rightarrow> d)),
      ms_GasLimit = (case ca_Gas args of None \<Rightarrow> (- 1) div 2 | Some g \<Rightarrow> g),
      ms_GasPrice = (case ca_GasPrice args of Some p \<Rightarrow> p
        | None \<Rightarrow> (case baseFee of Some f \<Rightarrow> f | None \<Rightarrow> 1000000000)),
      ms_Value = Some (case ca_Value args of None \<Rightarrow> 0 | Some v \<Rightarrow> v)\<rparr>"

text \<open>What both methods read first.\<close>

definition call_message :: "hex_lib \<Rightarrow> ('p, 'd) handler \<Rightarrow> json option \<Rightarrow> rpc_error + message" where
  "call_message X h params = (case raw_args params of
     None \<Rightarrow> Inl (RpcParams ''invalid params'')
   | Some args \<Rightarrow> (case parse_call_args X (hd args) of
       None \<Rightarrow> Inl (RpcWrapped ''invalid call args'')
     | Some ca \<Rightarrow> Inr (toMessage ca (Some (fm_BaseFee (rh_feeModel h))))))"

definition env_seconds :: "rpc_env \<Rightarrow> u64" where
  "env_seconds env = word_of_int (re_now env div 1000000000)"

definition ethCall :: "('d, 's) libs \<Rightarrow> hex_lib \<Rightarrow> rpc_env \<Rightarrow> ('p, 'd) handler \<Rightarrow> json option \<Rightarrow> rpc_error + rpc_value" where
  "ethCall B X env h params = (case call_message X h params of
     Inl e \<Rightarrow> Inl e
   | Inr msg \<Rightarrow> (case mg_CallContract B (rh_state h) msg (mg_CurrentBlock (rh_state h)) (env_seconds env) of
       Inl e \<Rightarrow> Inl (RpcState e)
     | Inr (result, _, Some err) \<Rightarrow> Inl (RpcEvm err)
     | Inr (result, _, None) \<Rightarrow> Inr (VData result)))"

text \<open>\<open>None\<close> if the search for the gas does not return.\<close>

definition estimateGas :: "('d, 's) libs \<Rightarrow> hex_lib \<Rightarrow> rpc_env \<Rightarrow> ('p, 'd) handler \<Rightarrow> json option \<Rightarrow>
    (rpc_error + rpc_value) option" where
  "estimateGas B X env h params = (case call_message X h params of
     Inl e \<Rightarrow> Some (Inl e)
   | Inr msg \<Rightarrow> (case mg_EstimateGas B (rh_state h) msg (mg_CurrentBlock (rh_state h)) (env_seconds env) of
       Inl e \<Rightarrow> Some (Inl (RpcState e))
     | Inr gas \<Rightarrow> map_option (\<lambda>g. Inr (hex64 g)) gas))"

subsection \<open>Fees\<close>

text \<open>The number of blocks asked for, at least 1 and at most 1024.\<close>

definition fee_history_count :: "json option \<Rightarrow> nat" where
  "fee_history_count params =
     (let blockCount = (case raw_args params of
            None \<Rightarrow> 1
          | Some args \<Rightarrow> (case as_int (hd args) of None \<Rightarrow> 1 | Some bc \<Rightarrow> if 0 < bc then bc else 1))
      in nat (if 1024 < blockCount then 1024 else blockCount))"

definition feeHistory :: "('p, 'd) handler \<Rightarrow> json option \<Rightarrow> rpc_value" where
  "feeHistory h params = (let n = fee_history_count params; baseFee = fm_BaseFee (rh_feeModel h) in
     VMap [(''oldestBlock'', hex64 (mg_CurrentBlock (rh_state h))),
       (''baseFeePerGas'', VList (replicate (n + 1) (VQuantity baseFee))),
       (''gasUsedRatio'', VList (replicate n (VFloat (Fin 0))))])"

end
