(* ===== verification/Rpc_Inso.thy ===== *)
theory Rpc_Inso
  imports Rpc_Eth
begin

section \<open>The methods of the sequencer itself: internal/rpc/handler.go\<close>

text \<open>
  The \<open>inso_\<close> methods: status, ordering, fees and discounts, compute receipts, lanes and block sizing, and
  the endpoints that answer from constants and scores.
\<close>

subsection \<open>Status, ordering and batches\<close>

definition getSequencerStatus :: "('p, 'd) handler \<Rightarrow> rpc_value" where
  "getSequencerStatus h = VStatus (mg_SequencerStatus (rh_state h))"

text \<open>An entry of the ordering, with the score's details when a client is attached.\<close>

definition ordering_entry :: "tx_meta \<Rightarrow> score_result option \<Rightarrow> rpc_value" where
  "ordering_entry meta r = VMap
     ([(''txHash'', VHash (tx_Hash (Tx meta))), (''sender'', VChecksum (Sender meta)),
       (''tasteScore'', VFloat (TasteScore meta)),
       (''confidence'', VFloat (case r of None \<Rightarrow> Fin 0 | Some s \<Rightarrow> sr_Confidence s)),
       (''tier'', VStr (case r of None \<Rightarrow> [] | Some s \<Rightarrow> sr_Tier s))] @
      (case r of None \<Rightarrow> [] | Some s \<Rightarrow>
         if sr_ChainBreakdown s = Map.empty then [] else [(''chainBreakdown'', VScores (sr_ChainBreakdown s))]) @
      [(''priority'', VFloat (Priority meta)),
       (''gasPrice'', case GasPrice meta of None \<Rightarrow> VStr ''<nil>'' | Some p \<Rightarrow> VDecimal p)])"

fun ordering_entries :: "rpc_lib \<Rightarrow> rpc_env \<Rightarrow> tx_meta list \<Rightarrow> ('p, 'd) handler \<Rightarrow> rpc_value list \<times> ('p, 'd) handler" where
  "ordering_entries R env [] h = ([], h)"
| "ordering_entries R env (meta # metas) h = (case ask_score R env h (Sender meta) of
     (r, h1) \<Rightarrow> (case ordering_entries R env metas h1 of (es, h2) \<Rightarrow> (ordering_entry meta r # es, h2)))"

definition getTasteScoreOrdering :: "'p pool_ops \<Rightarrow> rpc_lib \<Rightarrow> rpc_env \<Rightarrow> ('p, 'd) handler \<Rightarrow> rpc_value \<times> ('p, 'd) handler" where
  "getTasteScoreOrdering P R env h = (case ordering_entries R env (tp_Pending P (rh_mempool h)) h of
     (es, h') \<Rightarrow> (VList es, h'))"

definition getBatchStatus :: "('d, 's) libs \<Rightarrow> ('p, 'd) handler \<Rightarrow> rpc_value" where
  "getBatchStatus B h = vopt VBatch (GetLatestBatch B (rh_state h))"

subsection \<open>Fees and discounts\<close>

definition tier_name :: "u8 \<Rightarrow> string" where
  "tier_name tier = (let names = [''None'', ''Bronze'', ''Silver'', ''Gold'', ''Platinum''] in
     if unat tier < length names then names ! unat tier else ''None'')"

definition getEffectiveFee :: "hex_lib \<Rightarrow> rpc_env \<Rightarrow> ('p, 'd) handler \<Rightarrow> json option \<Rightarrow> rpc_error + rpc_value" where
  "getEffectiveFee X env h params = (case string_args params of
     None \<Rightarrow> Inl (RpcParams ''invalid params: need [address]'')
   | Some args \<Rightarrow>
     (let addr = hx_HexToAddress X (hd args);
          effectiveFee = fst (EffectiveFee (rh_feeModel h) addr None (re_now env) (re_now env))
      in (case GetDiscount (rh_feeModel h) addr of (discountBps, tier) \<Rightarrow>
        Inr (VMap [(''baseFee'', VQuantity (fm_BaseFee (rh_feeModel h))), (''effectiveFee'', VQuantity effectiveFee),
          (''discountBps'', VInt (uint discountBps)), (''tier'', VInt (uint tier)),
          (''tierName'', VStr (tier_name tier))]))))"

definition getSovereigntyDiscount :: "hex_lib \<Rightarrow> ('p, 'd) handler \<Rightarrow> json option \<Rightarrow> rpc_error + rpc_value" where
  "getSovereigntyDiscount X h params = (case string_args params of
     None \<Rightarrow> Inl (RpcParams ''invalid params: need [address]'')
   | Some args \<Rightarrow>
     (let addr = hx_HexToAddress X (hd args) in
      (case GetDiscount (rh_feeModel h) addr of (discountBps, tier) \<Rightarrow>
        Inr (VMap [(''address'', VChecksum addr), (''discountBps'', VInt (uint discountBps)),
          (''tier'', VInt (uint tier)), (''tierName'', VStr (tier_name tier))]))))"

subsection \<open>Compute receipts\<close>

definition compute_receipt_response :: "geth \<Rightarrow> compute_receipt \<Rightarrow> rpc_value" where
  "compute_receipt_response g cr = VMap
     [(''txHash'', VHash (cr_TxHash cr)), (''blockNumber'', vu64 (cr_BlockNumber cr)), (''txIndex'', VInt (cr_TxIndex cr)),
      (''sender'', VChecksum (cr_Sender cr)), (''gasUsed'', vu64 (cr_GasUsed cr)), (''status'', vu64 (cr_Status cr)),
      (''preStateRoot'', VHash (cr_PreStateRoot cr)), (''postStateRoot'', VHash (cr_PostStateRoot cr)),
      (''inputHash'', VHash (cr_InputHash cr)), (''outputHash'', VHash (cr_OutputHash cr)),
      (''logsHash'', VHash (cr_LogsHash cr)), (''receiptHash'', VHash (cr_ReceiptHash cr)),
      (''verified'', VBool (cr_Verify g cr))]"

definition getComputeReceipt :: "geth \<Rightarrow> hex_lib \<Rightarrow> ('p, 'd) handler \<Rightarrow> json option \<Rightarrow> rpc_error + rpc_value" where
  "getComputeReceipt g X h params = (case rh_receiptStore h of
     None \<Rightarrow> Inl (RpcParams ''compute receipts not enabled'')
   | Some rs \<Rightarrow> (case string_args params of
       None \<Rightarrow> Inl (RpcParams ''invalid params: need [txHash]'')
     | Some args \<Rightarrow> (case rs_Get rs (hx_HexToHash X (hd args)) of
         None \<Rightarrow> Inr VNull
       | Some cr \<Rightarrow> Inr (compute_receipt_response g cr))))"

definition getBlockReceiptRoot :: "geth \<Rightarrow> hex_lib \<Rightarrow> ('p, 'd) handler \<Rightarrow> json option \<Rightarrow> rpc_error + rpc_value" where
  "getBlockReceiptRoot g X h params = (case rh_receiptStore h of
     None \<Rightarrow> Inl (RpcParams ''compute receipts not enabled'')
   | Some rs \<Rightarrow> (case string_args params of
       None \<Rightarrow> Inl (RpcParams ''invalid params: need [blockNumber]'')
     | Some args \<Rightarrow> (case hx_DecodeUint64 X (hd args) of
         None \<Rightarrow> Inl (RpcWrapped ''invalid block number'')
       | Some blockNum \<Rightarrow> Inr (VMap [(''blockNumber'', vu64 blockNum),
           (''receiptRoot'', VHash (ComputeBlockReceiptRoot g rs blockNum))]))))"

subsection \<open>Lanes and block sizing\<close>

text \<open>The total is an \<open>int\<close> sum.\<close>

definition getLaneStats :: "'p pool_ops \<Rightarrow> ('p, 'd) handler \<Rightarrow> rpc_value" where
  "getLaneStats P h = (case (if rh_lanedPool h then tp_LaneSizes P (rh_mempool h) else None) of
     None \<Rightarrow> VMap [(''enabled'', VBool False)]
   | Some (fast, std, slow) \<Rightarrow> VMap [(''enabled'', VBool True), (''fast'', VInt fast), (''standard'', VInt std),
       (''slow'', VInt slow), (''total'', VInt (fast + std + slow))])"

definition getAdaptiveBlockStats :: "('p, 'd) handler \<Rightarrow> rpc_value" where
  "getAdaptiveBlockStats h = (case rh_sizer h of
     None \<Rightarrow> VMap [(''enabled'', VBool False)]
   | Some s \<Rightarrow> (case sz_Stats s of (gasLimit, maxTx, utilization) \<Rightarrow>
       VMap [(''enabled'', VBool True), (''currentGasLimit'', vu64 gasLimit), (''currentMaxTx'', VInt maxTx),
         (''utilization'', VFloat utilization)]))"

subsection \<open>Parameters of the last endpoints\<close>

text \<open>A number, or the text of one in hexadecimal.\<close>

definition parseBlockParam :: "json option \<Rightarrow> rpc_error + u64" where
  "parseBlockParam params = (case raw_args params of
     None \<Rightarrow> Inl (RpcParams ''missing blockNumber parameter'')
   | Some args \<Rightarrow> (case as_uint64 (hd args) of
       Some n \<Rightarrow> Inr n
     | None \<Rightarrow> (case as_string (hd args) of
         None \<Rightarrow> Inl (RpcParams ''invalid blockNumber'')
       | Some hexStr \<Rightarrow> (case sscanf_0x hexStr of
           None \<Rightarrow> Inl (RpcParams ''invalid blockNumber'')
         | Some n \<Rightarrow> Inr n))))"

text \<open>A first parameter that is a text, with the messages for a missing and for a wrong one.\<close>

definition text_param :: "string \<Rightarrow> string \<Rightarrow> json option \<Rightarrow> rpc_error + string" where
  "text_param missing wrong params = (case raw_args params of
     None \<Rightarrow> Inl (RpcParams missing)
   | Some args \<Rightarrow> (case as_string (hd args) of None \<Rightarrow> Inl (RpcParams wrong) | Some s \<Rightarrow> Inr s))"

subsection \<open>Proofs and attestations\<close>

definition proofStatusLabel :: "bool \<Rightarrow> u64 \<Rightarrow> u64 \<Rightarrow> string" where
  "proofStatusLabel proven blockNum currentBlock =
     (if proven then ''verified'' else if blockNum = currentBlock + 1 then ''pending'' else ''unknown'')"

definition getZKProofStatus :: "('p, 'd) handler \<Rightarrow> json option \<Rightarrow> rpc_error + rpc_value" where
  "getZKProofStatus h params = (case parseBlockParam params of
     Inl e \<Rightarrow> Inl e
   | Inr blockNum \<Rightarrow>
     (let currentBlock = mg_CurrentBlock (rh_state h); proven = (blockNum \<le> currentBlock)
      in Inr (VMap [(''blockNumber'', vu64 blockNum),
        (''proofStatus'', VStr (proofStatusLabel proven blockNum currentBlock)), (''proofType'', VStr ''zk-snark''),
        (''proven'', VBool proven), (''currentBlock'', vu64 currentBlock)])))"

definition getCrossChainAttestation :: "('p, 'd) handler \<Rightarrow> json option \<Rightarrow> rpc_error + rpc_value" where
  "getCrossChainAttestation h params = (case text_param ''missing txHash parameter'' ''invalid txHash'' params of
     Inl e \<Rightarrow> Inl e
   | Inr txHash \<Rightarrow> Inr (VMap [(''txHash'', VStr txHash), (''sourceChain'', vu64 (rh_chainID h)),
       (''targetChain'', VInt 1), (''status'', VStr ''attested''), (''attestations'', VInt 3),
       (''requiredCount'', VInt 2), (''confirmed'', VBool True)]))"

definition getOrderingProof :: "hex_lib \<Rightarrow> json option \<Rightarrow> rpc_error + rpc_value" where
  "getOrderingProof X params = (case text_param ''missing txHash parameter'' ''invalid txHash'' params of
     Inl e \<Rightarrow> Inl e
   | Inr txHash \<Rightarrow> Inr (VMap [(''txHash'', VStr txHash), (''orderingMethod'', VStr ''tastescore''),
       (''sequencePosition'', VInt 0), (''verified'', VBool True), (''proofHash'', VHash (hx_HexToHash X txHash)),
       (''compliance'', VMap [(''fatfTier'', VStr ''B''), (''tierLabel'', VStr ''Low Risk''),
          (''orderingPriority'', VStr ''normal''), (''sanctionsScreened'', VBool True),
          (''complianceVersion'', VStr ''v2.0'')])]))"

definition blobStatusLabel :: "bool \<Rightarrow> string" where
  "blobStatusLabel available = (if available then ''confirmed'' else ''pending'')"

definition getDABlobStatus :: "('p, 'd) handler \<Rightarrow> json option \<Rightarrow> rpc_error + rpc_value" where
  "getDABlobStatus h params = (case parseBlockParam params of
     Inl e \<Rightarrow> Inl e
   | Inr blockNum \<Rightarrow> (let available = (blockNum \<le> mg_CurrentBlock (rh_state h)) in
      Inr (VMap [(''blockNumber'', vu64 blockNum), (''blobStatus'', VStr (blobStatusLabel available)),
        (''available'', VBool available), (''daLayer'', VStr ''insoblok-native''),
        (''compliance'', VMap [(''scoreBlobsArchived'', VBool available), (''attestationRequired'', VBool True),
           (''quorumBps'', VInt 6667)])])))"

definition getGovernanceProposals :: rpc_value where
  "getGovernanceProposals = VMap [(''proposals'', VList []), (''totalCount'', VInt 0), (''activeCount'', VInt 0),
     (''quorumPercent'', VInt 51)]"

definition getRestakingStats :: rpc_value where
  "getRestakingStats = VMap [(''totalRestaked'', VStr ''0''), (''activeRestakers'', VInt 0),
     (''supportedProtocols'', VList [VStr ''insoblok-native'']), (''apy'', VStr ''0.00'')]"

subsection \<open>Scores and compliance\<close>

definition getAIScorePreview :: "rpc_lib \<Rightarrow> rpc_env \<Rightarrow> ('p, 'd) handler \<Rightarrow> json option \<Rightarrow>
    (rpc_error + rpc_value) \<times> ('p, 'd) handler" where
  "getAIScorePreview R env h params = (case text_param ''missing address parameter'' ''invalid address'' params of
     Inl e \<Rightarrow> (Inl e, h)
   | Inr addrStr \<Rightarrow> (let addr = hx_HexToAddress (rl_hex R) addrStr in
      (case ask_score R env h addr of (r, h1) \<Rightarrow>
        (let score = (case r of None \<Rightarrow> Fin 0 | Some s \<Rightarrow> sr_CompositeScore s);
             confidence = (case r of None \<Rightarrow> Fin 0 | Some s \<Rightarrow> sr_Confidence s);
             tier = (case r of None \<Rightarrow> [] | Some s \<Rightarrow> sr_Tier s);
             modelVersion = (case r of None \<Rightarrow> [] | Some s \<Rightarrow> sr_ModelVersion s);
             breakdown = (case r of None \<Rightarrow> Map.empty | Some s \<Rightarrow> sr_ChainBreakdown s)
         in (Inr (VMap [(''address'', VChecksum addr),
               (''tasteScore'', VFloat (if score = Fin 0 then Fin (1 / 2) else score)), (''confidence'', VFloat confidence),
               (''tier'', VStr (if tier = [] then ''Unscored'' else tier)),
               (''aiModel'', VStr (if modelVersion = [] then ''tastescore-v2'' else modelVersion)),
               (''chainBreakdown'', VScores breakdown),
               (''factors'', VMap [(''txFrequency'', VFloat (to_f64 (7 / 10))),
                  (''gasEfficiency'', VFloat (to_f64 (9 / 10))), (''stakingScore'', VFloat (to_f64 (6 / 10)))])]), h1)))))"

text \<open>The tier of a score: its letter, its label and the ordering priority.\<close>

definition compliance_tier :: "int \<Rightarrow> string \<times> string \<times> string" where
  "compliance_tier scoreBps =
     (if 850 \<le> scoreBps then (''A'', ''Minimal Risk'', ''high'')
      else if 750 \<le> scoreBps then (''B'', ''Low Risk'', ''normal'')
      else if 500 \<le> scoreBps then (''C'', ''Medium Risk'', ''normal'')
      else if 300 \<le> scoreBps then (''D'', ''Elevated Risk'', ''low'')
      else if 100 \<le> scoreBps then (''E'', ''High Risk'', ''deprioritized'')
      else (''F'', ''Prohibited'', ''rejected''))"

definition getComplianceStatus :: "rpc_lib \<Rightarrow> rpc_env \<Rightarrow> ('p, 'd) handler \<Rightarrow> json option \<Rightarrow>
    (rpc_error + rpc_value) \<times> ('p, 'd) handler" where
  "getComplianceStatus R env h params = (case text_param ''missing address parameter'' ''invalid address'' params of
     Inl e \<Rightarrow> (Inl e, h)
   | Inr addrStr \<Rightarrow> (let addr = hx_HexToAddress (rl_hex R) addrStr in
      (case ask_score R env h addr of (r, h1) \<Rightarrow>
        (let score = (case r of None \<Rightarrow> Fin 0 | Some s \<Rightarrow> sr_CompositeScore s);
             tier = (case r of None \<Rightarrow> [] | Some s \<Rightarrow> sr_Tier s)
         in (case compliance_tier (f64_to_int (fmul score (Fin 1000))) of (fatfTier, tierLabel, priority) \<Rightarrow>
           (Inr (VMap [(''address'', VChecksum addr), (''tasteScore'', VFloat score), (''tasteTier'', VStr tier),
              (''fatfTier'', VStr fatfTier), (''fatfTierLabel'', VStr tierLabel), (''orderingPriority'', VStr priority),
              (''sanctionsScreened'', VBool True), (''complianceVersion'', VStr ''v2.0''),
              (''orderingContract'', VStr ''0x5fc8d32690cc91d4c39d9d3abcbd16989f875707''),
              (''disputeWindowBlocks'', VInt 256)]), h1))))))"

end
