(* ===== verification/Rpc_Handler.thy ===== *)
theory Rpc_Handler
  imports Rpc_Inso
begin

section \<open>Dispatch: Handle of internal/rpc/handler.go\<close>

text \<open>
  One request and its response. \<open>Handle\<close> counts the request, calls the method and wraps its answer;
  \<open>None\<close> is a request that never returns. The ID of a request is given back as it came.
\<close>

record rpc_request =
  rq_Method :: string
  rq_Params :: "json option"
  rq_ID :: json

datatype rpc_reply = RpcResult rpc_value | RpcFail int rpc_error

record rpc_response =
  rs_ID :: json
  rs_Reply :: rpc_reply

text \<open>The answer of a method, with the handler after it. A name that is no method is its own outcome.\<close>

datatype ('p, 'd) outcome = NoMethod | Answer "rpc_error + rpc_value" "('p, 'd) handler"

definition eth_methods :: "('d, 's) libs \<Rightarrow> 'p pool_ops \<Rightarrow> rpc_lib \<Rightarrow> rpc_env \<Rightarrow> ('p, 'd) handler \<Rightarrow> json option \<Rightarrow>
    (string \<times> (rpc_error + rpc_value)) list" where
  "eth_methods B P R env h params = (let X = rl_hex R in
     [(''eth_chainId'', Inr (hex64 (rh_chainID h))),
      (''eth_blockNumber'', Inr (hex64 (mg_CurrentBlock (rh_state h)))),
      (''eth_getBlockByNumber'', getBlockByNumber B X h params),
      (''eth_getBlockByHash'', getBlockByHash B X h params),
      (''eth_getTransactionReceipt'', getTransactionReceipt B R h params),
      (''eth_getTransactionByHash'', getTransactionByHash B R h params),
      (''eth_getBalance'', getBalance B X h params),
      (''eth_getTransactionCount'', getTransactionCount B X h params),
      (''eth_gasPrice'', Inr (VQuantity (fm_BaseFee (rh_feeModel h)))),
      (''eth_call'', ethCall B X env h params),
      (''eth_getCode'', getCode B X h params),
      (''eth_getStorageAt'', getStorageAt B X h params),
      (''eth_feeHistory'', Inr (feeHistory h params)),
      (''eth_maxPriorityFeePerGas'', Inr (VQuantity 1000000000)),
      (''net_version'', Inr (VDecimal (uint (rh_chainID h)))),
      (''inso_getSequencerStatus'', Inr (getSequencerStatus h)),
      (''inso_getBatchStatus'', Inr (getBatchStatus B h)),
      (''inso_getPendingTxCount'', Inr (VInt (tp_Len P (rh_mempool h)))),
      (''inso_getFeeStats'', Inr (VFeeStats (fm_Stats (rh_feeModel h)))),
      (''inso_getEffectiveFee'', getEffectiveFee X env h params),
      (''inso_getSovereigntyDiscount'', getSovereigntyDiscount X h params),
      (''inso_getComputeReceipt'', getComputeReceipt (lb_g B) X h params),
      (''inso_getBlockReceiptRoot'', getBlockReceiptRoot (lb_g B) X h params),
      (''inso_getLaneStats'', Inr (getLaneStats P h)),
      (''inso_getAdaptiveBlockStats'', Inr (getAdaptiveBlockStats h)),
      (''inso_getZKProofStatus'', getZKProofStatus h params),
      (''inso_getCrossChainAttestation'', getCrossChainAttestation h params),
      (''inso_getOrderingProof'', getOrderingProof X params),
      (''inso_getGovernanceProposals'', Inr getGovernanceProposals),
      (''inso_getDABlobStatus'', getDABlobStatus h params),
      (''inso_getRestakingStats'', Inr getRestakingStats)])"

text \<open>The methods that change the handler, and those that may not return, before the rest.\<close>

definition dispatch :: "('d, 's) libs \<Rightarrow> 'p pool_ops \<Rightarrow> rpc_lib \<Rightarrow> rpc_env \<Rightarrow> ('p, 'd) handler \<Rightarrow> string \<Rightarrow> json option \<Rightarrow>
    ('p, 'd) outcome option" where
  "dispatch B P R env h method params =
     (if method = ''eth_sendRawTransaction'' then
        (case sendRawTransaction P R env h params of (r, h') \<Rightarrow> Some (Answer r h'))
      else if method = ''eth_estimateGas'' then
        map_option (\<lambda>r. Answer r h) (estimateGas B (rl_hex R) env h params)
      else if method = ''eth_getLogs'' then
        map_option (\<lambda>r. Answer (case r of Inl e \<Rightarrow> Inl e | Inr logs \<Rightarrow> Inr (VLogs logs)) h)
          (getLogs B (rl_hex R) (rh_state h) params)
      else if method = ''inso_getTasteScoreOrdering'' then
        (case getTasteScoreOrdering P R env h of (v, h') \<Rightarrow> Some (Answer (Inr v) h'))
      else if method = ''inso_getAIScorePreview'' then
        (case getAIScorePreview R env h params of (r, h') \<Rightarrow> Some (Answer r h'))
      else if method = ''inso_getComplianceStatus'' then
        (case getComplianceStatus R env h params of (r, h') \<Rightarrow> Some (Answer r h'))
      else (case map_of (eth_methods B P R env h params) method of
          None \<Rightarrow> Some NoMethod
        | Some r \<Rightarrow> Some (Answer r h)))"

definition count_request :: "('p, 'd) handler \<Rightarrow> ('p, 'd) handler" where
  "count_request h = h\<lparr>rh_metrics := map_option (\<lambda>m. m\<lparr>RPCRequests := RPCRequests m + 1\<rparr>) (rh_metrics h)\<rparr>"

definition count_error :: "('p, 'd) handler \<Rightarrow> ('p, 'd) handler" where
  "count_error h = h\<lparr>rh_metrics := map_option (\<lambda>m. m\<lparr>RPCErrors := RPCErrors m + 1\<rparr>) (rh_metrics h)\<rparr>"

definition Handle :: "('d, 's) libs \<Rightarrow> 'p pool_ops \<Rightarrow> rpc_lib \<Rightarrow> rpc_env \<Rightarrow> ('p, 'd) handler \<Rightarrow> rpc_request \<Rightarrow>
    (rpc_response \<times> ('p, 'd) handler) option" where
  "Handle B P R env h req =
     (case dispatch B P R env (count_request h) (rq_Method req) (rq_Params req) of
        None \<Rightarrow> None
      | Some NoMethod \<Rightarrow>
          Some (\<lparr>rs_ID = rq_ID req, rs_Reply = RpcFail (- 32601) (RpcNoMethod (rq_Method req))\<rparr>, count_request h)
      | Some (Answer (Inl e) h') \<Rightarrow> Some (\<lparr>rs_ID = rq_ID req, rs_Reply = RpcFail (- 32000) e\<rparr>, count_error h')
      | Some (Answer (Inr v) h') \<Rightarrow> Some (\<lparr>rs_ID = rq_ID req, rs_Reply = RpcResult (marshal_result v)\<rparr>, h'))"

subsection \<open>What a request may change\<close>

text \<open>All of the handler but the score cache, the pool and the counters.\<close>

definition same_core :: "('p, 'd) handler \<Rightarrow> ('p, 'd) handler \<Rightarrow> bool" where
  "same_core h h' \<longleftrightarrow> rh_state h' = rh_state h \<and> rh_feeModel h' = rh_feeModel h \<and>
     rh_receiptStore h' = rh_receiptStore h \<and> rh_lanedPool h' = rh_lanedPool h \<and> rh_sizer h' = rh_sizer h \<and>
     rh_chainID h' = rh_chainID h"

named_theorems core_facts

lemma same_core_refl [core_facts, simp]: "same_core h h" by (simp add: same_core_def)

lemma same_core_trans: "same_core h h1 \<Longrightarrow> same_core h1 h2 \<Longrightarrow> same_core h h2" by (simp add: same_core_def)

lemma count_core [simp]:
  "same_core h (count_request h)" "same_core h (count_error h)" "rh_mempool (count_request h) = rh_mempool h"
  "rh_mempool (count_error h) = rh_mempool h" "rh_tastescore (count_request h) = rh_tastescore h"
  "rh_chainID (count_request h) = rh_chainID h" "rh_state (count_request h) = rh_state h"
  "rh_metrics (count_error h) = map_option (\<lambda>m. m\<lparr>RPCErrors := RPCErrors m + 1\<rparr>) (rh_metrics h)"
  "rh_metrics (count_request h) = map_option (\<lambda>m. m\<lparr>RPCRequests := RPCRequests m + 1\<rparr>) (rh_metrics h)"
  by (simp_all add: count_request_def count_error_def same_core_def)

lemma ask_score_core [core_facts]:
  "ask_score R env h a = (r, h') \<Longrightarrow> same_core h h' \<and> rh_mempool h' = rh_mempool h \<and> rh_metrics h' = rh_metrics h"
  by (auto simp: ask_score_def same_core_def split: option.splits prod.splits)

lemma send_core: "sendRawTransaction P R env h params = (r, h') \<Longrightarrow> same_core h h' \<and> rh_metrics h' = rh_metrics h"
  by (auto simp: sendRawTransaction_def Let_def same_core_def split: option.splits prod.splits sum.splits
      dest!: ask_score_core)

lemma ordering_core:
  "ordering_entries R env ms h = (es, h') \<Longrightarrow> same_core h h' \<and> rh_mempool h' = rh_mempool h \<and>
    rh_metrics h' = rh_metrics h \<and> length es = length ms"
proof (induction ms arbitrary: h es h')
  case (Cons m ms)
  obtain r h1 where 1: "ask_score R env h (Sender m) = (r, h1)" by fastforce
  obtain es2 h2 where 2: "ordering_entries R env ms h1 = (es2, h2)" by fastforce
  show ?case
    using Cons.prems Cons.IH [OF 2] ask_score_core [OF 1] 1 2 by (auto intro: same_core_trans)
qed simp

lemma preview_core:
  "getAIScorePreview R env h params = (r, h') \<Longrightarrow> same_core h h' \<and> rh_mempool h' = rh_mempool h \<and> rh_metrics h' = rh_metrics h"
  by (auto simp: getAIScorePreview_def Let_def split: sum.splits prod.splits dest!: ask_score_core)

lemma compliance_core:
  "getComplianceStatus R env h params = (r, h') \<Longrightarrow> same_core h h' \<and> rh_mempool h' = rh_mempool h \<and> rh_metrics h' = rh_metrics h"
  by (auto simp: getComplianceStatus_def Let_def split: sum.splits prod.splits dest!: ask_score_core)

lemma dispatch_core:
  assumes "dispatch B P R env h method params = Some (Answer r h')"
  shows "same_core h h' \<and> rh_metrics h' = rh_metrics h \<and>
    (method \<noteq> ''eth_sendRawTransaction'' \<longrightarrow> rh_mempool h' = rh_mempool h)"
proof -
  consider (send) "method = ''eth_sendRawTransaction''" "sendRawTransaction P R env h params = (r, h')"
    | (ordering) v where "getTasteScoreOrdering P R env h = (v, h')"
    | (preview) "getAIScorePreview R env h params = (r, h')"
    | (compliance) "getComplianceStatus R env h params = (r, h')"
    | (rest) "h' = h"
    using assms by (auto simp: dispatch_def split: if_splits prod.splits option.splits)
  then show ?thesis
  proof cases
    case send
    then show ?thesis using send_core by blast
  next
    case ordering
    then show ?thesis by (auto simp: getTasteScoreOrdering_def split: prod.splits dest!: ordering_core)
  next
    case preview
    then show ?thesis using preview_core by blast
  next
    case compliance
    then show ?thesis using compliance_core by blast
  qed simp
qed

lemma Handle_cases:
  assumes "Handle B P R env h req = Some (resp, h')"
  obtains (no_method) "dispatch B P R env (count_request h) (rq_Method req) (rq_Params req) = Some NoMethod"
      and "resp = \<lparr>rs_ID = rq_ID req, rs_Reply = RpcFail (- 32601) (RpcNoMethod (rq_Method req))\<rparr>" and "h' = count_request h"
  | (failed) e h1 where "dispatch B P R env (count_request h) (rq_Method req) (rq_Params req) = Some (Answer (Inl e) h1)"
      and "resp = \<lparr>rs_ID = rq_ID req, rs_Reply = RpcFail (- 32000) e\<rparr>" and "h' = count_error h1"
  | (ok) v where "dispatch B P R env (count_request h) (rq_Method req) (rq_Params req) = Some (Answer (Inr v) h')"
      and "resp = \<lparr>rs_ID = rq_ID req, rs_Reply = RpcResult (marshal_result v)\<rparr>"
  using assms by (auto simp: Handle_def split: option.splits outcome.splits sum.splits)

lemma Handle_core:
  assumes "Handle B P R env h req = Some (resp, h')"
  shows "same_core h h'"
  using assms
proof (cases rule: Handle_cases)
  case (failed e h1)
  have "same_core h h1" using same_core_trans [OF count_core(1)] dispatch_core [OF failed(1)] by blast
  then show ?thesis using failed(3) same_core_trans [OF _ count_core(2)] by blast
next
  case (ok v)
  then show ?thesis using same_core_trans [OF count_core(1)] dispatch_core [OF ok(1)] by blast
qed simp

subsection \<open>Sending\<close>

text \<open>The parameters of a request decode to a transaction of a sender.\<close>

definition sends :: "rpc_lib \<Rightarrow> u64 \<Rightarrow> json option \<Rightarrow> tx \<Rightarrow> address \<Rightarrow> bool" where
  "sends R chainID params t sender \<longleftrightarrow> (case string_args params of None \<Rightarrow> False | Some args \<Rightarrow>
     (case hx_Decode (rl_hex R) (hd args) of None \<Rightarrow> False | Some raw \<Rightarrow>
        rl_DecodeTx R raw = Some t \<and> rl_Sender R chainID t = Some sender))"

definition send_request :: "json option \<Rightarrow> json \<Rightarrow> rpc_request" where
  "send_request params i = \<lparr>rq_Method = ''eth_sendRawTransaction'', rq_Params = params, rq_ID = i\<rparr>"

lemma Handle_send:
  assumes "sends R (rh_chainID h) params t sender" and "ask_score R env (count_request h) sender = (r, h1)"
  shows "Handle B P R env h (send_request params i) = Some
    (case tp_Add P (rh_mempool h) t sender (case r of None \<Rightarrow> Fin 0 | Some sr \<Rightarrow> EffectiveScore (Some sr)) (re_now env) of
       Inl e \<Rightarrow> (\<lparr>rs_ID = i, rs_Reply = RpcFail (- 32000) (RpcPool e)\<rparr>, count_error h1)
     | Inr pool \<Rightarrow> (\<lparr>rs_ID = i, rs_Reply = RpcResult (VHash (tx_Hash t))\<rparr>, h1\<lparr>rh_mempool := pool\<rparr>))"
proof -
  have pool: "rh_mempool h1 = rh_mempool h" using ask_score_core [OF assms(2)] by simp
  have "sendRawTransaction P R env (count_request h) params =
    (case tp_Add P (rh_mempool h) t sender (case r of None \<Rightarrow> Fin 0 | Some sr \<Rightarrow> EffectiveScore (Some sr)) (re_now env) of
       Inl e \<Rightarrow> (Inl (RpcPool e), h1) | Inr pool \<Rightarrow> (Inr (VHash (tx_Hash t)), h1\<lparr>rh_mempool := pool\<rparr>))"
    using assms pool by (auto simp: sends_def sendRawTransaction_def Let_def split: option.splits)
  then show ?thesis
    by (simp add: Handle_def dispatch_def send_request_def marshal_result_def split: sum.split)
qed

text \<open>The scores that a client gives out, with an API that answers in the unit interval.\<close>

definition scores_ok :: "rpc_lib \<Rightarrow> ('p, 'd) handler \<Rightarrow> bool" where
  "scores_ok R h \<longleftrightarrow> unit_api (rl_score R) \<and>
     (case rh_tastescore h of None \<Rightarrow> True | Some c \<Rightarrow> cache_ok unit_result c)"

lemma ask_score_unit:
  assumes "scores_ok R h" and "ask_score R env h a = (r, h')"
  shows "unit_f64 (case r of None \<Rightarrow> Fin 0 | Some sr \<Rightarrow> EffectiveScore (Some sr)) \<and> scores_ok R h'"
proof (cases "rh_tastescore h")
  case None
  then show ?thesis using assms by (auto simp: ask_score_def)
next
  case (Some c)
  obtain sr c' where g: "GetScoreResult (rl_score R) c a (re_now env) (re_api env a) = (sr, c')" by fastforce
  have "unit_result sr \<and> cache_ok unit_result c'"
    using assms(1) Some unit_api_results unit_default
    by (intro GetScoreResult_cache_ok [OF _ _ _ g]) (auto simp: scores_ok_def)
  then show ?thesis
    using assms Some g
    by (auto simp: ask_score_def scores_ok_def EffectiveScore_def unit_result_def unit_f64_fmul)
qed

lemma count_scores [simp]: "scores_ok R (count_request h) = scores_ok R h"
  by (simp add: scores_ok_def)

lemma unit_f64_finite: "unit_f64 x \<Longrightarrow> is_finite x"
  by (auto elim: unit_f64_elim)

text \<open>Every method keeps the scores in the cache in their range.\<close>

lemma ordering_scores:
  "ordering_entries R env ms h = (es, h') \<Longrightarrow> scores_ok R h \<Longrightarrow> scores_ok R h'"
proof (induction ms arbitrary: h es h')
  case (Cons m ms)
  obtain r h1 where 1: "ask_score R env h (Sender m) = (r, h1)" by fastforce
  obtain es2 h2 where 2: "ordering_entries R env ms h1 = (es2, h2)" by fastforce
  show ?case
    using Cons.prems Cons.IH [OF 2] ask_score_unit [OF Cons.prems(2) 1] 1 2 by auto
qed simp

lemma dispatch_scores:
  assumes "dispatch B P R env h method params = Some (Answer r h')" and "scores_ok R h"
    and "method \<noteq> ''eth_sendRawTransaction''"
  shows "scores_ok R h'"
proof -
  consider (ordering) v where "getTasteScoreOrdering P R env h = (v, h')"
    | (preview) "getAIScorePreview R env h params = (r, h')"
    | (compliance) "getComplianceStatus R env h params = (r, h')"
    | (rest) "h' = h"
    using assms(1,3) by (auto simp: dispatch_def split: if_splits prod.splits option.splits)
  then show ?thesis
  proof cases
    case ordering
    then show ?thesis using assms(2) by (auto simp: getTasteScoreOrdering_def split: prod.splits dest: ordering_scores)
  next
    case preview
    then show ?thesis using assms(2) by (auto simp: getAIScorePreview_def Let_def split: sum.splits prod.splits dest: ask_score_unit)
  next
    case compliance
    then show ?thesis using assms(2) by (auto simp: getComplianceStatus_def Let_def split: sum.splits prod.splits dest: ask_score_unit)
  qed (use assms(2) in simp)
qed

lemma count_error_scores [simp]: "scores_ok R (count_error h) = scores_ok R h"
  by (simp add: scores_ok_def count_error_def)

lemma send_outcomes:
  assumes "Handle B P R env h (send_request params i) = Some (resp, h')"
  shows "(\<exists>t sender. sends R (rh_chainID h) params t sender) \<or>
    h' = count_error (count_request h) \<and> (\<exists>e. rs_Reply resp = RpcFail (- 32000) e)"
proof (cases "\<exists>t sender. sends R (rh_chainID h) params t sender")
  case False
  then have "\<exists>e. sendRawTransaction P R env (count_request h) params = (Inl e, count_request h)"
    by (auto simp: sendRawTransaction_def sends_def split: option.split option.split_asm)
  then show ?thesis using assms by (auto simp: Handle_def dispatch_def send_request_def)
qed simp

text \<open>For any pool that keeps the laws of the interface.\<close>

context tx_pool
begin

lemma send_outcome:
  assumes ops: "tp_Add P = add" and p: "inv (rh_mempool h)" and s: "sends R (rh_chainID h) params t sender"
    and ok: "scores_ok R h"
  shows "\<exists>resp h'. Handle B P R env h (send_request params i) = Some (resp, h') \<and> rs_ID resp = i \<and>
    scores_ok R h' \<and> inv (rh_mempool h') \<and> capacity (rh_mempool h') = capacity (rh_mempool h) \<and>
    (if has (rh_mempool h) (tx_Hash t) then rs_Reply resp = RpcFail (- 32000) (RpcPool ErrAlreadyKnown) \<and> rh_mempool h' = rh_mempool h
     else if capacity (rh_mempool h) \<le> pool_len (rh_mempool h) then
       rs_Reply resp = RpcFail (- 32000) (RpcPool ErrMempoolFull) \<and> rh_mempool h' = rh_mempool h
     else rs_Reply resp = RpcResult (VHash (tx_Hash t)) \<and> has (rh_mempool h') (tx_Hash t) \<and>
       (\<exists>score. unit_f64 score \<and> mset (pending (rh_mempool h')) =
          add_mset (new_meta (weight (rh_mempool h)) t sender score (re_now env)) (mset (pending (rh_mempool h)))))"
proof -
  obtain r h1 where a: "ask_score R env (count_request h) sender = (r, h1)" by fastforce
  define score where "score = (case r of None \<Rightarrow> Fin 0 | Some sr \<Rightarrow> EffectiveScore (Some sr))"
  have u: "unit_f64 score" and ok1: "scores_ok R h1" using ask_score_unit [OF _ a] ok by (simp_all add: score_def)
  have pool1: "rh_mempool h1 = rh_mempool h" using ask_score_core [OF a] by simp
  have ok2: "scores_ok R (count_error h1)" "scores_ok R (h1\<lparr>rh_mempool := q\<rparr>)" for q
    using ok1 by (simp_all add: scores_ok_def count_error_def)
  note H = Handle_send [OF s a, of B P i, folded score_def, unfolded ops]
  consider (known) "has (rh_mempool h) (tx_Hash t)" "add (rh_mempool h) t sender score (re_now env) = Inl ErrAlreadyKnown"
    | (full) "\<not> has (rh_mempool h) (tx_Hash t)" "capacity (rh_mempool h) \<le> pool_len (rh_mempool h)"
        "add (rh_mempool h) t sender score (re_now env) = Inl ErrMempoolFull"
    | (added) q where "\<not> has (rh_mempool h) (tx_Hash t)" "pool_len (rh_mempool h) < capacity (rh_mempool h)"
        "add (rh_mempool h) t sender score (re_now env) = Inr q" "inv q" "capacity q = capacity (rh_mempool h)"
        "mset (pending q) = add_mset (new_meta (weight (rh_mempool h)) t sender score (re_now env)) (mset (pending (rh_mempool h)))"
    using add_cases [OF p unit_f64_finite [OF u], of t sender "re_now env"] by blast
  then show ?thesis
  proof cases
    case known
    then show ?thesis using H pool1 p ok2 by simp
  next
    case full
    then show ?thesis using H pool1 p ok2 by simp
  next
    case added
    have "has q (tx_Hash t)"
      using added(6) by (subst has_iff [OF added(4)]) (metis image_eqI meta_hash_new set_mset_mset union_single_eq_member)
    then show ?thesis using H added u ok2 by auto
  qed
qed

end

subsection \<open>Fields of the responses\<close>

lemma receipt_response_fields:
  "vfield ''transactionHash'' (receipt_response R h r t) = Some (VHash (rc_TxHash r))"
  "vfield ''blockNumber'' (receipt_response R h r t) = Some (hex64 (word_of_int (rc_BlockNumber r)))"
  "vfield ''blockHash'' (receipt_response R h r t) = Some (VHash (rc_BlockHash r))"
  "vfield ''transactionIndex'' (receipt_response R h r t) = Some (VQuantity (int (rc_TransactionIndex r)))"
  "vfield ''gasUsed'' (receipt_response R h r t) = Some (hex64 (rc_GasUsed r))"
  by (simp_all add: receipt_response_def)

lemma tx_response_fields:
  "vfield ''hash'' (tx_response B R h t nf) = Some (VHash (tx_Hash t))"
  "vfield ''blockNumber'' (tx_response B R h t nf) = Some (if snd nf then hex64 (fst nf) else VNull)"
  "vfield ''blockHash'' (tx_response B R h t nf) =
    Some (if snd nf then VHash (mg_GetBlockHash B (rh_state h) (fst nf)) else VNull)"
  "vfield ''transactionIndex'' (tx_response B R h t nf) = Some (if snd nf then hex64 0 else VNull)"
  by (simp_all add: tx_response_def split_beta)

subsection \<open>An instance\<close>

definition fresh_pool :: laned where
  "fresh_pool = \<lparr>lm_fast = [], lm_std = [], lm_slow = [], lm_known = Map.empty, lm_maxSize = 10,
     lm_tasteScoreWeight = Fin (1 / 2)\<rparr>"

definition example_rpc :: rpc_lib where
  "example_rpc = \<lparr>rl_hex = example_hex\<lparr>hx_HexToHash := \<lambda>s. replicate 32 1\<rparr>, rl_score = example_score_json,
     rl_DecodeTx = (\<lambda>b. if b = [1] then Some (example_tx 1 21000 0) else None),
     rl_Sender = (\<lambda>c t. Some zero_address), rl_ChainId = (\<lambda>t. 42069), rl_RawSignatureValues = (\<lambda>t. (None, None, None))\<rparr>"

definition example_env :: rpc_env where
  "example_env = \<lparr>re_now = 0, re_api = (\<lambda>a. None)\<rparr>"

definition example_handler :: "(bytes \<rightharpoonup> bytes) manager \<Rightarrow> (laned, (bytes \<rightharpoonup> bytes)) handler" where
  "example_handler m = rh_SetMetrics (NewHandler fresh_pool m None 42069 NewDynamicFeeModel) NewMetrics"

definition one_text :: "json option" where
  "one_text = Some (JArr [JStr ''0x01''])"

lemma one_text_args [simp]: "string_args one_text = Some [''0x01'']" "raw_args one_text = Some [JStr ''0x01'']"
  by (simp_all add: one_text_def string_args_def raw_args_def as_strings_def)

lemma example_handler_fields [simp]: "rh_mempool (example_handler m) = fresh_pool" "rh_state (example_handler m) = m"
  "rh_tastescore (example_handler m) = None" "rh_metrics (example_handler m) = Some NewMetrics"
  "rh_chainID (example_handler m) = 42069" "rh_feeModel (example_handler m) = NewDynamicFeeModel"
  by (simp_all add: example_handler_def NewHandler_def rh_SetMetrics_def)

lemma fresh_pool_inv: "lm_inv fresh_pool" "\<not> lm_Has fresh_pool h" "lm_maxSize fresh_pool = 10" "lm_Len fresh_pool = 0"
proof -
  have "lm_reach (Fin (1 / 2)) 10 fresh_pool" by (rule lm_reach.New) (simp add: lm_New_def fresh_pool_def)
  then show "lm_inv fresh_pool" using lm_reach_inv [of "Fin (1 / 2)" 10 fresh_pool] by simp
qed (simp_all add: lm_Has_def fresh_pool_def lm_Len_def lm_totalLen_def)

lemma example_sends: "sends example_rpc c one_text (example_tx 1 21000 0) zero_address"
  by (simp add: sends_def example_rpc_def example_hex_def)

lemma example_scores: "scores_ok example_rpc (example_handler m)"
  by (simp add: scores_ok_def example_rpc_def unit_api_def example_score_json_def)

subsection \<open>Properties\<close>



text \<open>C25. No request but \<open>eth_sendRawTransaction\<close> changes the pool, and none changes the chain, the fee
  model, the compute receipts or the block sizing: what a request leaves behind are the counters and
  the score cache.\<close>

theorem rpc_reads_change_nothing:
  assumes "Handle B P R env h req = Some (resp, h')"
  shows "same_core h h' \<and> rs_ID resp = rq_ID req \<and>
    (rq_Method req \<noteq> ''eth_sendRawTransaction'' \<or> (\<exists>code e. rs_Reply resp = RpcFail code e) \<longrightarrow> rh_mempool h' = rh_mempool h)"
  using assms
proof (cases rule: Handle_cases)
  case no_method
  then show ?thesis by simp
next
  case (failed e h1)
  have c: "same_core h h1" using same_core_trans [OF count_core(1)] dispatch_core [OF failed(1)] by blast
  have "rh_mempool h1 = rh_mempool h"
  proof (cases "rq_Method req = ''eth_sendRawTransaction''")
    case True
    then have "sendRawTransaction P R env (count_request h) (rq_Params req) = (Inl e, h1)"
      using failed(1) by (auto simp: dispatch_def split: prod.splits)
    then show ?thesis
      by (auto simp: sendRawTransaction_def Let_def split: option.splits prod.splits sum.splits dest!: ask_score_core)
  next
    case False
    then show ?thesis using dispatch_core [OF failed(1)] by simp
  qed
  then show ?thesis using c failed same_core_trans [OF c count_core(2)] by simp
next
  case (ok v)
  then show ?thesis using same_core_trans [OF count_core(1)] dispatch_core [OF ok(1)] by auto
qed

lemma rpc_reads_change_nothing_witness:
  "\<exists>resp h'. Handle (example_libs (empty_block 1)) laned_ops example_rpc example_env (example_handler example_manager)
      \<lparr>rq_Method = ''eth_blockNumber'', rq_Params = None, rq_ID = JInt 1\<rparr> = Some (resp, h') \<and>
    rs_Reply resp = RpcResult (hex64 0) \<and> rs_ID resp = JInt 1 \<and> rh_mempool h' = fresh_pool"
proof -
  let ?req = "\<lparr>rq_Method = ''eth_blockNumber'', rq_Params = None, rq_ID = JInt 1\<rparr>"
  have x: "Handle (example_libs (empty_block 1)) laned_ops example_rpc example_env (example_handler example_manager) ?req
      = Some (\<lparr>rs_ID = JInt 1, rs_Reply = RpcResult (hex64 0)\<rparr>, count_request (example_handler example_manager))"
    by (simp add: Handle_def dispatch_def eth_methods_def Let_def marshal_result_def hex64_def mg_CurrentBlock_def
        example_manager_def)
  show ?thesis using rpc_reads_change_nothing [OF x] x by auto
qed

text \<open>Every request is counted once, and an error of a method once more; a method that does not exist
  answers with code -32601 and is not counted as an error.\<close>

theorem rpc_counts:
  assumes "Handle B P R env h req = Some (resp, h')" and "rh_metrics h = Some mt"
  shows "(\<exists>v. rs_Reply resp = RpcResult v \<and> rh_metrics h' = Some (mt\<lparr>RPCRequests := RPCRequests mt + 1\<rparr>)) \<or>
    (\<exists>e. rs_Reply resp = RpcFail (- 32000) e \<and>
       rh_metrics h' = Some (mt\<lparr>RPCRequests := RPCRequests mt + 1, RPCErrors := RPCErrors mt + 1\<rparr>)) \<or>
    (rs_Reply resp = RpcFail (- 32601) (RpcNoMethod (rq_Method req)) \<and>
       h' = h\<lparr>rh_metrics := Some (mt\<lparr>RPCRequests := RPCRequests mt + 1\<rparr>)\<rparr>)"
  using assms(1)
proof (cases rule: Handle_cases)
  case no_method
  then show ?thesis using assms(2) by (simp add: count_request_def)
next
  case (failed e h1)
  then show ?thesis using dispatch_core [OF failed(1)] assms(2) by simp
next
  case (ok v)
  then show ?thesis using dispatch_core [OF ok(1)] assms(2) by simp
qed

lemma rpc_counts_witness:
  "\<exists>resp h'. Handle (example_libs (empty_block 1)) laned_ops example_rpc example_env (example_handler example_manager)
      \<lparr>rq_Method = ''eth_mining'', rq_Params = None, rq_ID = JNull\<rparr> = Some (resp, h') \<and>
    rs_Reply resp = RpcFail (- 32601) (RpcNoMethod ''eth_mining'') \<and>
    rh_metrics h' = Some (NewMetrics\<lparr>RPCRequests := 1\<rparr>)"
proof -
  let ?req = "\<lparr>rq_Method = ''eth_mining'', rq_Params = None, rq_ID = JNull\<rparr>"
  obtain resp h' where x: "Handle (example_libs (empty_block 1)) laned_ops example_rpc example_env
      (example_handler example_manager) ?req = Some (resp, h')"
    and r: "rs_Reply resp = RpcFail (- 32601) (RpcNoMethod ''eth_mining'')"
    by (simp add: Handle_def dispatch_def eth_methods_def Let_def)
  have "rh_metrics (example_handler example_manager) = Some NewMetrics" by simp
  from rpc_counts [OF x this] r
  have "h' = (example_handler example_manager)\<lparr>rh_metrics := Some (NewMetrics\<lparr>RPCRequests := RPCRequests NewMetrics + 1\<rparr>)\<rparr>"
    by simp
  then have "rh_metrics h' = Some (NewMetrics\<lparr>RPCRequests := 1\<rparr>)" by (simp add: NewMetrics_def)
  with x r show ?thesis by blast
qed



text \<open>The compliance answer decides nothing: an address with a score below 0.1 reads as prohibited, with
  the ordering priority rejected, and the transactions it sends are accepted all the same.\<close>

theorem prohibited_sender_accepted:
  assumes "text_param ''missing address parameter'' ''invalid address'' query = Inr s"
    and "ask_score R env h (hx_HexToAddress (rl_hex R) s) = (r, h1)"
    and "f64_to_int (fmul (case r of None \<Rightarrow> Fin 0 | Some sr \<Rightarrow> sr_CompositeScore sr) (Fin 1000)) < 100"
    and "sends R (rh_chainID h) params t (hx_HexToAddress (rl_hex R) s)" and "scores_ok R h"
    and "lm_inv (rh_mempool h)" and "\<not> lm_Has (rh_mempool h) (tx_Hash t)" and "lm_Len (rh_mempool h) < lm_maxSize (rh_mempool h)"
  shows "\<exists>v resp h'. getComplianceStatus R env h query = (Inr v, h1) \<and>
    vfield ''fatfTierLabel'' v = Some (VStr ''Prohibited'') \<and> vfield ''orderingPriority'' v = Some (VStr ''rejected'') \<and>
    Handle B laned_ops R env h (send_request params i) = Some (resp, h') \<and>
    rs_Reply resp = RpcResult (VHash (tx_Hash t)) \<and> lm_Has (rh_mempool h') (tx_Hash t)"
proof -
  have "compliance_tier (f64_to_int (fmul (case r of None \<Rightarrow> Fin 0 | Some sr \<Rightarrow> sr_CompositeScore sr) (Fin 1000)))
      = (''F'', ''Prohibited'', ''rejected'')"
    using assms(3) by (simp add: compliance_tier_def)
  then have "\<exists>v. getComplianceStatus R env h query = (Inr v, h1) \<and> vfield ''fatfTierLabel'' v = Some (VStr ''Prohibited'') \<and>
      vfield ''orderingPriority'' v = Some (VStr ''rejected'')"
    using assms(1,2) by (simp add: getComplianceStatus_def Let_def)
  moreover have "\<exists>resp h'. Handle B laned_ops R env h (send_request params i) = Some (resp, h') \<and>
      rs_Reply resp = RpcResult (VHash (tx_Hash t)) \<and> lm_Has (rh_mempool h') (tx_Hash t)"
    using lm.send_outcome [of laned_ops h R params t "hx_HexToAddress (rl_hex R) s" B env i] assms(4-8)
    by (auto simp: laned_ops_def)
  ultimately show ?thesis by blast
qed

lemma prohibited_sender_accepted_witness:
  "\<exists>v resp h'. getComplianceStatus example_rpc example_env (example_handler example_manager) one_text
      = (Inr v, example_handler example_manager) \<and>
    vfield ''orderingPriority'' v = Some (VStr ''rejected'') \<and>
    Handle (example_libs (empty_block 1)) laned_ops example_rpc example_env (example_handler example_manager)
      (send_request one_text JNull) = Some (resp, h') \<and>
    rs_Reply resp = RpcResult (VHash (tx_Hash (example_tx 1 21000 0)))"
proof -
  let ?h = "example_handler example_manager"
  have q: "text_param ''missing address parameter'' ''invalid address'' one_text = Inr ''0x01''" by (simp add: text_param_def)
  have a: "ask_score example_rpc example_env ?h (hx_HexToAddress (rl_hex example_rpc) ''0x01'') = (None, ?h)"
    by (simp add: ask_score_def)
  have z: "f64_to_int (fmul (case None of None \<Rightarrow> Fin 0 | Some sr \<Rightarrow> sr_CompositeScore sr) (Fin 1000)) < 100"
    by (simp add: f64_to_int_def to_f64_unit trunc_rat_def)
  have s: "sends example_rpc (rh_chainID ?h) one_text (example_tx 1 21000 0) (hx_HexToAddress (rl_hex example_rpc) ''0x01'')"
    using example_sends by (simp add: example_rpc_def example_hex_def)
  show ?thesis
    using prohibited_sender_accepted [OF q a z s example_scores, of "example_libs (empty_block 1)" JNull] fresh_pool_inv by simp blast
qed

end
