(* ===== verification/Websocket.thy ===== *)
theory Websocket
  imports Rpc_Handler
begin

section \<open>Subscriptions: internal/rpc/websocket.go\<close>

text \<open>
  The subscription manager and the loop that serves a connection. Connections are numbers; what is
  written to them is a list of messages. A map is visited in any order: the broadcasts take the order
  as an argument. Writes may fail, which the argument \<open>ok\<close> tells of every subscription.
\<close>

record ws_sub =
  sub_id :: u64
  sub_conn :: nat
  sub_type :: string
  sub_closed :: bool

record ws_manager =
  ws_subscribers :: "u64 \<rightharpoonup> ws_sub"
  ws_nextID :: u64

datatype ws_message = WsResponse rpc_response | WsNotification u64 rpc_value

definition NewWSSubscriptionManager :: ws_manager where
  "NewWSSubscriptionManager = \<lparr>ws_subscribers = Map.empty, ws_nextID = 0\<rparr>"

definition ws_error :: "json \<Rightarrow> int \<Rightarrow> string \<Rightarrow> ws_message" where
  "ws_error i code msg = WsResponse \<lparr>rs_ID = i, rs_Reply = RpcFail code (RpcParams msg)\<rparr>"

definition ws_result :: "json \<Rightarrow> rpc_value \<Rightarrow> ws_message" where
  "ws_result i v = WsResponse \<lparr>rs_ID = i, rs_Reply = RpcResult v\<rparr>"

text \<open>Both return the manager and the answer to the connection.\<close>

definition handleSubscribe :: "ws_manager \<Rightarrow> nat \<Rightarrow> rpc_request \<Rightarrow> ws_manager \<times> ws_message" where
  "handleSubscribe m conn req = (case raw_args (rq_Params req) of
     None \<Rightarrow> (m, ws_error (rq_ID req) (- 32602) ''invalid subscription type'')
   | Some params \<Rightarrow> (case as_string (hd params) of
       None \<Rightarrow> (m, ws_error (rq_ID req) (- 32602) ''invalid subscription type'')
     | Some subType \<Rightarrow>
         (if subType \<noteq> ''newHeads'' \<and> subType \<noteq> ''logs'' \<and> subType \<noteq> ''newPendingTransactions'' then
            (m, ws_error (rq_ID req) (- 32602) (''unsupported subscription type: '' @ subType))
          else let subID = ws_nextID m + 1;
                 sub = \<lparr>sub_id = subID, sub_conn = conn, sub_type = subType, sub_closed = False\<rparr> in
            (m\<lparr>ws_nextID := subID, ws_subscribers := (ws_subscribers m)(subID \<mapsto> sub)\<rparr>,
             ws_result (rq_ID req) (hex64 subID)))))"

text \<open>A text that does not scan leaves the ID at 0.\<close>

definition handleUnsubscribe :: "ws_manager \<Rightarrow> nat \<Rightarrow> rpc_request \<Rightarrow> ws_manager \<times> ws_message" where
  "handleUnsubscribe m conn req = (case raw_args (rq_Params req) of
     None \<Rightarrow> (m, ws_error (rq_ID req) (- 32602) ''missing subscription id'')
   | Some params \<Rightarrow> (case as_string (hd params) of
       None \<Rightarrow> (m, ws_error (rq_ID req) (- 32602) ''invalid subscription id'')
     | Some subIDHex \<Rightarrow>
         (let subID = (case sscanf_0x subIDHex of None \<Rightarrow> 0 | Some n \<Rightarrow> n) in
          (case ws_subscribers m subID of
             None \<Rightarrow> (m, ws_result (rq_ID req) (VBool False))
           | Some sub \<Rightarrow> (m\<lparr>ws_subscribers := (ws_subscribers m)(subID := None)\<rparr>, ws_result (rq_ID req) (VBool True))))))"

text \<open>One visit of a broadcast: the subscription may be closed by a failing write, and stays in the map.\<close>

definition notify_sub :: "string \<Rightarrow> rpc_value \<Rightarrow> (u64 \<Rightarrow> bool) \<Rightarrow> ws_sub \<Rightarrow> ws_sub \<times> (nat \<times> ws_message) list" where
  "notify_sub subType v ok sub =
     (if sub_type sub \<noteq> subType then (sub, [])
      else if sub_closed sub then (sub, [])
      else if ok (sub_id sub) then (sub, [(sub_conn sub, WsNotification (sub_id sub) v)])
      else (sub\<lparr>sub_closed := True\<rparr>, []))"

fun broadcast_loop :: "string \<Rightarrow> rpc_value \<Rightarrow> (u64 \<Rightarrow> bool) \<Rightarrow> u64 list \<Rightarrow> ws_manager \<Rightarrow>
    ws_manager \<times> (nat \<times> ws_message) list" where
  "broadcast_loop subType v ok [] m = (m, [])"
| "broadcast_loop subType v ok (k # ks) m = (case ws_subscribers m k of
     None \<Rightarrow> broadcast_loop subType v ok ks m
   | Some sub \<Rightarrow> (case notify_sub subType v ok sub of (sub', out) \<Rightarrow>
       (case broadcast_loop subType v ok ks (m\<lparr>ws_subscribers := (ws_subscribers m)(k \<mapsto> sub')\<rparr>) of
          (m', out') \<Rightarrow> (m', out @ out'))))"

definition BroadcastNewHead :: "ws_manager \<Rightarrow> u64 list \<Rightarrow> (u64 \<Rightarrow> bool) \<Rightarrow> rpc_value \<Rightarrow> ws_manager \<times> (nat \<times> ws_message) list" where
  "BroadcastNewHead m order ok head = broadcast_loop ''newHeads'' head ok order m"

definition BroadcastNewPendingTx :: "ws_manager \<Rightarrow> u64 list \<Rightarrow> (u64 \<Rightarrow> bool) \<Rightarrow> string \<Rightarrow>
    ws_manager \<times> (nat \<times> ws_message) list" where
  "BroadcastNewPendingTx m order ok txHash = broadcast_loop ''newPendingTransactions'' (VStr txHash) ok order m"

definition SubscriberCount :: "ws_manager \<Rightarrow> nat" where
  "SubscriberCount m = card (dom (ws_subscribers m))"

definition cleanupConn :: "ws_manager \<Rightarrow> nat \<Rightarrow> ws_manager" where
  "cleanupConn m conn = m\<lparr>ws_subscribers := (\<lambda>k. case ws_subscribers m k of
     None \<Rightarrow> None | Some sub \<Rightarrow> if sub_conn sub = conn then None else Some sub)\<rparr>"

text \<open>What is read from a connection, and one turn of its loop: the manager, the handler, the answer and
  whether the loop goes on. \<open>None\<close> is a request that does not return.\<close>

datatype ws_read = ReadFailed | ReadMalformed | ReadRequest rpc_request

definition HandleWS :: "('d, 's) libs \<Rightarrow> 'p pool_ops \<Rightarrow> rpc_lib \<Rightarrow> rpc_env \<Rightarrow> nat \<Rightarrow> ws_read \<Rightarrow>
    ws_manager \<times> ('p, 'd) handler \<Rightarrow> ((ws_manager \<times> ('p, 'd) handler) \<times> ws_message option \<times> bool) option" where
  "HandleWS B P R env conn r mh = (case mh of (m, h) \<Rightarrow> (case r of
     ReadFailed \<Rightarrow> Some ((cleanupConn m conn, h), None, False)
   | ReadMalformed \<Rightarrow> Some ((m, h), Some (ws_error JNull (- 32700) ''parse error''), True)
   | ReadRequest req \<Rightarrow>
       (if rq_Method req = ''eth_subscribe'' then
          (case handleSubscribe m conn req of (m', a) \<Rightarrow> Some ((m', h), Some a, True))
        else if rq_Method req = ''eth_unsubscribe'' then
          (case handleUnsubscribe m conn req of (m', a) \<Rightarrow> Some ((m', h), Some a, True))
        else (case Handle B P R env h req of
            None \<Rightarrow> None
          | Some (resp, h') \<Rightarrow> Some ((m, h'), Some (WsResponse resp), True)))))"

subsection \<open>Histories\<close>

text \<open>The counter of the IDs does not wrap: fewer than \<open>2 ^ 64\<close> subscriptions are ever made.\<close>

inductive ws_reach :: "('d, 's) libs \<Rightarrow> 'p pool_ops \<Rightarrow> rpc_lib \<Rightarrow> ws_manager \<Rightarrow> bool" for B P R where
  New: "ws_reach B P R NewWSSubscriptionManager"
| Turn: "ws_reach B P R m \<Longrightarrow> ws_nextID m \<noteq> - 1 \<Longrightarrow> HandleWS B P R env conn r (m, h) = Some ((m', h'), a, b) \<Longrightarrow> ws_reach B P R m'"
| Head: "ws_reach B P R m \<Longrightarrow> BroadcastNewHead m order ok v = (m', out) \<Longrightarrow> ws_reach B P R m'"
| Pending: "ws_reach B P R m \<Longrightarrow> BroadcastNewPendingTx m order ok t = (m', out) \<Longrightarrow> ws_reach B P R m'"

definition known_type :: "string \<Rightarrow> bool" where
  "known_type t \<longleftrightarrow> t = ''newHeads'' \<or> t = ''logs'' \<or> t = ''newPendingTransactions''"

text \<open>The IDs: keys are their subscriptions' IDs, given out already and not 0.\<close>

definition ws_inv :: "ws_manager \<Rightarrow> bool" where
  "ws_inv m \<longleftrightarrow> (\<forall>k sub. ws_subscribers m k = Some sub \<longrightarrow> sub_id sub = k \<and> 0 < k \<and> k \<le> ws_nextID m \<and>
     known_type (sub_type sub))"

lemma ws_invD: "ws_inv m \<Longrightarrow> ws_subscribers m k = Some sub \<Longrightarrow> sub_id sub = k \<and> 0 < k \<and> k \<le> ws_nextID m"
  by (simp add: ws_inv_def)

lemma notify_fields: "notify_sub t v ok sub = (sub', out) \<Longrightarrow>
    sub_id sub' = sub_id sub \<and> sub_conn sub' = sub_conn sub \<and> sub_type sub' = sub_type sub"
  by (auto simp: notify_sub_def split: if_splits)

lemma notify_inv:
  assumes "ws_inv m" and "ws_subscribers m k = Some sub" and "notify_sub t v ok sub = (sub', out)"
  shows "ws_inv (m\<lparr>ws_subscribers := (ws_subscribers m)(k \<mapsto> sub')\<rparr>)"
  using assms(1,2) notify_fields [OF assms(3)] by (simp add: ws_inv_def)

lemma broadcast_inv: "ws_inv m \<Longrightarrow> ws_inv (fst (broadcast_loop t v ok ks m))"
proof (induction ks arbitrary: m)
  case (Cons k ks)
  then show ?case
    by (auto split: option.split prod.split) (metis Cons.IH fst_conv notify_inv)
qed simp

lemma broadcast_nextID: "ws_nextID (fst (broadcast_loop t v ok ks m)) = ws_nextID m"
proof (induction ks arbitrary: m)
  case (Cons k ks)
  then show ?case by (auto split: option.split prod.split) (metis fst_conv ws_manager.select_convs(2) ws_manager.surjective ws_manager.update_convs(1))
qed simp

lemma handleSubscribe_known:
  assumes "raw_args (rq_Params req) = Some args" and "as_string (hd args) = Some t" and "known_type t"
  shows "handleSubscribe m conn req = (m\<lparr>ws_nextID := ws_nextID m + 1, ws_subscribers :=
      (ws_subscribers m)(ws_nextID m + 1 \<mapsto>
        \<lparr>sub_id = ws_nextID m + 1, sub_conn = conn, sub_type = t, sub_closed = False\<rparr>)\<rparr>,
      ws_result (rq_ID req) (hex64 (ws_nextID m + 1)))"
proof -
  have "(t \<noteq> ''newHeads'' \<and> t \<noteq> ''logs'' \<and> t \<noteq> ''newPendingTransactions'') = False"
    using assms(3) by (simp only: known_type_def) blast
  with assms show ?thesis by (simp only: handleSubscribe_def Let_def option.case if_False)
qed

lemma handleSubscribe_cases:
  assumes "handleSubscribe m conn req = (m', a)"
  obtains "m' = m" and "\<exists>code e. a = WsResponse \<lparr>rs_ID = rq_ID req, rs_Reply = RpcFail code e\<rparr>"
  | t where "known_type t" and "a = ws_result (rq_ID req) (hex64 (ws_nextID m + 1))"
    and "m' = m\<lparr>ws_nextID := ws_nextID m + 1, ws_subscribers := (ws_subscribers m)(ws_nextID m + 1 \<mapsto>
      \<lparr>sub_id = ws_nextID m + 1, sub_conn = conn, sub_type = t, sub_closed = False\<rparr>)\<rparr>"
proof (cases "\<exists>args t. raw_args (rq_Params req) = Some args \<and> as_string (hd args) = Some t \<and> known_type t")
  case True
  then obtain args t where "raw_args (rq_Params req) = Some args" "as_string (hd args) = Some t" "known_type t" by blast
  then show ?thesis using assms that(2) [of t] handleSubscribe_known [of req args t m conn] by simp
next
  case False
  have "\<exists>e. handleSubscribe m conn req = (m, ws_error (rq_ID req) (- 32602) e)"
  proof (cases "raw_args (rq_Params req)")
    case None
    then show ?thesis by (simp add: handleSubscribe_def) blast
  next
    case (Some args)
    show ?thesis
    proof (cases "as_string (hd args)")
      case None
      then show ?thesis using Some by (simp add: handleSubscribe_def) blast
    next
      case t: (Some t)
      then have "(t \<noteq> ''newHeads'' \<and> t \<noteq> ''logs'' \<and> t \<noteq> ''newPendingTransactions'') = True"
        using False Some by (auto simp only: known_type_def option.inject)
      then show ?thesis using Some t by (simp only: handleSubscribe_def option.case if_True prod.inject) blast
    qed
  qed
  then show ?thesis using assms that(1) by (auto simp: ws_error_def)
qed

lemma next_ID: "ws_nextID m \<noteq> - 1 \<Longrightarrow> 0 < ws_nextID m + 1 \<and> (k \<le> ws_nextID m \<longrightarrow> k < ws_nextID m + 1)"
  using u64_max_nat [of "ws_nextID m"] unat_add_no_wrap [of "ws_nextID m" 1] by (simp add: u64_less_nat u64_le_nat)

lemma subscribe_inv:
  assumes "ws_inv m" and "handleSubscribe m conn req = (m', a)" and "ws_nextID m \<noteq> - 1"
  shows "ws_inv m'"
  using assms(2)
proof (cases rule: handleSubscribe_cases)
  case 1
  then show ?thesis using assms(1) by simp
next
  case (2 t)
  have "k \<le> ws_nextID m + 1" if "k \<le> ws_nextID m" for k
    using next_ID [OF assms(3), of k] that by (auto intro: less_imp_le)
  then show ?thesis using 2 assms(1) next_ID [OF assms(3)] by (simp add: ws_inv_def)
qed

lemma ws_inv_delete: "ws_inv m \<Longrightarrow> ws_inv (m\<lparr>ws_subscribers := (ws_subscribers m)(k := None)\<rparr>)"
  by (simp add: ws_inv_def)

lemma unsubscribe_inv: "ws_inv m \<Longrightarrow> handleUnsubscribe m conn req = (m', a) \<Longrightarrow> ws_inv m'"
  using ws_inv_delete [of m] by (auto simp: handleUnsubscribe_def Let_def split: option.splits)

lemma cleanup_inv: "ws_inv m \<Longrightarrow> ws_inv (cleanupConn m conn)"
  by (auto simp: cleanupConn_def ws_inv_def split: option.splits if_splits)

lemma HandleWS_inv:
  assumes "ws_inv m" and "ws_nextID m \<noteq> - 1" and "HandleWS B P R env conn r (m, h) = Some ((m', h'), a, b)"
  shows "ws_inv m'"
  using assms subscribe_inv [OF assms(1) _ assms(2)] unsubscribe_inv [OF assms(1)] cleanup_inv [OF assms(1)]
  by (auto simp: HandleWS_def split: ws_read.splits if_splits prod.splits option.splits)

lemma ws_reach_inv: "ws_reach B P R m \<Longrightarrow> ws_inv m"
proof (induction rule: ws_reach.induct)
  case New
  then show ?case by (simp add: ws_inv_def NewWSSubscriptionManager_def)
next
  case Turn
  then show ?case using HandleWS_inv by blast
next
  case Head
  then show ?case using broadcast_inv by (metis BroadcastNewHead_def fst_conv)
next
  case Pending
  then show ?case using broadcast_inv by (metis BroadcastNewPendingTx_def fst_conv)
qed

subsection \<open>Broadcasts\<close>

lemma broadcast_result:
  assumes "distinct ks"
  shows "snd (broadcast_loop t v ok ks m) = concat (map (\<lambda>k. case ws_subscribers m k of None \<Rightarrow> []
      | Some sub \<Rightarrow> snd (notify_sub t v ok sub)) ks) \<and>
    ws_subscribers (fst (broadcast_loop t v ok ks m)) = (\<lambda>k. if k \<in> set ks
      then map_option (\<lambda>sub. fst (notify_sub t v ok sub)) (ws_subscribers m k) else ws_subscribers m k)"
  using assms
proof (induction ks arbitrary: m)
  case (Cons k ks)
  show ?case
  proof (cases "ws_subscribers m k")
    case None
    then show ?thesis using Cons by auto
  next
    case (Some sub)
    obtain sub' out where n: "notify_sub t v ok sub = (sub', out)" by fastforce
    let ?m = "m\<lparr>ws_subscribers := (ws_subscribers m)(k \<mapsto> sub')\<rparr>"
    have e: "map (\<lambda>k. case ws_subscribers ?m k of None \<Rightarrow> [] | Some sub \<Rightarrow> snd (notify_sub t v ok sub)) ks =
        map (\<lambda>k. case ws_subscribers m k of None \<Rightarrow> [] | Some sub \<Rightarrow> snd (notify_sub t v ok sub)) ks"
      using Cons.prems by (intro map_cong) auto
    have "distinct ks" "k \<notin> set ks" using Cons.prems by simp_all
    then show ?thesis
      using Cons.IH [of ?m] Some n unfolding e by (auto simp: fun_eq_iff split: prod.split)
  qed
qed simp

lemma notify_out: "snd (notify_sub t v ok sub) =
    (if sub_type sub = t \<and> \<not> sub_closed sub \<and> ok (sub_id sub) then [(sub_conn sub, WsNotification (sub_id sub) v)] else [])"
  by (simp add: notify_sub_def)

lemma notify_sub': "fst (notify_sub t v ok sub) =
    (if sub_type sub = t \<and> \<not> ok (sub_id sub) then sub\<lparr>sub_closed := True\<rparr> else sub)"
  by (simp add: notify_sub_def)

lemma broadcast_exact:
  assumes "ws_inv m" and "distinct order" and "set order = dom (ws_subscribers m)"
    and "broadcast_loop t v ok order m = (m', out)"
  shows "distinct out \<and> (\<forall>c x. (c, x) \<in> set out \<longleftrightarrow> (\<exists>k sub. ws_subscribers m k = Some sub \<and> sub_conn sub = c \<and>
      sub_type sub = t \<and> \<not> sub_closed sub \<and> ok k \<and> x = WsNotification k v)) \<and>
    (\<forall>k. ws_subscribers m' k = map_option (\<lambda>sub. if sub_type sub = t \<and> \<not> ok k then sub\<lparr>sub_closed := True\<rparr> else sub)
      (ws_subscribers m k))"
proof -
  let ?f = "\<lambda>k. case ws_subscribers m k of None \<Rightarrow> [] | Some sub \<Rightarrow> snd (notify_sub t v ok sub)"
  have r: "out = concat (map ?f order)"
    "ws_subscribers m' = (\<lambda>k. if k \<in> set order then map_option (\<lambda>sub. fst (notify_sub t v ok sub)) (ws_subscribers m k)
      else ws_subscribers m k)"
    using broadcast_result [OF assms(2), of t v ok m] assms(4) by simp_all
  have f: "?f k = (case ws_subscribers m k of None \<Rightarrow> [] | Some sub \<Rightarrow>
      if sub_type sub = t \<and> \<not> sub_closed sub \<and> ok k then [(sub_conn sub, WsNotification k v)] else [])" for k
    using ws_invD [OF assms(1), of k] by (auto simp: notify_out split: option.split)
  have "distinct (concat (map ?f ks))" if "distinct ks" for ks
    using that unfolding f by (induction ks) (auto split: option.splits if_splits)
  then have "distinct out" using r(1) assms(2) by simp
  moreover have "(c, x) \<in> set out \<longleftrightarrow> (\<exists>k sub. ws_subscribers m k = Some sub \<and> sub_conn sub = c \<and>
      sub_type sub = t \<and> \<not> sub_closed sub \<and> ok k \<and> x = WsNotification k v)" for c x
  proof -
    have "(c, x) \<in> set out \<longleftrightarrow> (\<exists>k \<in> dom (ws_subscribers m). (c, x) \<in> set (?f k))" unfolding r(1) assms(3) [symmetric] by simp
    also have "\<dots> \<longleftrightarrow> (\<exists>k sub. ws_subscribers m k = Some sub \<and> (c, x) \<in> set (?f k))" by (auto simp: dom_def)
    finally show ?thesis unfolding f by (auto split: if_splits)
  qed
  moreover have "ws_subscribers m' k = map_option (\<lambda>sub. if sub_type sub = t \<and> \<not> ok k then sub\<lparr>sub_closed := True\<rparr> else sub)
      (ws_subscribers m k)" for k
    using assms(3) ws_invD [OF assms(1), of k] unfolding r(2)
    by (cases "ws_subscribers m k") (auto simp: notify_sub' dom_def)
  ultimately show ?thesis by blast
qed

subsection \<open>Instances\<close>

definition sub_request :: "string \<Rightarrow> string \<Rightarrow> rpc_request" where
  "sub_request method arg = \<lparr>rq_Method = method, rq_Params = Some (JArr [JStr arg]), rq_ID = JInt 1\<rparr>"

definition one_sub :: ws_manager where
  "one_sub = \<lparr>ws_subscribers = [1 \<mapsto> \<lparr>sub_id = 1, sub_conn = 5, sub_type = ''newHeads'', sub_closed = False\<rparr>], ws_nextID = 1\<rparr>"

lemma sub_request_args [simp]: "raw_args (rq_Params (sub_request method arg)) = Some [JStr arg]"
  "rq_Method (sub_request method arg) = method" "rq_ID (sub_request method arg) = JInt 1"
  by (simp_all add: sub_request_def raw_args_def)

abbreviation ws_libs :: "((bytes \<rightharpoonup> bytes), ledger) libs" where
  "ws_libs \<equiv> example_libs (empty_block 1)"

lemma new_ws [simp]: "ws_nextID NewWSSubscriptionManager = 0" "ws_subscribers NewWSSubscriptionManager = Map.empty"
  by (simp_all add: NewWSSubscriptionManager_def)

lemma one_sub_turn: "HandleWS ws_libs laned_ops example_rpc example_env 5 (ReadRequest (sub_request ''eth_subscribe'' ''newHeads''))
    (NewWSSubscriptionManager, h) = Some ((one_sub, h), Some (ws_result (JInt 1) (hex64 1)), True)"
  by (simp add: HandleWS_def handleSubscribe_def one_sub_def NewWSSubscriptionManager_def)

lemma one_sub_reach: "ws_reach ws_libs laned_ops example_rpc one_sub"
  by (rule ws_reach.Turn [OF ws_reach.New _ one_sub_turn]) simp

subsection \<open>Properties\<close>

text \<open>C33. A subscription gets an ID that is not 0 and above every ID in use, the answer is that ID, no other
  subscription changes, and there is one more. When its connection ends, exactly the subscriptions of
  that connection go.\<close>

theorem ws_subscribe_fresh:
  assumes "ws_reach B P R m" and "ws_nextID m \<noteq> - 1" and "rq_Method req = ''eth_subscribe''"
    and "raw_args (rq_Params req) = Some args" and "as_string (hd args) = Some t" and "known_type t"
  shows "\<exists>m' k. HandleWS B P R env conn (ReadRequest req) (m, h) = Some ((m', h), Some (ws_result (rq_ID req) (hex64 k)), True) \<and>
    0 < k \<and> (\<forall>k' \<in> dom (ws_subscribers m). k' < k) \<and>
    ws_subscribers m' = (ws_subscribers m)(k \<mapsto> \<lparr>sub_id = k, sub_conn = conn, sub_type = t, sub_closed = False\<rparr>) \<and>
    SubscriberCount m' = Suc (SubscriberCount m) \<and>
    (\<forall>k' sub. ws_subscribers (cleanupConn m' conn) k' = Some sub \<longleftrightarrow>
       ws_subscribers m k' = Some sub \<and> sub_conn sub \<noteq> conn)"
proof -
  let ?k = "ws_nextID m + 1"
  have inv: "ws_inv m" by (rule ws_reach_inv [OF assms(1)])
  have up: "k' < ?k" if "ws_subscribers m k' = Some sub" for k' sub
    using ws_invD [OF inv that] next_ID [OF assms(2)] by blast
  then have new: "?k \<notin> dom (ws_subscribers m)" by fastforce
  obtain m' a where s: "handleSubscribe m conn req = (m', a)" by fastforce
  then have m': "m' = m\<lparr>ws_nextID := ?k, ws_subscribers := (ws_subscribers m)(?k \<mapsto>
      \<lparr>sub_id = ?k, sub_conn = conn, sub_type = t, sub_closed = False\<rparr>)\<rparr> \<and> a = ws_result (rq_ID req) (hex64 ?k)"
    using handleSubscribe_known [OF assms(4-6), of m conn] by simp
  have "HandleWS B P R env conn (ReadRequest req) (m, h) = Some ((m', h), Some (ws_result (rq_ID req) (hex64 ?k)), True)"
    using s m' assms(3) by (simp add: HandleWS_def)
  moreover have "SubscriberCount m' = Suc (SubscriberCount m)"
    using new m' by (simp add: SubscriberCount_def card_insert_if)
  moreover have "ws_subscribers (cleanupConn m' conn) k' = Some sub \<longleftrightarrow>
      ws_subscribers m k' = Some sub \<and> sub_conn sub \<noteq> conn" for k' sub
    using new m' by (auto simp: cleanupConn_def split: option.splits if_splits)
  ultimately show ?thesis
    using m' up next_ID [OF assms(2)] by (intro exI [of _ m'] exI [of _ ?k]) auto
qed

lemma ws_subscribe_fresh_witness:
  "\<exists>m' k. HandleWS ws_libs laned_ops example_rpc example_env 6 (ReadRequest (sub_request ''eth_subscribe'' ''logs''))
      (one_sub, example_handler example_manager) = Some ((m', example_handler example_manager), Some (ws_result (JInt 1) (hex64 k)), True) \<and>
    1 < k \<and> SubscriberCount m' = Suc (SubscriberCount one_sub)"
proof -
  have n: "ws_nextID one_sub \<noteq> - 1" by (simp add: one_sub_def)
  have "1 \<in> dom (ws_subscribers one_sub)" by (simp add: one_sub_def)
  with ws_subscribe_fresh [OF one_sub_reach n, of "sub_request ''eth_subscribe'' ''logs''" "[JStr ''logs'']" "''logs''"
      example_env 6 "example_handler example_manager"]
  show ?thesis by (simp add: known_type_def) blast
qed

text \<open>C34. A new head goes to every open subscription for heads whose connection takes it, once, under its own
  ID, and to no other, in whatever order the map is visited. A subscription whose write fails is
  closed; it stays in the map and in the count of subscriptions.\<close>

theorem ws_broadcast_exact:
  assumes "ws_reach B P R m" and "distinct order" and "set order = dom (ws_subscribers m)"
    and "BroadcastNewHead m order ok v = (m', out)"
  shows "distinct out \<and> (\<forall>c x. (c, x) \<in> set out \<longleftrightarrow> (\<exists>k sub. ws_subscribers m k = Some sub \<and> sub_conn sub = c \<and>
      sub_type sub = ''newHeads'' \<and> \<not> sub_closed sub \<and> ok k \<and> x = WsNotification k v)) \<and>
    (\<forall>k sub. ws_subscribers m k = Some sub \<and> sub_type sub = ''newHeads'' \<and> \<not> ok k \<longrightarrow>
       ws_subscribers m' k = Some (sub\<lparr>sub_closed := True\<rparr>)) \<and>
    SubscriberCount m' = SubscriberCount m"
proof -
  note b = broadcast_exact [OF ws_reach_inv [OF assms(1)] assms(2,3) assms(4) [unfolded BroadcastNewHead_def]]
  have "dom (ws_subscribers m') = dom (ws_subscribers m)" using b by (auto simp: dom_def)
  then have "SubscriberCount m' = SubscriberCount m" by (simp add: SubscriberCount_def)
  moreover have "\<forall>k sub. ws_subscribers m k = Some sub \<and> sub_type sub = ''newHeads'' \<and> \<not> ok k \<longrightarrow>
      ws_subscribers m' k = Some (sub\<lparr>sub_closed := True\<rparr>)"
    using b by simp
  ultimately show ?thesis using b by blast
qed

lemma ws_broadcast_exact_witness:
  "\<exists>m' out. BroadcastNewHead one_sub [1] (\<lambda>k. True) VNull = (m', out) \<and> (5, WsNotification 1 VNull) \<in> set out \<and>
    SubscriberCount m' = SubscriberCount one_sub"
proof -
  obtain m' out where x: "BroadcastNewHead one_sub [1] (\<lambda>k. True) VNull = (m', out)" by fastforce
  have "distinct [1 :: u64]" "set [1] = dom (ws_subscribers one_sub)" by (simp_all add: one_sub_def)
  note b = ws_broadcast_exact [OF one_sub_reach this x]
  have "ws_subscribers one_sub 1 = Some \<lparr>sub_id = 1, sub_conn = 5, sub_type = ''newHeads'', sub_closed = False\<rparr>"
    by (simp add: one_sub_def)
  then have "\<exists>k sub. ws_subscribers one_sub k = Some sub \<and> sub_conn sub = 5 \<and> sub_type sub = ''newHeads'' \<and>
      \<not> sub_closed sub \<and> True \<and> WsNotification 1 VNull = WsNotification k VNull"
    by (intro exI [of _ 1] exI conjI) (assumption, simp_all)
  then have "(5, WsNotification 1 VNull) \<in> set out" using b by blast
  then show ?thesis using b x by blast
qed

text \<open>Any connection can end any subscription: unsubscribing looks only at the ID, and the IDs are
  counted up from 1.\<close>

theorem ws_unsubscribe_foreign:
  assumes "ws_subscribers m k = Some sub" and "sub_conn sub \<noteq> conn" and "rq_Method req = ''eth_unsubscribe''"
    and "raw_args (rq_Params req) = Some args" and "as_string (hd args) = Some s" and "sscanf_0x s = Some k"
  shows "\<exists>m'. HandleWS B P R env conn (ReadRequest req) (m, h) = Some ((m', h), Some (ws_result (rq_ID req) (VBool True)), True) \<and>
    ws_subscribers m' = (ws_subscribers m)(k := None)"
  using assms by (simp add: HandleWS_def handleUnsubscribe_def)

lemma ws_unsubscribe_foreign_witness:
  "\<exists>m'. HandleWS ws_libs laned_ops example_rpc example_env 6 (ReadRequest (sub_request ''eth_unsubscribe'' ''0x1''))
      (one_sub, example_handler example_manager)
      = Some ((m', example_handler example_manager), Some (ws_result (JInt 1) (VBool True)), True) \<and>
    ws_subscribers m' = Map.empty"
proof -
  have s: "sscanf_0x ''0x1'' = Some 1"
    by (simp add: sscanf_0x_def blank_def hex_value_def Let_def)
  have o: "ws_subscribers one_sub 1 = Some \<lparr>sub_id = 1, sub_conn = 5, sub_type = ''newHeads'', sub_closed = False\<rparr>"
    by (simp add: one_sub_def)
  show ?thesis
    using ws_unsubscribe_foreign [OF o _ _ _ _ s, of 6 "sub_request ''eth_unsubscribe'' ''0x1''" "[JStr ''0x1'']" ws_libs
        laned_ops example_rpc example_env "example_handler example_manager"]
    by (simp add: one_sub_def)
qed

end
