(* ===== verification/Rpc_Server.thy ===== *)
theory Rpc_Server
  imports Websocket
begin

section \<open>The HTTP endpoints: internal/rpc/server.go\<close>

text \<open>
  The three HTTP handlers. What net/http hands over is the method and the body, or an error while the
  body is read; what is written is a status with a text or a JSON value. Decoding a body into a
  request is a parameter. \<open>Start\<close> and \<open>Stop\<close> of the server are in theory \<open>Process\<close>.
\<close>

datatype http_reply = HttpText int string | HttpRpc rpc_response | HttpJson int rpc_value

definition writeError :: "json \<Rightarrow> int \<Rightarrow> string \<Rightarrow> http_reply" where
  "writeError i code msg = HttpRpc \<lparr>rs_ID = i, rs_Reply = RpcFail code (RpcParams msg)\<rparr>"

text \<open>The limit on a body cuts it; it is not an error.\<close>

definition read_limited :: "nat \<Rightarrow> bytes option \<Rightarrow> bytes option" where
  "read_limited n body = map_option (take n) body"

definition handleHTTP :: "('d, 's) libs \<Rightarrow> 'p pool_ops \<Rightarrow> rpc_lib \<Rightarrow> rpc_env \<Rightarrow> (bytes \<Rightarrow> rpc_request option) \<Rightarrow>
    ('p, 'd) handler \<Rightarrow> string \<Rightarrow> bytes option \<Rightarrow> (http_reply \<times> ('p, 'd) handler) option" where
  "handleHTTP B P R env parse h method body =
     (if method \<noteq> ''POST'' then Some (HttpText 405 ''method not allowed'', h)
      else (case read_limited (2 ^ 20) body of
          None \<Rightarrow> Some (writeError JNull (- 32700) ''parse error'', h)
        | Some data \<Rightarrow> (case parse data of
            None \<Rightarrow> Some (writeError JNull (- 32700) ''parse error'', h)
          | Some req \<Rightarrow> map_option (\<lambda>(resp, h'). (HttpRpc resp, h')) (Handle B P R env h req))))"

definition handleHealth :: "('p, 'd) handler \<Rightarrow> http_reply" where
  "handleHealth h = HttpJson 200 (VMap
     [(''status'', VStr ''ok''), (''service'', VStr ''inso-sequencer''), (''version'', VStr ''phase5''),
      (''currentBlock'', vu64 (mg_CurrentBlock (rh_state h))), (''chainID'', vu64 (rh_chainID h))])"

definition handleReady :: "('p, 'd) handler \<Rightarrow> http_reply" where
  "handleReady h = (let block = mg_CurrentBlock (rh_state h) in
     if block = 0 then HttpJson 503 (VMap
       [(''status'', VStr ''not_ready''), (''service'', VStr ''inso-sequencer''),
        (''reason'', VStr ''no blocks produced yet'')])
     else HttpJson 200 (VMap
       [(''status'', VStr ''ready''), (''service'', VStr ''inso-sequencer''), (''currentBlock'', vu64 block)]))"

text \<open>The multiplexer of \<open>Start\<close>, which net/http gives the cleaned path: two probes, and everything else is RPC.\<close>

definition serveHTTP :: "('d, 's) libs \<Rightarrow> 'p pool_ops \<Rightarrow> rpc_lib \<Rightarrow> rpc_env \<Rightarrow> (bytes \<Rightarrow> rpc_request option) \<Rightarrow>
    ('p, 'd) handler \<Rightarrow> string \<Rightarrow> string \<Rightarrow> bytes option \<Rightarrow> (http_reply \<times> ('p, 'd) handler) option" where
  "serveHTTP B P R env parse h path method body =
     (if path = ''/health'' then Some (handleHealth h, h)
      else if path = ''/ready'' then Some (handleReady h, h)
      else handleHTTP B P R env parse h method body)"

lemma handleHTTP_cases:
  assumes "handleHTTP B P R env parse h method body = Some (reply, h')"
  obtains (refused) "h' = h" and "method \<noteq> ''POST'' \<or> read_limited (2 ^ 20) body = None \<or>
      (\<exists>data. read_limited (2 ^ 20) body = Some data \<and> parse data = None)"
    and "reply = HttpText 405 ''method not allowed'' \<or> reply = writeError JNull (- 32700) ''parse error''"
  | (handled) data req resp where "method = ''POST''" and "read_limited (2 ^ 20) body = Some data" and "parse data = Some req"
    and "Handle B P R env h req = Some (resp, h')" and "reply = HttpRpc resp"
  using assms by (auto simp: handleHTTP_def split: if_splits option.splits)

lemma serveHTTP_cases:
  assumes "serveHTTP B P R env parse h path method body = Some (reply, h')"
  obtains (probe) code v where "path = ''/health'' \<or> path = ''/ready''" and "h' = h" and "reply = HttpJson code v"
  | (rpc) "handleHTTP B P R env parse h method body = Some (reply, h')"
  using assms by (auto simp: serveHTTP_def handleHealth_def handleReady_def Let_def split: if_splits)

text \<open>The two probes agree on the block and depend on nothing else of the chain.\<close>

lemma ready_iff: "(\<exists>v. handleReady h = HttpJson 200 v) \<longleftrightarrow> mg_currentBlock (rh_state h) \<noteq> 0"
  by (simp add: handleReady_def Let_def mg_CurrentBlock_def)

end
