(* ===== verification/Batcher.thy ===== *)
theory Batcher
  imports State_Manager Metrics "HOL-Library.Monad_Syntax"
begin

section \<open>The batch submitter: internal/batcher/batcher.go\<close>

text \<open>
  Collecting new blocks into a frame, encoding and compressing it, submitting it to L1 and tracking
  its confirmation. The L1 client is an interface: a record of its operations over a client state,
  with the simulated client of the code as one instance. RLP encoding of the frame and zlib are
  parameters with round-trip laws. The tickers, the logger and the compression ratio it prints are
  left out.
\<close>

record block_data =
  bd_Number :: u64
  bd_Hash :: hash
  bd_ParentHash :: hash
  bd_Timestamp :: u64
  bd_StateRoot :: hash
  bd_GasUsed :: u64
  bd_TxCount :: u64
  bd_TxData :: "bytes list"

record batch_frame =
  bf_Version :: u8
  bf_ChainID :: u64
  bf_StartBlock :: u64
  bf_EndBlock :: u64
  bf_Timestamp :: u64
  bf_Blocks :: "block_data list"

text \<open>The interface \<open>L1Client\<close>; an error is \<open>None\<close>.\<close>

record 'c l1_client =
  l1_SendBatchTx :: "'c \<Rightarrow> bytes \<Rightarrow> 'c \<times> hash option"
  l1_LatestL1Block :: "'c \<Rightarrow> 'c \<times> (u64 \<times> hash) option"
  l1_IsConfirmed :: "'c \<Rightarrow> hash \<Rightarrow> u64 \<Rightarrow> bool option"

subsection \<open>The simulated client\<close>

text \<open>Its state is the block number.\<close>

definition NewSimulatedL1Client :: u64 where
  "NewSimulatedL1Client = 1000"

definition sim_SendBatchTx :: "geth \<Rightarrow> u64 \<Rightarrow> bytes \<Rightarrow> u64 \<times> hash option" where
  "sim_SendBatchTx g blockNum data = (let n = blockNum + 1 in
     (n, Some (ge_BytesToHash g (nat_bytes (unat n + length data)))))"

definition sim_LatestL1Block :: "geth \<Rightarrow> u64 \<Rightarrow> u64 \<times> (u64 \<times> hash) option" where
  "sim_LatestL1Block g blockNum = (let n = blockNum + 1 in (n, Some (n, ge_BytesToHash g (u64_bytes n))))"

definition sim_IsConfirmed :: "u64 \<Rightarrow> hash \<Rightarrow> u64 \<Rightarrow> bool option" where
  "sim_IsConfirmed blockNum txHash confirmations = Some True"

definition simulated_l1 :: "geth \<Rightarrow> u64 l1_client" where
  "simulated_l1 g = \<lparr>l1_SendBatchTx = sim_SendBatchTx g, l1_LatestL1Block = sim_LatestL1Block g,
     l1_IsConfirmed = sim_IsConfirmed\<rparr>"

subsection \<open>Frames\<close>

text \<open>The libraries of the batcher: RLP of a frame, and zlib; a writer that fails gives \<open>None\<close>.\<close>

record batch_libs =
  bl_enc_frame :: "batch_frame \<Rightarrow> bytes option"
  bl_dec_frame :: "bytes \<Rightarrow> batch_frame option"
  bl_zlib_write :: "bytes \<Rightarrow> bytes option"
  bl_zlib_read :: "bytes \<Rightarrow> bytes option"

definition batch_laws :: "batch_libs \<Rightarrow> bool" where
  "batch_laws Z \<longleftrightarrow> (\<forall>f d. bl_enc_frame Z f = Some d \<longrightarrow> bl_dec_frame Z d = Some f) \<and>
     (\<forall>d c. bl_zlib_write Z d = Some c \<longrightarrow> bl_zlib_read Z c = Some d)"

definition compressData :: "batch_libs \<Rightarrow> bytes \<Rightarrow> bytes option" where
  "compressData Z data = bl_zlib_write Z data"

definition DecompressData :: "batch_libs \<Rightarrow> bytes \<Rightarrow> bytes option" where
  "DecompressData Z data = bl_zlib_read Z data"

datatype frame_error = ErrBlockNotFound u64 | ErrEncodeTx u64

fun tx_data :: "codec \<Rightarrow> tx list \<Rightarrow> bytes list option" where
  "tx_data C [] = Some []"
| "tx_data C (t # ts) = (case enc_tx C t of None \<Rightarrow> None | Some d \<Rightarrow> map_option ((#) d) (tx_data C ts))"

definition block_data_of :: "codec \<Rightarrow> l2_block \<Rightarrow> block_data option" where
  "block_data_of C b = map_option (\<lambda>data. \<lparr>bd_Number = hd_Number (bk_Header b), bd_Hash = hd_Hash (bk_Header b),
     bd_ParentHash = hd_ParentHash (bk_Header b), bd_Timestamp = hd_Timestamp (bk_Header b),
     bd_StateRoot = hd_StateRoot (bk_Header b), bd_GasUsed = hd_GasUsed (bk_Header b),
     bd_TxCount = word_of_int (hd_TxCount (bk_Header b)), bd_TxData = data\<rparr>) (tx_data C (bk_Transactions b))"

text \<open>
  The loop \<open>for num := startBlock; num <= endBlock; num++\<close> on \<open>uint64\<close>: at the largest end it would
  not stop by itself, so not returning is \<open>None\<close>.
\<close>

partial_function (option) collect_blocks :: "('d, 's) libs \<Rightarrow> 'd manager \<Rightarrow> u64 \<Rightarrow> u64 \<Rightarrow> block_data list \<Rightarrow>
    (frame_error + block_data list) option" where
  "collect_blocks B m endBlock num acc =
     (if num \<le> endBlock then
        (case mg_GetBlock B m num of
           None \<Rightarrow> Some (Inl (ErrBlockNotFound num))
         | Some block \<Rightarrow> (case block_data_of (lb_C B) block of
             None \<Rightarrow> Some (Inl (ErrEncodeTx num))
           | Some bd \<Rightarrow> collect_blocks B m endBlock (num + 1) (acc @ [bd])))
      else Some (Inr acc))"

definition buildBatchFrame :: "('d, 's) libs \<Rightarrow> 'd manager \<Rightarrow> u64 \<Rightarrow> u64 \<Rightarrow> u64 \<Rightarrow> u64 \<Rightarrow>
    (frame_error + batch_frame) option" where
  "buildBatchFrame B m chainID startBlock endBlock now =
     (case collect_blocks B m endBlock startBlock [] of
        None \<Rightarrow> None
      | Some (Inl e) \<Rightarrow> Some (Inl e)
      | Some (Inr blocks) \<Rightarrow> Some (Inr \<lparr>bf_Version = 1, bf_ChainID = chainID, bf_StartBlock = startBlock,
          bf_EndBlock = endBlock, bf_Timestamp = now, bf_Blocks = blocks\<rparr>))"

subsection \<open>The batcher\<close>

record ('c, 'd) batcher =
  ba_state :: "'d manager"
  ba_client :: 'c
  ba_lastBatchBlock :: u64
  ba_batchIndex :: u64
  ba_chainID :: u64
  ba_pendingBatches :: "hash \<rightharpoonup> batch"
  ba_metrics :: "metrics option"

definition ba_New :: "'d manager \<Rightarrow> 'c \<Rightarrow> u64 \<Rightarrow> ('c, 'd) batcher" where
  "ba_New sm client chainID = \<lparr>ba_state = sm, ba_client = client, ba_lastBatchBlock = 0, ba_batchIndex = 0,
     ba_chainID = chainID, ba_pendingBatches = Map.empty, ba_metrics = None\<rparr>"

definition ba_SetMetrics :: "('c, 'd) batcher \<Rightarrow> metrics \<Rightarrow> ('c, 'd) batcher" where
  "ba_SetMetrics b m = b\<lparr>ba_metrics := Some m\<rparr>"

text \<open>
  The result of a submission: \<open>None\<close> if the frame loop does not return, otherwise the batcher and, if a
  batch was accepted by L1, the batch and the data sent. \<open>now\<close> is the clock in nanoseconds.
\<close>

definition submitBatch :: "('d, 's) libs \<Rightarrow> batch_libs \<Rightarrow> 'c l1_client \<Rightarrow> ('c, 'd) batcher \<Rightarrow> int \<Rightarrow>
    (('c, 'd) batcher \<times> (batch \<times> bytes) option) option" where
  "submitBatch B Z L1 b now =
     (let currentBlock = mg_CurrentBlock (ba_state b);
          unix = word_of_int (now div 1000000000) in
      if currentBlock \<le> ba_lastBatchBlock b then Some (b, None)
      else
        (let startBlock = ba_lastBatchBlock b + 1; endBlock = currentBlock in
         (case buildBatchFrame B (ba_state b) (ba_chainID b) startBlock endBlock unix of
            None \<Rightarrow> None
          | Some (Inl e) \<Rightarrow> Some (b, None)
          | Some (Inr frame) \<Rightarrow>
            (case bl_enc_frame Z frame of
               None \<Rightarrow> Some (b, None)
             | Some encoded \<Rightarrow>
               (case compressData Z encoded of
                  None \<Rightarrow> Some (b, None)
                | Some compressed \<Rightarrow>
                  (case l1_LatestL1Block L1 (ba_client b) of (c1, latest) \<Rightarrow>
                    (let b1 = b\<lparr>ba_client := c1, ba_state := (case latest of
                           None \<Rightarrow> ba_state b
                         | Some (l1Num, l1Hash) \<Rightarrow> SetL1Origin B (ba_state b)
                             \<lparr>L1BlockNumber = l1Num, L1BlockHash = l1Hash, L1Timestamp = unix\<rparr>)\<rparr>
                     in (case l1_SendBatchTx L1 c1 compressed of
                           (c2, None) \<Rightarrow> Some (b1\<lparr>ba_client := c2\<rparr>, None)
                         | (c2, Some txHash) \<Rightarrow>
                             (let bt = \<lparr>bt_Index = ba_batchIndex b + 1, bt_StartBlock = startBlock, bt_EndBlock = endBlock,
                                  bt_BlockCount = wrap_int (int (unat (endBlock - startBlock + 1))), bt_L1TxHash = txHash,
                                  bt_Timestamp = now, bt_SizeBytes = of_nat (length compressed),
                                  bt_Status = BatchSubmitted\<rparr>
                              in Some (b1\<lparr>ba_client := c2, ba_state := AddBatch B (ba_state b1) bt,
                                   ba_pendingBatches := (ba_pendingBatches b)(txHash \<mapsto> bt),
                                   ba_lastBatchBlock := endBlock, ba_batchIndex := ba_batchIndex b + 1,
                                   ba_metrics := map_option (\<lambda>m. m\<lparr>BatchesSubmitted := BatchesSubmitted m + 1,
                                     LastBatchSize := int (length compressed)\<rparr>) (ba_metrics b)\<rparr>,
                                 Some (bt, compressed)))))))))))"

text \<open>
  A confirmed batch leaves the map. Its status is set on the record that only the map pointed to, so
  nothing else sees the change.
\<close>

definition checkConfirmations :: "'c l1_client \<Rightarrow> ('c, 'd) batcher \<Rightarrow> ('c, 'd) batcher" where
  "checkConfirmations L1 b = b\<lparr>ba_pendingBatches := (\<lambda>h. case ba_pendingBatches b h of
     None \<Rightarrow> None
   | Some bt \<Rightarrow> (case l1_IsConfirmed L1 (ba_client b) h 6 of
       Some True \<Rightarrow> None | _ \<Rightarrow> Some bt))\<rparr>"

subsection \<open>The frame of a range of blocks\<close>

text \<open>The loop, as a function of the list of numbers it visits.\<close>

fun read_blocks :: "('d, 's) libs \<Rightarrow> 'd manager \<Rightarrow> u64 list \<Rightarrow> frame_error + block_data list" where
  "read_blocks B m [] = Inr []"
| "read_blocks B m (n # ns) = (case mg_GetBlock B m n of
     None \<Rightarrow> Inl (ErrBlockNotFound n)
   | Some b \<Rightarrow> (case block_data_of (lb_C B) b of
       None \<Rightarrow> Inl (ErrEncodeTx n)
     | Some bd \<Rightarrow> map_sum id ((#) bd) (read_blocks B m ns)))"

definition block_range :: "u64 \<Rightarrow> u64 \<Rightarrow> u64 list" where
  "block_range n e = map of_nat [unat n..<Suc (unat e)]"

lemma block_range_step:
  assumes "n \<le> e" and "unat e + 1 < 2 ^ 64"
  shows "block_range n e = n # block_range (n + 1) e"
proof -
  have "unat n \<le> unat e" using assms(1) by (simp add: u64_le_nat)
  then have "unat (n + 1) = Suc (unat n)" using assms(2) by (subst unat_add_no_wrap) simp_all
  then show ?thesis using \<open>unat n \<le> unat e\<close> by (simp add: block_range_def upt_conv_Cons del: upt_Suc)
qed

lemma collect_blocks_eq:
  assumes "unat e + 1 < 2 ^ 64" and "unat n \<le> Suc (unat e)"
  shows "collect_blocks B m e n acc = Some (map_sum id ((@) acc) (read_blocks B m (block_range n e)))"
  using assms(2)
proof (induction "Suc (unat e) - unat n" arbitrary: n acc)
  case 0
  then have "\<not> n \<le> e" "block_range n e = []" by (simp_all add: u64_le_nat block_range_def)
  then show ?case by (subst collect_blocks.simps) simp
next
  case (Suc k)
  then have le: "n \<le> e" by (simp add: u64_le_nat)
  then have n1: "unat (n + 1) = Suc (unat n)"
    using assms(1) by (subst unat_add_no_wrap) (simp_all add: u64_le_nat)
  have ih: "collect_blocks B m e (n + 1) acc' = Some (map_sum id ((@) acc') (read_blocks B m (block_range (n + 1) e)))" for acc'
    using Suc n1 le by (intro Suc.hyps(1)) (simp_all add: u64_le_nat)
  show ?case
    using le ih by (subst collect_blocks.simps)
      (cases "read_blocks B m (block_range (n + 1) e)";
        simp add: block_range_step [OF le assms(1)] split: option.split)
qed

text \<open>What the data of a block is, in the frame that was read.\<close>

definition carries :: "codec \<Rightarrow> l2_block \<Rightarrow> block_data \<Rightarrow> bool" where
  "carries C b bd \<longleftrightarrow> bd_Number bd = hd_Number (bk_Header b) \<and> bd_Hash bd = hd_Hash (bk_Header b) \<and>
     bd_ParentHash bd = hd_ParentHash (bk_Header b) \<and> bd_StateRoot bd = hd_StateRoot (bk_Header b) \<and>
     bd_GasUsed bd = hd_GasUsed (bk_Header b) \<and> map (dec_tx C) (bd_TxData bd) = map Some (bk_Transactions b)"

lemma tx_data_decodes: "codec_laws C \<Longrightarrow> tx_data C ts = Some ds \<Longrightarrow> map (dec_tx C) ds = map Some ts"
  by (induction ts arbitrary: ds) (auto simp: codec_laws_def split: option.splits)

lemma read_blocks_carries:
  assumes "codec_laws (lb_C B)" and "read_blocks B m ns = Inr bds"
  shows "list_all2 (\<lambda>n bd. \<exists>b. mg_GetBlock B m n = Some b \<and> carries (lb_C B) b bd) ns bds"
  using assms(2)
proof (induction ns arbitrary: bds)
  case (Cons n ns)
  obtain b where b: "mg_GetBlock B m n = Some b" using Cons.prems by (cases "mg_GetBlock B m n") simp_all
  obtain bd where bd: "block_data_of (lb_C B) b = Some bd"
    using Cons.prems b by (cases "block_data_of (lb_C B) b") simp_all
  obtain bs where bs: "read_blocks B m ns = Inr bs" "bds = bd # bs"
    using Cons.prems b bd by (cases "read_blocks B m ns") auto
  have "carries (lb_C B) b bd"
    using bd tx_data_decodes [OF assms(1)] by (auto simp: carries_def block_data_of_def)
  then show ?case using b bs Cons.IH by auto
qed simp

subsection \<open>Submissions\<close>

lemma SetL1Origin_tip [simp]: "mg_currentBlock (SetL1Origin B m x) = mg_currentBlock m"
  "mg_stateRoot (SetL1Origin B m x) = mg_stateRoot m"
  by (simp_all add: SetL1Origin_def split: sum.split)

lemma AddBatch_tip [simp]: "mg_currentBlock (AddBatch B m x) = mg_currentBlock m"
  "mg_stateRoot (AddBatch B m x) = mg_stateRoot m"
  by (simp_all add: AddBatch_def split: sum.split)

text \<open>Either no batch, and the counters as before; or one batch of all the new blocks.\<close>

lemma submit_cases:
  assumes "submitBatch B Z L1 b now = Some (b', out)"
  obtains (none) "out = None" "ba_lastBatchBlock b' = ba_lastBatchBlock b" "ba_batchIndex b' = ba_batchIndex b"
      "ba_pendingBatches b' = ba_pendingBatches b" "mg_currentBlock (ba_state b') = mg_currentBlock (ba_state b)"
  | (sent) bt compressed frame encoded m1 where "out = Some (bt, compressed)"
      "ba_lastBatchBlock b < mg_currentBlock (ba_state b)"
      "buildBatchFrame B (ba_state b) (ba_chainID b) (ba_lastBatchBlock b + 1) (mg_currentBlock (ba_state b))
         (word_of_int (now div 1000000000)) = Some (Inr frame)"
      "bl_enc_frame Z frame = Some encoded" "compressData Z encoded = Some compressed"
      "bt_Index bt = ba_batchIndex b + 1" "bt_StartBlock bt = ba_lastBatchBlock b + 1"
      "bt_EndBlock bt = mg_currentBlock (ba_state b)" "bt_SizeBytes bt = of_nat (length compressed)"
      "ba_lastBatchBlock b' = mg_currentBlock (ba_state b)" "ba_batchIndex b' = ba_batchIndex b + 1"
      "ba_pendingBatches b' = (ba_pendingBatches b)(bt_L1TxHash bt \<mapsto> bt)"
      "ba_state b' = AddBatch B m1 bt" "mg_currentBlock m1 = mg_currentBlock (ba_state b)"
proof (cases "mg_CurrentBlock (ba_state b) \<le> ba_lastBatchBlock b")
  case True
  then show ?thesis using none assms by (simp add: submitBatch_def Let_def)
next
  case False
  let ?f = "buildBatchFrame B (ba_state b) (ba_chainID b) (ba_lastBatchBlock b + 1) (mg_currentBlock (ba_state b))
         (word_of_int (now div 1000000000))"
  obtain r where r: "?f = Some r" using False assms by (cases ?f) (simp_all add: submitBatch_def Let_def mg_CurrentBlock_def)
  show ?thesis
  proof (cases r)
    case (Inl e)
    then show ?thesis using none False assms r by (simp add: submitBatch_def Let_def mg_CurrentBlock_def)
  next
    case (Inr frame)
    note unf = submitBatch_def Let_def mg_CurrentBlock_def r Inr
    show ?thesis
    proof (cases "bl_enc_frame Z frame")
      case None
      then show ?thesis using none False assms by (simp add: unf)
    next
      case enc: (Some encoded)
      show ?thesis
      proof (cases "compressData Z encoded")
        case None
        then show ?thesis using none False assms enc by (simp add: unf)
      next
        case comp: (Some compressed)
        obtain c1 latest where l: "l1_LatestL1Block L1 (ba_client b) = (c1, latest)" by fastforce
        obtain c2 h where snd: "l1_SendBatchTx L1 c1 compressed = (c2, h)" by fastforce
        define m1 where "m1 = (case latest of None \<Rightarrow> ba_state b | Some (l1Num, l1Hash) \<Rightarrow> SetL1Origin B (ba_state b)
             \<lparr>L1BlockNumber = l1Num, L1BlockHash = l1Hash, L1Timestamp = word_of_int (now div 1000000000)\<rparr>)"
        have m1: "mg_currentBlock m1 = mg_currentBlock (ba_state b)" by (simp add: m1_def split: option.split prod.split)
        show ?thesis
        proof (cases h)
          case None
          then have "b' = b\<lparr>ba_state := m1, ba_client := c2\<rparr> \<and> out = None"
            using False assms enc comp l snd by (simp add: unf flip: m1_def)
          then show ?thesis using none m1 by simp
        next
          case (Some txHash)
          define bt where "bt = \<lparr>bt_Index = ba_batchIndex b + 1, bt_StartBlock = ba_lastBatchBlock b + 1,
            bt_EndBlock = mg_currentBlock (ba_state b), bt_BlockCount = wrap_int (int (unat
              (mg_currentBlock (ba_state b) - (ba_lastBatchBlock b + 1) + 1))), bt_L1TxHash = txHash,
            bt_Timestamp = now, bt_SizeBytes = of_nat (length compressed), bt_Status = BatchSubmitted\<rparr>"
          have out: "out = Some (bt, compressed)" "ba_lastBatchBlock b' = mg_currentBlock (ba_state b)"
            "ba_batchIndex b' = ba_batchIndex b + 1" "ba_state b' = AddBatch B m1 bt"
            "ba_pendingBatches b' = (ba_pendingBatches b)(txHash \<mapsto> bt)"
            using Some False assms enc comp l snd by (auto simp: unf bt_def simp flip: m1_def)
          have "ba_lastBatchBlock b < mg_currentBlock (ba_state b)" using False by (simp add: mg_CurrentBlock_def)
          from sent [OF out(1) this r [unfolded Inr] enc comp _ _ _ _ out(2,3) _ out(4) m1] show ?thesis
            using out(5) by (simp add: bt_def)
        qed
      qed
    qed
  qed
qed

text \<open>What a submission does to the manager: it may set the L1 origin, then add the batch. Neither touches a
  block, unless the batch's key is the key of one.\<close>

lemma submit_state:
  assumes "submitBatch B Z L1 b now = Some (b', out)"
  shows "\<exists>m1. (m1 = ba_state b \<or> (\<exists>x. m1 = SetL1Origin B (ba_state b) x)) \<and>
    (ba_state b' = m1 \<or> (\<exists>bt data. out = Some (bt, data) \<and> ba_state b' = AddBatch B m1 bt)) \<and>
    ba_chainID b' = ba_chainID b"
  using assms unfolding submitBatch_def Let_def
  by (auto split: if_splits option.splits sum.splits prod.splits)

lemma SetL1Origin_block:
  assumes "ethdb_laws (lb_E B)"
  shows "mg_GetBlock B (SetL1Origin B m x) n = mg_GetBlock B m n"
proof -
  have "ed_Get (lb_E B) d' (key_bytes (KBlock n)) = ed_Get (lb_E B) d (key_bytes (KBlock n))"
    if "ed_Put (lb_E B) d keyL1Origin v = Some d'" for d d' v
    using ed_Put_get [OF assms that] key_bytes_eq [of "KBlock n" KL1Origin] by simp
  then show ?thesis
    by (auto simp: SetL1Origin_def cdb_WriteL1Origin_def mg_GetBlock_def cdb_ReadBlock_def split: option.splits sum.splits)
qed

lemma AddBatch_block:
  assumes "ethdb_laws (lb_E B)" and "\<not> clash n (bt_Index bt)"
  shows "mg_GetBlock B (AddBatch B m bt) n = mg_GetBlock B m n"
proof (cases "cdb_WriteBatch (lb_E B) (lb_C B) (mg_chainDB m) bt")
  case (Inr c)
  then have "ed_Get (lb_E B) (cdb_db c) (key_bytes (KBlock n)) = ed_Get (lb_E B) (cdb_db (mg_chainDB m)) (key_bytes (KBlock n))"
    using WriteBatch_get(1) [OF assms(1) Inr, of "KBlock n"] assms(2) by simp
  then show ?thesis using Inr by (simp add: AddBatch_def mg_GetBlock_def cdb_ReadBlock_def)
qed (simp add: AddBatch_def)

lemma submit_blocks:
  assumes "submitBatch B Z L1 b now = Some (b', out)" and "ethdb_laws (lb_E B)"
    and "\<And>bt data. out = Some (bt, data) \<Longrightarrow> \<not> clash n (bt_Index bt)"
  shows "mg_GetBlock B (ba_state b') n = mg_GetBlock B (ba_state b) n"
  using submit_state [OF assms(1)] SetL1Origin_block [OF assms(2)] AddBatch_block [OF assms(2)] assms(3) by metis

text \<open>The frame of a submission.\<close>

lemma built_frame:
  assumes "buildBatchFrame B m cid n e t = Some (Inr frame)" and "unat e + 1 < 2 ^ 64" and "n \<le> e"
  shows "read_blocks B m (block_range n e) = Inr (bf_Blocks frame)" and "bf_StartBlock frame = n"
    and "bf_EndBlock frame = e" and "bf_ChainID frame = cid"
proof -
  have le: "unat n \<le> Suc (unat e)" using assms(3) by (simp add: u64_le_nat)
  obtain bs where "read_blocks B m (block_range n e) = Inr bs"
    using assms(1) collect_blocks_eq [OF assms(2) le, of B m "[]"]
    by (cases "read_blocks B m (block_range n e)") (simp_all add: buildBatchFrame_def)
  then show "read_blocks B m (block_range n e) = Inr (bf_Blocks frame)" "bf_StartBlock frame = n"
    "bf_EndBlock frame = e" "bf_ChainID frame = cid"
    using assms(1) collect_blocks_eq [OF assms(2) le, of B m "[]"] by (auto simp: buildBatchFrame_def)
qed

text \<open>A missing block stops the frame.\<close>

lemma read_blocks_missing:
  "n \<in> set ns \<Longrightarrow> mg_GetBlock B m n = None \<Longrightarrow> \<exists>e. read_blocks B m ns = Inl e"
  by (induction ns) (auto split: option.split)

subsection \<open>Runs of the batcher\<close>

text \<open>
  The steps of the loop, with the manager advanced by the producer in between; the list holds the
  batches that L1 accepted.
\<close>

inductive batch_run :: "('d, 's) libs \<Rightarrow> batch_libs \<Rightarrow> 'c l1_client \<Rightarrow> ('c, 'd) batcher \<Rightarrow> batch list \<Rightarrow> bool"
  for B Z L1 where
  Start: "batch_run B Z L1 (ba_New sm client cid) []"
| Submit: "batch_run B Z L1 b hist \<Longrightarrow> submitBatch B Z L1 b now = Some (b', out) \<Longrightarrow>
    batch_run B Z L1 b' (hist @ (case out of None \<Rightarrow> [] | Some (bt, data) \<Rightarrow> [bt]))"
| Confirm: "batch_run B Z L1 b hist \<Longrightarrow> batch_run B Z L1 (checkConfirmations L1 b) hist"
| Produce: "batch_run B Z L1 b hist \<Longrightarrow> mg_currentBlock (ba_state b) \<le> mg_currentBlock sm \<Longrightarrow>
    batch_run B Z L1 (b\<lparr>ba_state := sm\<rparr>) hist"

text \<open>Each batch starts after the end of the one before.\<close>

fun contiguous :: "u64 \<Rightarrow> batch list \<Rightarrow> u64 \<Rightarrow> bool" where
  "contiguous a [] z \<longleftrightarrow> a = z"
| "contiguous a (bt # bts) z \<longleftrightarrow> bt_StartBlock bt = a + 1 \<and> a < bt_EndBlock bt \<and> contiguous (bt_EndBlock bt) bts z"

lemma contiguous_snoc: "contiguous a (bts @ [bt]) z \<longleftrightarrow>
    (\<exists>y. contiguous a bts y \<and> bt_StartBlock bt = y + 1 \<and> y < bt_EndBlock bt \<and> bt_EndBlock bt = z)"
  by (induction bts arbitrary: a) auto

definition run_ok :: "('c, 'd) batcher \<Rightarrow> batch list \<Rightarrow> bool" where
  "run_ok b hist \<longleftrightarrow> contiguous 0 hist (ba_lastBatchBlock b) \<and>
     ba_batchIndex b = of_nat (length hist) \<and> map bt_Index hist = map of_nat [1..<Suc (length hist)] \<and>
     ba_lastBatchBlock b \<le> mg_currentBlock (ba_state b) \<and> ran (ba_pendingBatches b) \<subseteq> set hist"

lemma run_ok_submit:
  assumes "run_ok b hist" and "submitBatch B Z L1 b now = Some (b', out)"
  shows "run_ok b' (hist @ (case out of None \<Rightarrow> [] | Some (bt, data) \<Rightarrow> [bt]))"
  using assms(2)
proof (cases rule: submit_cases)
  case none
  then show ?thesis using assms(1) by (simp add: run_ok_def)
next
  case (sent bt compressed frame encoded m1)
  have c: "contiguous 0 (hist @ [bt]) (mg_currentBlock (ba_state b))"
    using assms(1) sent by (auto simp: contiguous_snoc run_ok_def)
  have i: "map bt_Index (hist @ [bt]) = map of_nat [1..<Suc (length (hist @ [bt]))]"
    using assms(1) sent(6) by (simp add: run_ok_def add.commute)
  have "ran ((ba_pendingBatches b)(bt_L1TxHash bt \<mapsto> bt)) \<subseteq> insert bt (ran (ba_pendingBatches b))"
    by (auto simp: ran_def)
  then have "ran (ba_pendingBatches b') \<subseteq> set (hist @ [bt])" using assms(1) sent(12) by (auto simp: run_ok_def)
  then show ?thesis
    using assms(1) sent c i by (simp add: run_ok_def add.commute del: upt_Suc)
qed

lemma run_ok_confirm: "run_ok b hist \<Longrightarrow> run_ok (checkConfirmations L1 b) hist"
proof -
  have "ba_pendingBatches b h = Some x" if "ba_pendingBatches (checkConfirmations L1 b) h = Some x" for h x
    using that by (simp add: checkConfirmations_def split: option.splits bool.splits)
  then have "ran (ba_pendingBatches (checkConfirmations L1 b)) \<subseteq> ran (ba_pendingBatches b)"
    unfolding ran_def by blast
  then show "run_ok b hist \<Longrightarrow> run_ok (checkConfirmations L1 b) hist"
    by (auto simp: run_ok_def checkConfirmations_def)
qed

lemma batch_run_ok: "batch_run B Z L1 b hist \<Longrightarrow> run_ok b hist"
proof (induction rule: batch_run.induct)
  case (Start sm client cid)
  then show ?case by (simp add: run_ok_def ba_New_def)
next
  case (Submit b hist now b' out)
  then show ?case by (rule_tac run_ok_submit)
next
  case (Confirm b hist)
  then show ?case using run_ok_confirm by blast
next
  case (Produce b hist sm)
  then show ?case by (auto simp: run_ok_def)
qed

subsection \<open>An example: a chain with one empty block\<close>

definition empty_frame :: batch_frame where
  "empty_frame = \<lparr>bf_Version = 1, bf_ChainID = 0, bf_StartBlock = 1, bf_EndBlock = 1, bf_Timestamp = 0,
     bf_Blocks = [\<lparr>bd_Number = 1, bd_Hash = zero_hash, bd_ParentHash = zero_hash, bd_Timestamp = 0,
       bd_StateRoot = replicate 32 9, bd_GasUsed = 0, bd_TxCount = 0, bd_TxData = []\<rparr>]\<rparr>"

definition example_batch_libs :: batch_libs where
  "example_batch_libs = \<lparr>bl_enc_frame = only empty_frame, bl_dec_frame = only_dec empty_frame,
     bl_zlib_write = Some, bl_zlib_read = Some\<rparr>"

lemma example_batch_laws: "batch_laws example_batch_libs"
  by (simp add: batch_laws_def example_batch_libs_def only_def only_dec_def)

text \<open>The batch it submits; the codec encodes that one.\<close>

definition empty_batch :: batch where
  "empty_batch = \<lparr>bt_Index = 1, bt_StartBlock = 1, bt_EndBlock = 1, bt_BlockCount = 1,
     bt_L1TxHash = crop_left (nat_bytes 1003), bt_Timestamp = 0, bt_SizeBytes = 1, bt_Status = BatchSubmitted\<rparr>"

definition batch_example_libs :: "((bytes \<rightharpoonup> bytes), ledger) libs" where
  "batch_example_libs = (example_libs (empty_block 1))\<lparr>lb_C := (example_codec (empty_block 1) empty_batch)\<rparr>"

lemma batch_example_laws: "libs_laws batch_example_libs"
  using example_libs_laws [of "empty_block 1"] example_codec_laws [of "empty_block 1" empty_batch]
  by (simp add: libs_laws_def batch_example_libs_def)

lemma example_chain:
  obtains sm b' where "mg_currentBlock sm = 1" and "mg_GetBlock batch_example_libs sm 1 = Some (empty_block 1)"
    and "submitBatch batch_example_libs example_batch_libs (simulated_l1 example_geth) (ba_New sm 1000 0) 0
      = Some (b', Some (empty_batch, [1]))"
proof -
  have h: "computeBlockHash example_geth n r 0 zero_hash = zero_hash" for n r
    by (rule computeBlockHash_parent) simp_all
  have "ExecuteTransactions L s [] ctx = (s, [], [], 0)" for L :: "ledger evm_lib" and s ctx
    by (simp add: ExecuteTransactions_def)
  then obtain sm where x: "ExecuteAndCommitBlock batch_example_libs example_manager [] 1 0 zero_hash 0
      = (sm, [], Inr (empty_block 1))"
    by (simp add: ExecuteAndCommitBlock_def Let_def h example_trie_def CommitState_def OpenState_def
        executed_txs_def example_manager_def block_gas_limit_def cdb_WriteBlock_def example_codec_def only_def
        mem_db_def batch_example_libs_def flip: empty_block_def) (simp add: empty_block_def)
  have ok: "txs_ok []" by (simp add: txs_ok_def)
  obtain disk' where w: "written (lb_E batch_example_libs) (lb_C batch_example_libs) (empty_block 1)
      ((mg_chainDB example_manager)\<lparr>cdb_db := disk'\<rparr>) (mg_chainDB sm)"
    and tip: "mg_currentBlock sm = hd_Number (bk_Header (empty_block 1))"
    by (rule committed_written [OF batch_example_laws ok x])
  have get: "mg_GetBlock batch_example_libs sm 1 = Some (empty_block 1)"
    using ReadBlock_written [OF w] by (simp add: mg_GetBlock_def empty_block_def)
  have cur: "mg_currentBlock sm = 1" using tip by (simp add: empty_block_def)
  have "read_blocks batch_example_libs sm (block_range 1 1) = Inr (bf_Blocks empty_frame)"
    using get by (simp add: block_range_def block_data_of_def empty_block_def empty_frame_def)
  then have "buildBatchFrame batch_example_libs sm 0 1 1 0 = Some (Inr empty_frame)"
    using collect_blocks_eq [of 1 1 batch_example_libs sm "[]"] by (simp add: buildBatchFrame_def empty_frame_def)
  then obtain b' where "submitBatch batch_example_libs example_batch_libs (simulated_l1 example_geth) (ba_New sm 1000 0) 0
      = Some (b', Some (empty_batch, [1]))"
    by (simp add: submitBatch_def Let_def mg_CurrentBlock_def cur ba_New_def example_batch_libs_def only_def compressData_def
        simulated_l1_def sim_LatestL1Block_def sim_SendBatchTx_def empty_batch_def example_geth_def wrap_int_def)
  with cur get show ?thesis by (rule that)
qed

lemma example_run:
  obtains b' where "batch_run batch_example_libs example_batch_libs (simulated_l1 example_geth) b' [empty_batch]"
proof -
  obtain sm b' where "submitBatch batch_example_libs example_batch_libs (simulated_l1 example_geth) (ba_New sm 1000 0) 0
      = Some (b', Some (empty_batch, [1]))"
    by (rule example_chain)
  from batch_run.Submit [OF batch_run.Start this] show ?thesis using that by simp
qed

subsection \<open>Properties\<close>

text \<open>C12. No block is left out of the batches and none is in two of them: in any run of submissions, failed
  or not, confirmations and new blocks, the accepted batches follow each other from block 1 to the
  last batched block, with indices counting from 1; what is pending confirmation is among them.\<close>

theorem batches_contiguous:
  assumes "batch_run B Z L1 b hist"
  shows "contiguous 0 hist (ba_lastBatchBlock b) \<and> map bt_Index hist = map of_nat [1..<Suc (length hist)] \<and>
    ba_lastBatchBlock b \<le> mg_currentBlock (ba_state b) \<and> ran (ba_pendingBatches b) \<subseteq> set hist"
  using batch_run_ok [OF assms] by (simp add: run_ok_def del: upt_Suc)

lemma batches_contiguous_witness:
  "\<exists>b :: (u64, (bytes \<rightharpoonup> bytes)) batcher. contiguous 0 [empty_batch] (ba_lastBatchBlock b)"
proof -
  obtain b' where "batch_run batch_example_libs example_batch_libs (simulated_l1 example_geth) b' [empty_batch]"
    by (rule example_run)
  from batches_contiguous [OF this] show ?thesis by blast
qed



text \<open>C32. What reaches L1 is the chain: decompressing and decoding the data of a batch gives a frame with
  one entry per block of its range, in order, each with the number, hashes, state root and gas of the
  stored block and with transaction data that decodes to the block's transactions.\<close>

theorem batch_data_roundtrip:
  assumes "batch_laws Z" and "codec_laws (lb_C B)" and "unat (mg_currentBlock (ba_state b)) + 1 < 2 ^ 64"
    and "submitBatch B Z L1 b now = Some (b', Some (bt, data))"
  shows "\<exists>encoded frame. DecompressData Z data = Some encoded \<and> bl_dec_frame Z encoded = Some frame \<and>
    bf_ChainID frame = ba_chainID b \<and> bf_StartBlock frame = bt_StartBlock bt \<and> bf_EndBlock frame = bt_EndBlock bt \<and>
    list_all2 (\<lambda>n bd. \<exists>block. mg_GetBlock B (ba_state b) n = Some block \<and> carries (lb_C B) block bd)
      (block_range (bt_StartBlock bt) (bt_EndBlock bt)) (bf_Blocks frame)"
  using assms(4)
proof (cases rule: submit_cases)
  case (sent bt' compressed frame encoded m1)
  have le: "ba_lastBatchBlock b + 1 \<le> mg_currentBlock (ba_state b)"
    using sent(2) assms(3) by (simp add: u64_less_nat u64_le_nat) (subst unat_add_no_wrap; simp)
  note f = built_frame [OF sent(3) assms(3) le]
  have "bt' = bt" "compressed = data" using sent(1) by simp_all
  then show ?thesis
    using read_blocks_carries [OF assms(2) f(1)] f(2-4) sent(4,5,7,8) assms(1)
    by (auto simp: batch_laws_def DecompressData_def compressData_def)
qed simp

lemma batch_data_roundtrip_witness:
  "\<exists>encoded frame. DecompressData example_batch_libs [1] = Some encoded \<and>
    bl_dec_frame example_batch_libs encoded = Some frame \<and> length (bf_Blocks frame) = 1"
proof -
  obtain sm b' where sm: "mg_currentBlock sm = 1" and
    x: "submitBatch batch_example_libs example_batch_libs (simulated_l1 example_geth) (ba_New sm 1000 0) 0
      = Some (b', Some (empty_batch, [1]))"
    by (rule example_chain)
  have c: "codec_laws (lb_C batch_example_libs)" using batch_example_laws by (simp add: libs_laws_def)
  have u: "unat (mg_currentBlock (ba_state (ba_New sm 1000 0))) + 1 < 2 ^ 64" by (simp add: ba_New_def sm)
  from batch_data_roundtrip [OF example_batch_laws c u x]
  show ?thesis by (auto simp: empty_batch_def block_range_def dest: list_all2_lengthD)
qed

text \<open>The position and the index are not persisted: a batcher that starts on an existing chain submits
  it again from block 1 as batch 1, and its record replaces batch 1 of the database and becomes the
  latest, whatever the latest index was.\<close>

theorem restart_resubmits:
  assumes "ethdb_laws (lb_E B)" and "codec_laws (lb_C B)"
    and "submitBatch B Z L1 (ba_New sm client cid) now = Some (b', Some (bt, data))"
    and "enc_batch (lb_C B) bt \<noteq> None" and "\<forall>d ops. ed_Write (lb_E B) d ops \<noteq> None"
  shows "bt_Index bt = 1 \<and> bt_StartBlock bt = 1 \<and> bt_EndBlock bt = mg_currentBlock sm \<and>
    GetLatestBatch B (ba_state b') = Some bt \<and> cdb_ReadBatch (lb_E B) (lb_C B) (mg_chainDB (ba_state b')) 1 = Inr (Some bt)"
  using assms(3)
proof (cases rule: submit_cases)
  case (sent bt' compressed frame encoded m1)
  have bt: "bt' = bt" "bt_Index bt = 1" "bt_StartBlock bt = 1" "bt_EndBlock bt = mg_currentBlock sm"
    using sent by (simp_all add: ba_New_def)
  obtain c where c: "cdb_WriteBatch (lb_E B) (lb_C B) (mg_chainDB m1) bt = Inr c"
  proof -
    obtain y where "enc_batch (lb_C B) bt = Some y" using assms(4) by auto
    moreover obtain d where "ed_Write (lb_E B) (cdb_db (mg_chainDB m1)) [(prefixBatch @ u64_bytes (bt_Index bt), y),
        (keyLatestBatch, u64_bytes (bt_Index bt))] = Some d"
      using assms(5) by blast
    ultimately show ?thesis using that by (simp add: cdb_WriteBatch_def)
  qed
  have db: "mg_chainDB (ba_state b') = c" using sent(13) c bt(1) by (simp add: AddBatch_def)
  obtain data' where e: "enc_batch (lb_C B) bt = Some data'" using assms(4) by auto
  then have "dec_batch (lb_C B) data' = Some bt" using assms(2) by (simp add: codec_laws_def)
  then show ?thesis
    using bt db e WriteBatch_get(1) [OF assms(1) c, of "KBatch 1"] WriteBatch_get(1) [OF assms(1) c, of KLatestBatch]
    by (simp add: GetLatestBatch_def cdb_ReadLatestBatch_def cdb_ReadBatch_def)
qed simp

lemma restart_resubmits_witness:
  "\<exists>sm :: (bytes \<rightharpoonup> bytes) manager. \<exists>b'. mg_currentBlock sm = 1 \<and>
    submitBatch batch_example_libs example_batch_libs (simulated_l1 example_geth) (ba_New sm 1000 0) 0
      = Some (b', Some (empty_batch, [1])) \<and>
    GetLatestBatch batch_example_libs (ba_state b') = Some empty_batch"
proof -
  obtain sm b' where sm: "mg_currentBlock sm = 1" and
    x: "submitBatch batch_example_libs example_batch_libs (simulated_l1 example_geth) (ba_New sm 1000 0) 0
      = Some (b', Some (empty_batch, [1]))"
    by (rule example_chain)
  have "enc_batch (lb_C batch_example_libs) empty_batch \<noteq> None" "\<forall>d ops. ed_Write (lb_E batch_example_libs) d ops \<noteq> None"
    by (simp_all add: batch_example_libs_def example_codec_def only_def mem_db_def)
  from restart_resubmits [OF _ _ x this] batch_example_laws show ?thesis using sm x by (auto simp: libs_laws_def)
qed

text \<open>The transaction hashes of the simulated client repeat: a batch two bytes shorter than the one before
  has the same hash, and takes its place among the pending batches.\<close>

lemma sim_hash_collision:
  assumes "unat n + 3 < 2 ^ 64" and "length data = length data' + 2"
  shows "snd (sim_SendBatchTx g n data) =
    snd (sim_SendBatchTx g (fst (sim_LatestL1Block g (fst (sim_SendBatchTx g n data)))) data')"
proof -
  have "unat (n + 1) = unat n + 1" "unat (n + 1 + 1 + 1) = unat n + 3"
    using assms(1) by (simp_all add: unat_word_ariths)
  then show ?thesis using assms(2) by (simp add: sim_SendBatchTx_def sim_LatestL1Block_def Let_def eval_nat_numeral)
qed

end
