(* ===== verification/Seq_Spec.thy ===== *)
theory Seq_Spec
  imports Pkg_Types "HOL-Library.Multiset" "HOL-Library.Sublist"
begin

section \<open>What a sequencer promises\<close>

text \<open>
  The abstract sequencer: a bag of pending transactions, a chain of blocks that only grows, and the
  number of blocks whose batch was sent. \<open>spec_step\<close> says how each event changes them and \<open>spec_run_conserves\<close>
  what follows for every run. The locale \<open>simulation\<close> is the contract between the steps of a program and
  those of its specification; theory \<open>Sequencer_Invariant\<close> interprets it on the program.
\<close>

subsection \<open>Runs and simulations\<close>

inductive run :: "('s \<Rightarrow> 'e \<Rightarrow> 's \<Rightarrow> bool) \<Rightarrow> 's \<Rightarrow> 's \<Rightarrow> 'e list \<Rightarrow> bool" for step s0 where
  Start: "run step s0 s0 []"
| Step: "run step s0 s tr \<Longrightarrow> step s e s' \<Longrightarrow> run step s0 s' (tr @ [e])"

lemma run_one: "step s0 e s \<Longrightarrow> run step s0 s [e]"
  using run.Step [OF run.Start] by fastforce

lemma run_cons:
  assumes "run step s1 s tr" and "step s0 e s1"
  shows "run step s0 s (e # tr)"
  using assms(1)
proof (induction rule: run.induct)
  case Start
  show ?case using assms(2) by (rule run_one)
next
  case (Step s tr e' s')
  from run.Step [OF Step.IH Step.hyps(2)] show ?case by simp
qed

locale simulation =
  fixes step :: "'s \<Rightarrow> 'e \<Rightarrow> 's \<Rightarrow> bool" and astep :: "'a \<Rightarrow> 'e \<Rightarrow> 'a \<Rightarrow> bool"
    and inv :: "'s \<Rightarrow> 'e list \<Rightarrow> bool" and abs :: "'s \<Rightarrow> 'a"
  assumes step_inv: "inv s tr \<Longrightarrow> step s e s' \<Longrightarrow> inv s' (tr @ [e])"
    and step_sim: "inv s tr \<Longrightarrow> step s e s' \<Longrightarrow> astep (abs s) e (abs s')"
begin

lemma run_inv: "run step s0 s tr \<Longrightarrow> inv s0 [] \<Longrightarrow> inv s tr"
  by (induction rule: run.induct) (auto intro: step_inv)

lemma run_sim: "run step s0 s tr \<Longrightarrow> inv s0 [] \<Longrightarrow> run astep (abs s0) (abs s) tr"
  by (induction rule: run.induct) (auto intro: run.intros step_sim run_inv)

end

subsection \<open>The abstract sequencer\<close>

text \<open>What is seen from outside: a request with the transaction it got accepted, if any; a tick; a submission with
  the batch that L1 took, if any; a look at the confirmations.\<close>

datatype event = Request "hash option" | Tick | Submission "batch option" | Confirmation

definition accepted_in :: "event list \<Rightarrow> hash list" where
  "accepted_in tr = concat (map (\<lambda>e. case e of Request (Some h) \<Rightarrow> [h] | _ \<Rightarrow> []) tr)"

definition batches_in :: "event list \<Rightarrow> batch list" where
  "batches_in tr = concat (map (\<lambda>e. case e of Submission (Some bt) \<Rightarrow> [bt] | _ \<Rightarrow> []) tr)"

lemma trace_simps [simp]: "accepted_in [] = []" "batches_in [] = []"
  "accepted_in (tr @ [Request r]) = accepted_in tr @ (case r of None \<Rightarrow> [] | Some h \<Rightarrow> [h])"
  "accepted_in (tr @ [Tick]) = accepted_in tr" "accepted_in (tr @ [Submission b]) = accepted_in tr"
  "accepted_in (tr @ [Confirmation]) = accepted_in tr"
  "batches_in (tr @ [Request r]) = batches_in tr" "batches_in (tr @ [Tick]) = batches_in tr"
  "batches_in (tr @ [Submission b]) = batches_in tr @ (case b of None \<Rightarrow> [] | Some bt \<Rightarrow> [bt])"
  "batches_in (tr @ [Confirmation]) = batches_in tr"
  by (simp_all add: accepted_in_def batches_in_def split: option.split)

record spec_state =
  sp_pending :: "hash multiset"
  sp_chain :: "hash list list"
  sp_sent :: nat

inductive spec_step :: "spec_state \<Rightarrow> event \<Rightarrow> spec_state \<Rightarrow> bool" where
  Refuse: "spec_step a (Request None) a"
| Accept: "h \<notin># sp_pending a \<Longrightarrow> spec_step a (Request (Some h)) (a\<lparr>sp_pending := add_mset h (sp_pending a)\<rparr>)"
| No_block: "spec_step a Tick a"
| Block: "sp_pending a = mset ts + rest \<Longrightarrow> spec_step a Tick (a\<lparr>sp_pending := rest, sp_chain := sp_chain a @ [ts]\<rparr>)"
| No_batch: "spec_step a (Submission None) a"
| Send: "sp_sent a < length (sp_chain a) \<Longrightarrow> unat (bt_StartBlock bt) = Suc (sp_sent a) \<Longrightarrow>
    unat (bt_EndBlock bt) = length (sp_chain a) \<Longrightarrow>
    spec_step a (Submission (Some bt)) (a\<lparr>sp_sent := length (sp_chain a)\<rparr>)"
| Look: "spec_step a Confirmation a"

definition spec_ok :: "spec_state \<Rightarrow> bool" where
  "spec_ok a \<longleftrightarrow> (\<forall>h. count (sp_pending a) h \<le> 1) \<and> sp_sent a \<le> length (sp_chain a)"

text \<open>What a run conserves: a transaction is pending or in the chain as often as it was accepted (or there from
  the start), the chain only grows, the batches cover it block by block, and no pending one occurs twice.\<close>

definition conserved :: "spec_state \<Rightarrow> spec_state \<Rightarrow> event list \<Rightarrow> bool" where
  "conserved a b tr \<longleftrightarrow>
     sp_pending b + mset (concat (sp_chain b)) = sp_pending a + mset (concat (sp_chain a)) + mset (accepted_in tr) \<and>
     prefix (sp_chain a) (sp_chain b) \<and> sp_sent a \<le> sp_sent b \<and>
     concat (map (\<lambda>bt. [unat (bt_StartBlock bt)..<Suc (unat (bt_EndBlock bt))]) (batches_in tr)) =
       [Suc (sp_sent a)..<Suc (sp_sent b)]"

lemma spec_step_ok: "spec_step a e b \<Longrightarrow> spec_ok a \<Longrightarrow> spec_ok b"
proof (induction rule: spec_step.induct)
  case (Accept h a)
  then show ?case by (auto simp: spec_ok_def not_in_iff)
next
  case (Block a ts rest)
  have "count rest h \<le> count (sp_pending a) h" for h using Block.hyps by simp
  then have "count rest h \<le> 1" for h using Block.prems le_trans by (fastforce simp: spec_ok_def)
  then show ?case using Block.prems by (simp add: spec_ok_def)
qed (simp_all add: spec_ok_def)

lemma upt_glue: "i \<le> j \<Longrightarrow> j \<le> k \<Longrightarrow> [i..<j] @ [j..<k] = [i..<k]"
  by (metis le_Suc_ex upt_add_eq_append)

lemma spec_step_conserves:
  assumes "spec_step b e c" and "conserved a b tr"
  shows "conserved a c (tr @ [e])"
  using assms
proof (induction rule: spec_step.induct)
  case (Block b ts rest)
  then show ?case by (auto simp: conserved_def prefix_def ac_simps)
next
  case (Send b bt)
  then show ?case using upt_glue [of "Suc (sp_sent a)" "Suc (sp_sent b)" "Suc (length (sp_chain b))"]
    by (simp add: conserved_def del: upt_Suc)
qed (simp_all add: conserved_def del: upt_Suc)

lemma spec_run_conserves:
  "run spec_step a b tr \<Longrightarrow> conserved a b tr"
proof (induction rule: run.induct)
  case Start
  then show ?case by (simp add: conserved_def)
qed (rule spec_step_conserves)

lemma spec_run_ok: "run spec_step a b tr \<Longrightarrow> spec_ok a \<Longrightarrow> spec_ok b"
  by (induction rule: run.induct) (auto intro: spec_step_ok)

text \<open>Only ticks make blocks.\<close>

lemma spec_step_no_tick: "spec_step a e b \<Longrightarrow> e \<noteq> Tick \<Longrightarrow> sp_chain b = sp_chain a"
  by (induction rule: spec_step.induct) simp_all

lemma spec_run_no_tick: "run spec_step a b tr \<Longrightarrow> Tick \<notin> set tr \<Longrightarrow> sp_chain b = sp_chain a"
  by (induction rule: run.induct) (auto dest: spec_step_no_tick)

end
