(* ===== verification/Sequencer.thy ===== *)
theory Sequencer
  imports Config Rpc_Server Batcher Seq_Spec
begin

section \<open>The running sequencer: cmd/sequencer/main.go\<close>

text \<open>
  \<open>main\<close> builds the components around shared objects: the producer, the batcher and the RPC handler
  point to one pool, one state manager, one fee model, one sizer, one receipt store and one set of
  counters. The model keeps one copy of each, in the producer's record; \<open>handler_of\<close> and \<open>batcher_of\<close>
  are the other components' views of it, and what a step of theirs changes is written back. The
  goroutines take turns: each handler, tick and submission is one step, which the mutexes of the
  components make of the parts that touch shared objects.
\<close>

subsection \<open>Building\<close>

record ('c, 'd) sequencer =
  sn_producer :: "(laned, 'd) producer"
  sn_tastescore :: taste_client
  sn_batcher :: "('c, 'd) batcher"
  sn_ws :: ws_manager
  sn_chainID :: u64

text \<open>An empty path is a database in memory. Opening one on disk is a parameter.\<close>

definition NewStateStore :: "'d \<Rightarrow> (string \<Rightarrow> 'd option) \<Rightarrow> string \<Rightarrow> 'd option" where
  "NewStateStore memory open_disk dataDir =
     (if dataDir = '''' then Some memory else open_disk (dataDir @ ''/chaindata''))"

text \<open>A genesis file that cannot be read or parsed is replaced by the default genesis.\<close>

definition LoadGenesis :: "(string \<Rightarrow> genesis option) \<Rightarrow> string option \<Rightarrow> string + genesis" where
  "LoadGenesis parse file = (case file of
     None \<Rightarrow> Inl ''read genesis file''
   | Some data \<Rightarrow> (case parse data of None \<Rightarrow> Inl ''parse genesis'' | Some gen \<Rightarrow> Inr gen))"

definition genesis_of :: "(string \<Rightarrow> genesis option) \<Rightarrow> string option \<Rightarrow> genesis" where
  "genesis_of parse file = (case LoadGenesis parse file of Inl e \<Rightarrow> DefaultGenesis | Inr gen \<Rightarrow> gen)"

definition data_dir :: "config \<Rightarrow> string" where
  "data_dir cfg = (let d = sc_DataDir (cf_Sequencer cfg) in if d = '''' then ''./data'' else d)"

datatype start_error = ErrStateDatabase | ErrStateManager mgr_error | PanicMempool

text \<open>The components after the start, with the counters attached.\<close>

definition start_sequencer :: "('d, 's) libs \<Rightarrow> 'd \<Rightarrow> (string \<Rightarrow> 'd option) \<Rightarrow> config \<Rightarrow> genesis \<Rightarrow>
    start_error + (u64, 'd) sequencer" where
  "start_sequencer B memory open_disk cfg gen =
     (let s = cf_Sequencer cfg; t = cf_TasteScore cfg;
          sequencerAddr = gl_HexToAddress (lb_G B) ''0xf39Fd6e51aad88F6F4ce6aB8827279cffFb92266'' in
      (case NewStateStore memory open_disk (data_dir cfg) of
         None \<Rightarrow> Inl ErrStateDatabase
       | Some disk \<Rightarrow> (case NewManager B (sc_ChainID s) sequencerAddr gen disk of
           Inl e \<Rightarrow> Inl (ErrStateManager e)
         | Inr sm \<Rightarrow> (case lm_New (ts_OrderingWeight t) (wrap_int (sc_MaxTxPerBlock s * 10)) of
             None \<Rightarrow> Inl PanicMempool
           | Some mp \<Rightarrow>
               (let p = pd_New (sc_MaxTxPerBlock s) (sc_MaxBlockGas s) mp sm NewDynamicFeeModel;
                    p1 = SetAdaptiveSizer p (NewAdaptiveBlockSizer (sizer_config_of cfg));
                    p2 = SetReceiptStore p1 NewReceiptStore;
                    b = ba_New sm NewSimulatedL1Client (sc_ChainID s);
                    met = NewMetrics
                in Inr \<lparr>sn_producer = pd_SetMetrics p2 met,
                     sn_tastescore = tc_New (ts_Enabled t) (ts_CacheTTL t) (ts_Chains t),
                     sn_batcher = ba_SetMetrics b met, sn_ws = NewWSSubscriptionManager,
                     sn_chainID = sc_ChainID s\<rparr>)))))"

subsection \<open>Views\<close>

definition handler_of :: "('c, 'd) sequencer \<Rightarrow> (laned, 'd) handler" where
  "handler_of s = (let p = sn_producer s;
       h = rh_SetLanedPool (NewHandler (pd_mempool p) (pd_state p) (Some (sn_tastescore s)) (sn_chainID s) (pd_feeModel p))
     in h\<lparr>rh_receiptStore := pd_receiptStore p, rh_sizer := pd_sizer p, rh_metrics := pd_metrics p\<rparr>)"

definition put_handler :: "('c, 'd) sequencer \<Rightarrow> (laned, 'd) handler \<Rightarrow> ('c, 'd) sequencer" where
  "put_handler s h = s\<lparr>sn_producer := (sn_producer s)\<lparr>pd_mempool := rh_mempool h, pd_state := rh_state h,
       pd_feeModel := rh_feeModel h, pd_receiptStore := rh_receiptStore h, pd_sizer := rh_sizer h,
       pd_metrics := rh_metrics h\<rparr>,
     sn_tastescore := (case rh_tastescore h of None \<Rightarrow> sn_tastescore s | Some c \<Rightarrow> c)\<rparr>"

definition batcher_of :: "('c, 'd) sequencer \<Rightarrow> ('c, 'd) batcher" where
  "batcher_of s = (sn_batcher s)\<lparr>ba_state := pd_state (sn_producer s), ba_metrics := pd_metrics (sn_producer s)\<rparr>"

definition put_batcher :: "('c, 'd) sequencer \<Rightarrow> ('c, 'd) batcher \<Rightarrow> ('c, 'd) sequencer" where
  "put_batcher s b = s\<lparr>sn_batcher := b,
     sn_producer := (sn_producer s)\<lparr>pd_state := ba_state b, pd_metrics := ba_metrics b\<rparr>\<rparr>"

subsection \<open>Steps\<close>

definition http_step :: "('d, 's) libs \<Rightarrow> rpc_lib \<Rightarrow> (bytes \<Rightarrow> rpc_request option) \<Rightarrow> ('c, 'd) sequencer \<Rightarrow> rpc_env \<Rightarrow>
    string \<Rightarrow> string \<Rightarrow> bytes option \<Rightarrow> (http_reply \<times> ('c, 'd) sequencer) option" where
  "http_step B R parse s env path method body =
     map_option (\<lambda>(reply, h). (reply, put_handler s h)) (serveHTTP B laned_ops R env parse (handler_of s) path method body)"

definition ws_step :: "('d, 's) libs \<Rightarrow> rpc_lib \<Rightarrow> ('c, 'd) sequencer \<Rightarrow> rpc_env \<Rightarrow> nat \<Rightarrow> ws_read \<Rightarrow>
    (ws_message option \<times> ('c, 'd) sequencer) option" where
  "ws_step B R s env conn r =
     map_option (\<lambda>((m, h), a, go). (a, (put_handler s h)\<lparr>sn_ws := m\<rparr>))
       (HandleWS B laned_ops R env conn r (sn_ws s, handler_of s))"

definition tick_step :: "('d, 's) libs \<Rightarrow> ('c, 'd) sequencer \<Rightarrow> int \<Rightarrow> ('c, 'd) sequencer option" where
  "tick_step B s now = map_option (\<lambda>p. s\<lparr>sn_producer := p\<rparr>) (produceBlock B laned_ops (sn_producer s) now)"

definition submit_step :: "('d, 's) libs \<Rightarrow> batch_libs \<Rightarrow> 'c l1_client \<Rightarrow> ('c, 'd) sequencer \<Rightarrow> int \<Rightarrow>
    ((batch \<times> bytes) option \<times> ('c, 'd) sequencer) option" where
  "submit_step B Z L1 s now =
     map_option (\<lambda>(b, out). (out, put_batcher s b)) (submitBatch B Z L1 (batcher_of s) now)"

definition confirm_step :: "'c l1_client \<Rightarrow> ('c, 'd) sequencer \<Rightarrow> ('c, 'd) sequencer" where
  "confirm_step L1 s = put_batcher s (checkConfirmations L1 (batcher_of s))"

subsection \<open>Runs\<close>

text \<open>The transaction that a response says was accepted.\<close>

definition accepted :: "rpc_request \<Rightarrow> rpc_response \<Rightarrow> hash option" where
  "accepted req resp = (if rq_Method req = ''eth_sendRawTransaction'' then
     (case rs_Reply resp of RpcResult (VHash h) \<Rightarrow> Some h | _ \<Rightarrow> None) else None)"

definition http_accepted :: "(bytes \<Rightarrow> rpc_request option) \<Rightarrow> bytes option \<Rightarrow> http_reply \<Rightarrow> hash option" where
  "http_accepted parse body reply = (case reply of
     HttpRpc resp \<Rightarrow> (case Option.bind (read_limited (2 ^ 20) body) parse of
       None \<Rightarrow> None | Some req \<Rightarrow> accepted req resp)
   | _ \<Rightarrow> None)"

definition ws_accepted :: "ws_read \<Rightarrow> ws_message option \<Rightarrow> hash option" where
  "ws_accepted r a = (case (r, a) of
     (ReadRequest req, Some (WsResponse resp)) \<Rightarrow> accepted req resp | _ \<Rightarrow> None)"

text \<open>
  The steps of the program, labelled with what is seen of them. Two have a condition: block numbers do
  not wrap, and the key of a new batch is not the key of a block of the chain (the root theory shows what
  happens to the block otherwise).
\<close>

inductive seq_step :: "('d, 's) libs \<Rightarrow> rpc_lib \<Rightarrow> (bytes \<Rightarrow> rpc_request option) \<Rightarrow> batch_libs \<Rightarrow> 'c l1_client \<Rightarrow>
    ('c, 'd) sequencer \<Rightarrow> event \<Rightarrow> ('c, 'd) sequencer \<Rightarrow> bool"
  for B R parse Z L1 where
  Http: "http_step B R parse s env path method body = Some (reply, s') \<Longrightarrow>
    seq_step B R parse Z L1 s (Request (http_accepted parse body reply)) s'"
| Ws: "ws_step B R s env conn r = Some (a, s') \<Longrightarrow> seq_step B R parse Z L1 s (Request (ws_accepted r a)) s'"
| Tick: "unat (mg_currentBlock (pd_state (sn_producer s))) + 2 < 2 ^ 64 \<Longrightarrow> tick_step B s now = Some s' \<Longrightarrow>
    seq_step B R parse Z L1 s Tick s'"
| Submit: "\<forall>n \<le> mg_currentBlock (pd_state (sn_producer s)). \<not> clash n (ba_batchIndex (sn_batcher s) + 1) \<Longrightarrow>
    submit_step B Z L1 s now = Some (out, s') \<Longrightarrow> seq_step B R parse Z L1 s (Submission (map_option fst out)) s'"
| Confirm: "seq_step B R parse Z L1 s Confirmation (confirm_step L1 s)"

end
