(* ===== verification/Sequencer_Invariant.thy ===== *)
theory Sequencer_Invariant
  imports Sequencer
begin

section \<open>The invariant of the running sequencer\<close>

text \<open>
  What every step keeps, whoever takes it: the pool and its transactions, the chain, the bounds of fees
  and sizing, the scores in the cache, the batches. A request is covered by the interface of the pool
  (\<open>lm.send_outcome\<close>), a tick by \<open>lm.tick_full\<close>, a submission by \<open>submit_cases\<close>. Then the start, and
  which steps return.
\<close>

subsection \<open>What a request keeps\<close>

text \<open>The transactions that a request can bring: their hashes are 32 bytes and their gas does not wrap in a block.\<close>

definition txs_sane :: "rpc_lib \<Rightarrow> bool" where
  "txs_sane R \<longleftrightarrow> (\<forall>raw t. rl_DecodeTx R raw = Some t \<longrightarrow>
     length (tx_Hash t) = 32 \<and> unat (tx_Gas t) + 30000000 < 2 ^ 64)"

text \<open>What the handler keeps of the pool and of the scores, and what an accepted transaction means.\<close>

definition pool_ok :: "laned \<Rightarrow> bool" where
  "pool_ok p \<longleftrightarrow> lm_inv p \<and> 0 \<le> lm_maxSize p \<and> pending_ok (lm_Pending p)"

definition pool_hashes :: "laned \<Rightarrow> hash multiset" where
  "pool_hashes p = mset (map meta_hash (lm_Pending p))"

lemma pool_hashes_count: "lm_inv p \<Longrightarrow> count (pool_hashes p) h \<le> 1"
  using lm.hashes_distinct distinct_count_atmost_1 [of "map meta_hash (lm_Pending p)"] by (simp add: pool_hashes_def)

definition pool_takes :: "hash option \<Rightarrow> laned \<Rightarrow> laned \<Rightarrow> bool" where
  "pool_takes r p q \<longleftrightarrow> (case r of None \<Rightarrow> pool_hashes q = pool_hashes p
     | Some a \<Rightarrow> a \<notin># pool_hashes p \<and> pool_hashes q = add_mset a (pool_hashes p))"

lemma pool_takes_simps [simp]: "pool_takes None p p"
  "pool_takes (Some a) p q \<longleftrightarrow> a \<notin># pool_hashes p \<and> pool_hashes q = add_mset a (pool_hashes p)"
  by (simp_all add: pool_takes_def)

text \<open>Requests other than a send leave the pool alone; one new transaction keeps it well formed.\<close>

lemma handle_other:
  assumes H: "Handle B laned_ops R env h req = Some (resp, h')" and s: "scores_ok R h"
    and other: "rq_Method req \<noteq> ''eth_sendRawTransaction''"
  shows "rh_mempool h' = rh_mempool h \<and> scores_ok R h'"
  using H
proof (cases rule: Handle_cases)
  case (failed e h1)
  show ?thesis using dispatch_core [OF failed(1)] dispatch_scores [OF failed(1) _ other] s failed(3) other by simp
next
  case (ok v)
  show ?thesis using dispatch_core [OF ok(1)] dispatch_scores [OF ok(1) _ other] s other by simp
qed (use s in simp)

lemma pool_takes_new:
  assumes p: "pool_ok p" and q: "lm_inv q" "lm_maxSize q = lm_maxSize p"
    and m: "mset (lm_Pending q) = add_mset (new_meta w t sender score now) (mset (lm_Pending p))"
    and t: "length (tx_Hash t) = 32" "unat (tx_Gas t) + 30000000 < 2 ^ 64" "unit_f64 score"
  shows "pool_ok q \<and> pool_takes (Some (tx_Hash t)) p q"
proof -
  have set: "set (lm_Pending q) = insert (new_meta w t sender score now) (set (lm_Pending p))"
    using m by (metis set_mset_add_mset_insert set_mset_mset)
  have "pending_ok (lm_Pending q)"
    using p t unit_f64_finite [OF t(3)] unfolding pending_ok_def pool_ok_def set by simp
  moreover have h: "pool_hashes q = add_mset (tx_Hash t) (pool_hashes p)"
    using arg_cong [OF m, of "image_mset meta_hash"] by (simp add: pool_hashes_def)
  moreover have "tx_Hash t \<notin># pool_hashes p"
    using pool_hashes_count [OF q(1), of "tx_Hash t"] by (simp add: h not_in_iff)
  ultimately show ?thesis using p q by (simp add: pool_ok_def)
qed

lemma handle_keeps:
  assumes H: "Handle B laned_ops R env h req = Some (resp, h')" and p: "pool_ok (rh_mempool h)"
    and s: "scores_ok R h" and R: "txs_sane R"
  shows "lm_maxSize (rh_mempool h') = lm_maxSize (rh_mempool h) \<and> pool_ok (rh_mempool h') \<and> scores_ok R h' \<and>
    pool_takes (accepted req resp) (rh_mempool h) (rh_mempool h')"
proof (cases "rq_Method req = ''eth_sendRawTransaction''")
  case False
  then show ?thesis using handle_other [OF H s] p by (simp add: accepted_def)
next
  case True
  then obtain params i where req: "req = send_request params i" by (cases req) (auto simp: send_request_def)
  have inv: "lm_inv (rh_mempool h)" using p by (simp add: pool_ok_def)
  show ?thesis
  proof (cases "\<exists>t sender. sends R (rh_chainID h) params t sender")
    case False
    then have "h' = count_error (count_request h)" "accepted req resp = None"
      using send_outcomes [OF H [unfolded req]] by (auto simp: accepted_def)
    then show ?thesis using p s by simp
  next
    case True
    then obtain t sender where t: "sends R (rh_chainID h) params t sender" by blast
    then have sane: "length (tx_Hash t) = 32" "unat (tx_Gas t) + 30000000 < 2 ^ 64"
      using R by (auto simp: sends_def txs_sane_def split: option.splits)
    have ops: "tp_Add laned_ops = lm_Add" by (simp add: laned_ops_def)
    from lm.send_outcome [OF ops inv t s, of B env i] H [unfolded req]
    have o: "scores_ok R h'" "lm_inv (rh_mempool h')" "lm_maxSize (rh_mempool h') = lm_maxSize (rh_mempool h)"
      "(rh_mempool h' = rh_mempool h \<and> (\<exists>e. rs_Reply resp = RpcFail (- 32000) e)) \<or>
       (rs_Reply resp = RpcResult (VHash (tx_Hash t)) \<and> (\<exists>score. unit_f64 score \<and> mset (lm_Pending (rh_mempool h')) =
          add_mset (new_meta (lm_tasteScoreWeight (rh_mempool h)) t sender score (re_now env)) (mset (lm_Pending (rh_mempool h)))))"
      by (auto split: if_splits)
    from o(4) show ?thesis
    proof
      assume a: "rh_mempool h' = rh_mempool h \<and> (\<exists>e. rs_Reply resp = RpcFail (- 32000) e)"
      then show ?thesis using p o(1) by (auto simp: accepted_def)
    next
      assume a: "rs_Reply resp = RpcResult (VHash (tx_Hash t)) \<and> (\<exists>score. unit_f64 score \<and> mset (lm_Pending (rh_mempool h')) =
          add_mset (new_meta (lm_tasteScoreWeight (rh_mempool h)) t sender score (re_now env)) (mset (lm_Pending (rh_mempool h))))"
      then obtain score where sc: "unit_f64 score" and m: "mset (lm_Pending (rh_mempool h')) =
          add_mset (new_meta (lm_tasteScoreWeight (rh_mempool h)) t sender score (re_now env)) (mset (lm_Pending (rh_mempool h)))"
        by blast
      from pool_takes_new [OF p o(2,3) m sane sc] show ?thesis
        using a o(1,3) by (simp add: req send_request_def accepted_def)
    qed
  qed
qed

subsection \<open>The invariant\<close>

definition block_hashes :: "('d, 's) libs \<Rightarrow> 'd manager \<Rightarrow> u64 \<Rightarrow> hash list" where
  "block_hashes B m n = (case mg_GetBlock B m n of None \<Rightarrow> [] | Some b \<Rightarrow> map tx_Hash (bk_Transactions b))"

definition chain_view :: "('d, 's) libs \<Rightarrow> 'd manager \<Rightarrow> hash list list" where
  "chain_view B m = map (\<lambda>k. block_hashes B m (of_nat k)) [1..<Suc (unat (mg_currentBlock m))]"

text \<open>The state of the abstract sequencer that a state of the program stands for.\<close>

definition spec_of :: "('d, 's) libs \<Rightarrow> ('c, 'd) sequencer \<Rightarrow> spec_state" where
  "spec_of B s = \<lparr>sp_pending = pool_hashes (pd_mempool (sn_producer s)),
     sp_chain = chain_view B (pd_state (sn_producer s)), sp_sent = unat (ba_lastBatchBlock (sn_batcher s))\<rparr>"

definition chain_ok :: "('d, 's) libs \<Rightarrow> 'd manager \<Rightarrow> bool" where
  "chain_ok B m \<longleftrightarrow> unat (mg_currentBlock m) + 1 < 2 ^ 64 \<and>
     (\<forall>n. 0 < n \<and> n \<le> mg_currentBlock m \<longrightarrow> stored_block B m n)"

text \<open>What no step changes: the bounds of the sizer and of the fee, and the capacity of the pool.\<close>

definition limits_of :: "('c, 'd) sequencer \<Rightarrow> (u64 \<times> u64 \<times> int \<times> int) option \<times> int \<times> int \<times> int" where
  "limits_of s = (let p = sn_producer s in
     (map_option (\<lambda>z. (sz_minGasLimit z, sz_maxGasLimit z, sz_minMaxTx z, sz_maxMaxTx z)) (pd_sizer p),
      fm_minBaseFee (pd_feeModel p), fm_maxBaseFee (pd_feeModel p), lm_maxSize (pd_mempool p)))"

text \<open>The invariant of a run.\<close>

definition seq_ok :: "('d, 's) libs \<Rightarrow> rpc_lib \<Rightarrow> (u64 \<times> u64 \<times> int \<times> int) option \<times> int \<times> int \<times> int \<Rightarrow>
    ('c, 'd) sequencer \<Rightarrow> batch list \<Rightarrow> bool" where
  "seq_ok B R lims s hist \<longleftrightarrow> limits_of s = lims \<and> (let p = sn_producer s in
     pool_ok (pd_mempool p) \<and> fees_bounded (pd_feeModel p) \<and>
     (\<exists>z. pd_sizer p = Some z \<and> sizer_sound z \<and> sizer_bounded z) \<and> scores_ok R (handler_of s) \<and>
     chain_ok B (pd_state p) \<and>
     run_ok (batcher_of s) hist)"

lemma handler_of_fields [simp]: "rh_mempool (handler_of s) = pd_mempool (sn_producer s)"
  "rh_state (handler_of s) = pd_state (sn_producer s)" "rh_feeModel (handler_of s) = pd_feeModel (sn_producer s)"
  "rh_receiptStore (handler_of s) = pd_receiptStore (sn_producer s)" "rh_sizer (handler_of s) = pd_sizer (sn_producer s)"
  "rh_metrics (handler_of s) = pd_metrics (sn_producer s)" "rh_tastescore (handler_of s) = Some (sn_tastescore s)"
  "rh_chainID (handler_of s) = sn_chainID s" "rh_lanedPool (handler_of s)"
  by (simp_all add: handler_of_def Let_def NewHandler_def rh_SetLanedPool_def)

lemma batcher_of_fields [simp]: "ba_state (batcher_of s) = pd_state (sn_producer s)"
  "ba_metrics (batcher_of s) = pd_metrics (sn_producer s)" "ba_lastBatchBlock (batcher_of s) = ba_lastBatchBlock (sn_batcher s)"
  "ba_batchIndex (batcher_of s) = ba_batchIndex (sn_batcher s)" "ba_pendingBatches (batcher_of s) = ba_pendingBatches (sn_batcher s)"
  "ba_client (batcher_of s) = ba_client (sn_batcher s)" "ba_chainID (batcher_of s) = ba_chainID (sn_batcher s)"
  by (simp_all add: batcher_of_def)

lemma batcher_put [simp]: "batcher_of (put_batcher s b) = b"
  by (simp add: batcher_of_def put_batcher_def)

text \<open>Nothing is lost between a component and its view.\<close>

lemma handler_put: "same_core (handler_of s) h \<Longrightarrow> rh_tastescore h \<noteq> None \<Longrightarrow> handler_of (put_handler s h) = h"
  by (cases h) (auto simp: same_core_def handler_of_def put_handler_def Let_def NewHandler_def rh_SetLanedPool_def)

lemma handler_seq_ok:
  assumes s: "seq_ok B R lims s hist" and R: "txs_sane R"
    and H: "Handle B laned_ops R env (handler_of s) req = Some (resp, h')"
  shows "seq_ok B R lims (put_handler s h') hist \<and>
    spec_step (spec_of B s) (Request (accepted req resp)) (spec_of B (put_handler s h'))"
proof -
  have k: "lm_maxSize (rh_mempool h') = lm_maxSize (pd_mempool (sn_producer s)) \<and> pool_ok (rh_mempool h') \<and> scores_ok R h' \<and>
    pool_takes (accepted req resp) (pd_mempool (sn_producer s)) (rh_mempool h')"
    using handle_keeps [OF H _ _ R] s by (simp add: seq_ok_def Let_def)
  have c: "same_core (handler_of s) h'"
    using Handle_core [OF H] .
  have sc: "scores_ok R (handler_of (put_handler s h'))"
    using s k by (auto simp: seq_ok_def Let_def scores_ok_def put_handler_def split: option.splits)
  have "seq_ok B R lims (put_handler s h') hist"
    using s k c sc
    by (auto simp: seq_ok_def limits_of_def Let_def put_handler_def same_core_def run_ok_def)
  moreover have "spec_of B (put_handler s h') = (spec_of B s)\<lparr>sp_pending := pool_hashes (rh_mempool h')\<rparr>"
    using c by (simp add: spec_of_def put_handler_def same_core_def)
  ultimately show ?thesis
    using k spec_step.Refuse [of "spec_of B s"] spec_step.Accept [of _ "spec_of B s"]
    by (auto simp: spec_of_def pool_takes_def split: option.splits)
qed

lemma put_handler_id: "put_handler s (handler_of s) = s"
  by (simp add: put_handler_def)

lemma accepted_fail [simp]: "accepted req \<lparr>rs_ID = i, rs_Reply = RpcFail c e\<rparr> = None"
  by (simp add: accepted_def)

lemma http_seq_ok:
  assumes s: "seq_ok B R lims s hist" and R: "txs_sane R" and x: "http_step B R parse s env path method body = Some (reply, s')"
  shows "seq_ok B R lims s' hist \<and> spec_step (spec_of B s) (Request (http_accepted parse body reply)) (spec_of B s')"
proof -
  obtain h' where h: "serveHTTP B laned_ops R env parse (handler_of s) path method body = Some (reply, h')" "s' = put_handler s h'"
    using x by (auto simp: http_step_def)
  from h(1) show ?thesis
  proof (cases rule: serveHTTP_cases)
    case probe
    then have "http_accepted parse body reply = None" by (simp add: http_accepted_def)
    then show ?thesis using s probe(2) h(2) by (simp add: put_handler_id spec_step.Refuse)
  next
    case rpc
    then show ?thesis
    proof (cases rule: handleHTTP_cases)
      case refused
      then have "http_accepted parse body reply = None"
        by (auto simp: http_accepted_def writeError_def split: option.splits)
      then show ?thesis using s refused(1) h(2) by (simp add: put_handler_id spec_step.Refuse)
    next
      case (handled data req resp)
      then have "http_accepted parse body reply = accepted req resp" by (simp add: http_accepted_def)
      then show ?thesis using handler_seq_ok [OF s R handled(4)] h(2) by simp
    qed
  qed
qed

lemma ws_field [simp]: "seq_ok B R lims (s\<lparr>sn_ws := m\<rparr>) hist = seq_ok B R lims s hist"
  "spec_of B (s\<lparr>sn_ws := m\<rparr>) = spec_of B s"
  by (simp_all add: seq_ok_def limits_of_def Let_def scores_ok_def run_ok_def spec_of_def)

lemma ws_seq_ok:
  assumes s: "seq_ok B R lims s hist" and R: "txs_sane R" and x: "ws_step B R s env conn r = Some (a, s')"
  shows "seq_ok B R lims s' hist \<and> spec_step (spec_of B s) (Request (ws_accepted r a)) (spec_of B s')"
proof -
  obtain m h' go where h: "HandleWS B laned_ops R env conn r (sn_ws s, handler_of s) = Some ((m, h'), a, go)"
    and s': "s' = (put_handler s h')\<lparr>sn_ws := m\<rparr>"
    using x by (auto simp: ws_step_def)
  consider (same) "h' = handler_of s" "ws_accepted r a = None"
    | (handled) req resp where "r = ReadRequest req" "a = Some (WsResponse resp)"
        "Handle B laned_ops R env (handler_of s) req = Some (resp, h')"
    using h by (auto simp: HandleWS_def ws_accepted_def accepted_def ws_error_def ws_result_def handleSubscribe_def
        handleUnsubscribe_def Let_def split: ws_read.splits if_splits option.splits prod.splits)
  then show ?thesis
  proof cases
    case same
    then show ?thesis using s s' by (simp add: put_handler_id spec_step.Refuse)
  next
    case handled
    then show ?thesis using handler_seq_ok [OF s R handled(3)] s' by (simp add: ws_accepted_def)
  qed
qed

lemma of_nat_le: "k \<le> unat (n :: u64) \<Longrightarrow> of_nat k \<le> n \<and> unat (of_nat k :: u64) = k"
  using unat_u64_bound [of n] by (simp add: u64_le_nat unat_of_nat del: unat_u64_bound)

lemma block_hashes_cong:
  assumes "\<And>n. n \<le> mg_currentBlock m \<Longrightarrow> mg_GetBlock B m' n = mg_GetBlock B m n" and "k \<le> unat (mg_currentBlock m)"
  shows "block_hashes B m' (of_nat k) = block_hashes B m (of_nat k)"
  using assms of_nat_le [OF assms(2)] by (simp add: block_hashes_def)

lemma chain_view_cong:
  assumes "mg_currentBlock m' = mg_currentBlock m"
    and "\<And>n. n \<le> mg_currentBlock m \<Longrightarrow> mg_GetBlock B m' n = mg_GetBlock B m n"
  shows "chain_view B m' = chain_view B m" and "chain_ok B m' = chain_ok B m"
proof -
  show "chain_view B m' = chain_view B m"
    unfolding chain_view_def assms(1) by (intro map_cong refl block_hashes_cong assms(2)) auto
  show "chain_ok B m' = chain_ok B m"
    unfolding chain_ok_def assms(1) stored_block_def using assms(2) by auto
qed

text \<open>A block at the end of the chain.\<close>

lemma chain_view_block:
  assumes "unat (mg_currentBlock m) + 1 < 2 ^ 64" and "mg_currentBlock m' = mg_currentBlock m + 1"
    and "\<And>n. n \<le> mg_currentBlock m \<Longrightarrow> mg_GetBlock B m' n = mg_GetBlock B m n"
    and "mg_GetBlock B m' (mg_currentBlock m + 1) = Some b"
  shows "chain_view B m' = chain_view B m @ [map tx_Hash (bk_Transactions b)]"
proof -
  have c: "unat (mg_currentBlock m + 1) = Suc (unat (mg_currentBlock m))"
    using assms(1) by (subst unat_add_no_wrap) simp_all
  moreover have "of_nat (unat x) = x" for x :: u64 by simp
  ultimately have k: "(of_nat (Suc (unat (mg_currentBlock m))) :: u64) = mg_currentBlock m + 1" by metis
  have "block_hashes B m' (of_nat (Suc (unat (mg_currentBlock m)))) = map tx_Hash (bk_Transactions b)"
    by (simp only: k block_hashes_def assms(4) option.case)
  moreover have "map (\<lambda>k. block_hashes B m' (of_nat k)) [1..<Suc (unat (mg_currentBlock m))] = chain_view B m"
    unfolding chain_view_def by (intro map_cong refl block_hashes_cong assms(3)) auto
  ultimately show ?thesis unfolding chain_view_def [of B m'] assms(2) c by simp
qed

lemma chain_ok_block:
  assumes n: "unat (mg_currentBlock m) + 2 < 2 ^ 64" and "chain_ok B m" and cur: "mg_currentBlock m' = mg_currentBlock m + 1"
    and old: "\<And>i. i \<le> mg_currentBlock m \<Longrightarrow> mg_GetBlock B m' i = mg_GetBlock B m i"
    and st: "stored_block B m' (mg_currentBlock m + 1)"
  shows "chain_ok B m' \<and> mg_currentBlock m \<le> mg_currentBlock m'"
proof -
  let ?c = "mg_currentBlock m"
  have c1: "unat (?c + 1) = Suc (unat ?c)" using n by (subst unat_add_no_wrap) simp_all
  then have le: "k \<le> ?c + 1 \<longleftrightarrow> k \<le> ?c \<or> k = ?c + 1" for k
    by (auto simp: u64_le_nat word_unat_eq_iff)
  have "stored_block B m' k" if "0 < k" "k \<le> ?c + 1" for k
    using that le [of k] st old [of k] assms(2) by (auto simp: chain_ok_def stored_block_def)
  then show ?thesis using n c1 cur le by (auto simp: chain_ok_def)
qed

lemma tick_seq_ok:
  assumes s: "seq_ok B R lims s hist" and B: "libs_laws B"
    and n: "unat (mg_currentBlock (pd_state (sn_producer s))) + 2 < 2 ^ 64" and x: "tick_step B s now = Some s'"
  shows "seq_ok B R lims s' hist \<and> spec_step (spec_of B s) Tick (spec_of B s')"
proof -
  let ?p = "sn_producer s" and ?c = "mg_currentBlock (pd_state (sn_producer s))"
  have p: "pool_ok (pd_mempool ?p)" and chain: "chain_ok B (pd_state ?p)" using s by (simp_all add: seq_ok_def Let_def)
  have ops: "tp_Add laned_ops = lm_Add" "tp_PopBatch laned_ops = lm_PopBatch" by (simp_all add: laned_ops_def)
  have inv: "lm_inv (pd_mempool ?p)" "lm_Len (pd_mempool ?p) \<le> lm_maxSize (pd_mempool ?p)" "pending_ok (lm_Pending (pd_mempool ?p))"
    using p by (auto simp: pool_ok_def lm_inv_def lm_Len_def)
  obtain p' where p': "produceBlock B laned_ops ?p now = Some p'" "lm_inv (pd_mempool p')" "tick_spec B lm_Pending ?p p'"
      "tick_keeps B lm_Pending lm_maxSize ?p p'"
    using lm.tick_full [OF ops B inv] by blast
  have s': "s' = s\<lparr>sn_producer := p'\<rparr>" using x p'(1) by (simp add: tick_step_def)
  have keeps: "lm_maxSize (pd_mempool p') = lm_maxSize (pd_mempool ?p)" "pending_ok (lm_Pending (pd_mempool p'))"
      "\<And>i. i \<noteq> ?c + 1 \<Longrightarrow> mg_GetBlock B (pd_state p') i = mg_GetBlock B (pd_state ?p) i"
      "mg_currentBlock (pd_state p') \<noteq> ?c \<Longrightarrow> stored_block B (pd_state p') (?c + 1)"
    using p'(4) by (simp_all add: tick_keeps_def)
  have pool: "pool_ok (pd_mempool p')" using p p'(2) keeps(1,2) by (simp add: pool_ok_def)
  have fees: "fees_bounded (pd_feeModel p') \<and> (\<exists>z. pd_sizer p' = Some z \<and> sizer_sound z \<and> sizer_bounded z)"
    using p'(4) s by (auto simp: tick_keeps_def seq_ok_def Let_def fm_Adjust_bounded adjust_sound adjust_bounded)
  have lims: "limits_of s' = lims"
    using p'(4) s by (auto simp: s' tick_keeps_def seq_ok_def limits_of_def Let_def option.map_comp comp_def)
  have c1: "unat (?c + 1) = Suc (unat ?c)" using n by (subst unat_add_no_wrap) simp_all
  have old: "mg_GetBlock B (pd_state p') i = mg_GetBlock B (pd_state ?p) i" if "i \<le> ?c" for i
    using that c1 by (intro keeps(3)) (auto simp: u64_le_nat)
  have main: "chain_ok B (pd_state p') \<and> spec_step (spec_of B s) Tick (spec_of B s') \<and> ?c \<le> mg_currentBlock (pd_state p')"
    using p'(3) unfolding tick_spec_def
  proof (elim disjE exE conjE)
    fix b
    assume get: "mg_GetBlock B (pd_state p') (?c + 1) = Some b" and cur: "mg_currentBlock (pd_state p') = ?c + 1"
      and ms: "mset (map meta_hash (lm_Pending (pd_mempool ?p)))
          = mset (map tx_Hash (bk_Transactions b)) + mset (map meta_hash (lm_Pending (pd_mempool p')))"
    let ?ts = "map tx_Hash (bk_Transactions b)" and ?rest = "pool_hashes (pd_mempool p')"
    have view: "chain_view B (pd_state p') = chain_view B (pd_state ?p) @ [?ts]"
      using chain_view_block [OF _ cur old get] n by simp
    have "sp_pending (spec_of B s) = mset ?ts + ?rest" using ms by (simp add: spec_of_def pool_hashes_def)
    then have "spec_step (spec_of B s) Tick ((spec_of B s)\<lparr>sp_pending := ?rest, sp_chain := sp_chain (spec_of B s) @ [?ts]\<rparr>)"
      by (rule spec_step.Block)
    then have "spec_step (spec_of B s) Tick (spec_of B s')"
      using view by (simp add: spec_of_def s')
    moreover have "?c + 1 \<noteq> ?c" using c1 by (simp add: word_unat_eq_iff)
    ultimately show ?thesis using chain_ok_block [OF n chain cur old keeps(4)] cur by simp
  next
    assume cur: "mg_currentBlock (pd_state p') = ?c"
      and ms: "mset (map Tx (lm_Pending (pd_mempool p'))) = mset (map Tx (lm_Pending (pd_mempool ?p)))"
    have "pool_hashes (pd_mempool p') = pool_hashes (pd_mempool ?p)"
      using arg_cong [OF ms, of "image_mset tx_Hash"] by (simp add: pool_hashes_def meta_hash_def [abs_def] multiset.map_comp comp_def)
    then have "spec_of B s' = spec_of B s"
      using chain_view_cong [OF cur old] by (simp add: spec_of_def s')
    then show ?thesis using cur chain chain_view_cong [OF cur old] by (simp add: spec_step.No_block)
  qed
  have "run_ok (batcher_of s') hist"
    using s main by (auto simp: s' seq_ok_def Let_def run_ok_def)
  then show ?thesis
    using s main pool fees lims by (auto simp: s' seq_ok_def Let_def scores_ok_def)
qed

lemma batcher_seq_ok:
  assumes s: "seq_ok B R lims s hist" and run: "run_ok b hist'"
    and cur: "mg_currentBlock (ba_state b) = mg_currentBlock (pd_state (sn_producer s))"
    and old: "\<And>n. n \<le> mg_currentBlock (pd_state (sn_producer s)) \<Longrightarrow>
      mg_GetBlock B (ba_state b) n = mg_GetBlock B (pd_state (sn_producer s)) n"
  shows "seq_ok B R lims (put_batcher s b) hist' \<and>
    spec_of B (put_batcher s b) = (spec_of B s)\<lparr>sp_sent := unat (ba_lastBatchBlock b)\<rparr>"
proof -
  have p: "pd_mempool (sn_producer (put_batcher s b)) = pd_mempool (sn_producer s)"
    "pd_feeModel (sn_producer (put_batcher s b)) = pd_feeModel (sn_producer s)"
    "pd_sizer (sn_producer (put_batcher s b)) = pd_sizer (sn_producer s)"
    "pd_state (sn_producer (put_batcher s b)) = ba_state b" "sn_tastescore (put_batcher s b) = sn_tastescore s"
    "sn_batcher (put_batcher s b) = b"
    by (simp_all add: put_batcher_def)
  then have "scores_ok R (handler_of (put_batcher s b)) = scores_ok R (handler_of s)"
    "limits_of (put_batcher s b) = limits_of s" by (simp_all add: scores_ok_def limits_of_def Let_def)
  then show ?thesis
    using s run chain_view_cong [OF cur old] unfolding seq_ok_def spec_of_def Let_def p by simp
qed

lemma submit_seq_ok:
  assumes s: "seq_ok B R lims s hist" and B: "ethdb_laws (lb_E B)"
    and n: "\<forall>n \<le> mg_currentBlock (pd_state (sn_producer s)). \<not> clash n (ba_batchIndex (sn_batcher s) + 1)"
    and x: "submit_step B Z L1 s now = Some (out, s')"
  shows "seq_ok B R lims s' (hist @ (case out of None \<Rightarrow> [] | Some (bt, data) \<Rightarrow> [bt])) \<and>
    spec_step (spec_of B s) (Submission (map_option fst out)) (spec_of B s')"
proof -
  let ?p = "sn_producer s" and ?a = "spec_of B s"
  obtain b where b: "submitBatch B Z L1 (batcher_of s) now = Some (b, out)" "s' = put_batcher s b"
    using x by (auto simp: submit_step_def)
  have idx: "bt_Index bt = ba_batchIndex (sn_batcher s) + 1" if "out = Some (bt, data)" for bt data
    using b(1) that by (cases rule: submit_cases) auto
  have cur: "mg_currentBlock (ba_state b) = mg_currentBlock (pd_state ?p)"
    using b(1) by (cases rule: submit_cases) auto
  have "mg_GetBlock B (ba_state b) k = mg_GetBlock B (pd_state ?p) k" if "k \<le> mg_currentBlock (pd_state ?p)" for k
    using submit_blocks [OF b(1) B, of k] idx n that by auto
  moreover have "run_ok b (hist @ (case out of None \<Rightarrow> [] | Some (bt, data) \<Rightarrow> [bt]))"
    using s by (intro run_ok_submit [OF _ b(1)]) (simp add: seq_ok_def Let_def)
  ultimately have ok: "seq_ok B R lims s' (hist @ (case out of None \<Rightarrow> [] | Some (bt, data) \<Rightarrow> [bt]))"
    "spec_of B s' = ?a\<lparr>sp_sent := unat (ba_lastBatchBlock b)\<rparr>"
    using batcher_seq_ok [OF s _ cur] b(2) by simp_all
  moreover have "spec_step ?a (Submission (map_option fst out)) (?a\<lparr>sp_sent := unat (ba_lastBatchBlock b)\<rparr>)"
    using b(1)
  proof (cases rule: submit_cases)
    case none
    then show ?thesis using spec_step.No_batch [of ?a] by (simp add: spec_of_def)
  next
    case (sent bt compressed frame encoded m1)
    have last: "ba_lastBatchBlock (sn_batcher s) < mg_currentBlock (pd_state ?p)" using sent(2) by simp
    then have "unat (ba_lastBatchBlock (sn_batcher s) + 1) = Suc (unat (ba_lastBatchBlock (sn_batcher s)))"
      using unat_u64_bound [of "mg_currentBlock (pd_state ?p)"] by (subst unat_add_no_wrap) (simp_all add: u64_less_nat)
    then show ?thesis
      using spec_step.Send [of ?a bt] last sent(1,7,8,10) by (simp add: spec_of_def chain_view_def u64_less_nat)
  qed
  ultimately show ?thesis by simp
qed

lemma confirm_seq_ok:
  assumes s: "seq_ok B R lims s hist"
  shows "seq_ok B R lims (confirm_step L1 s) hist \<and> spec_step (spec_of B s) Confirmation (spec_of B (confirm_step L1 s))"
proof -
  have run: "run_ok (checkConfirmations L1 (batcher_of s)) hist"
    using s by (intro run_ok_confirm) (simp add: seq_ok_def Let_def)
  have same: "ba_state (checkConfirmations L1 (batcher_of s)) = pd_state (sn_producer s)"
    "ba_lastBatchBlock (checkConfirmations L1 (batcher_of s)) = ba_lastBatchBlock (sn_batcher s)"
    by (simp_all add: checkConfirmations_def)
  then have "seq_ok B R lims (confirm_step L1 s) hist \<and> spec_of B (confirm_step L1 s) = spec_of B s"
    using batcher_seq_ok [OF s run] by (simp add: confirm_step_def spec_of_def)
  then show ?thesis by (simp add: spec_step.Look)
qed

text \<open>The steps of the program are steps of its specification.\<close>

interpretation sq: simulation "seq_step B R parse Z L1" spec_step
  "\<lambda>s tr. libs_laws B \<and> txs_sane R \<and> seq_ok B R lims s (batches_in tr)" "spec_of B" for B R parse Z L1 lims
proof unfold_locales
  have *: "seq_ok B R lims s' (batches_in (tr @ [e])) \<and> spec_step (spec_of B s) e (spec_of B s')"
    if "libs_laws B \<and> txs_sane R \<and> seq_ok B R lims s (batches_in tr)" and x: "seq_step B R parse Z L1 s e s'" for s tr e s'
  proof -
    have s: "seq_ok B R lims s (batches_in tr)" and B: "libs_laws B" "ethdb_laws (lb_E B)" and R: "txs_sane R"
      using that(1) by (simp_all add: libs_laws_def)
    from x show ?thesis
    proof cases
      case Http
      then show ?thesis using http_seq_ok [OF s R] by simp
    next
      case Ws
      then show ?thesis using ws_seq_ok [OF s R] by simp
    next
      case Tick
      then show ?thesis using tick_seq_ok [OF s B(1)] by simp
    next
      case Submit
      from submit_seq_ok [OF s B(2) Submit(2,3)] show ?thesis by (auto simp: Submit(1) split: option.splits)
    next
      case Confirm
      then show ?thesis using confirm_seq_ok [OF s] by simp
    qed
  qed
  show "libs_laws B \<and> txs_sane R \<and> seq_ok B R lims s' (batches_in (tr @ [e]))"
    if "libs_laws B \<and> txs_sane R \<and> seq_ok B R lims s (batches_in tr)" "seq_step B R parse Z L1 s e s'" for s tr e s'
    using * that by blast
  show "spec_step (spec_of B s) e (spec_of B s')"
    if "libs_laws B \<and> txs_sane R \<and> seq_ok B R lims s (batches_in tr)" "seq_step B R parse Z L1 s e s'" for s tr e s'
    using * that by blast
qed

subsection \<open>The start\<close>

lemma start_fields:
  assumes "start_sequencer B memory open_disk cfg gen = Inr s0" and "config_sound cfg"
  obtains mp sm disk where "NewStateStore memory open_disk (data_dir cfg) = Some disk"
    and "NewManager B (sc_ChainID (cf_Sequencer cfg)) (gl_HexToAddress (lb_G B) ''0xf39Fd6e51aad88F6F4ce6aB8827279cffFb92266'') gen disk = Inr sm"
    and "lm_New (ts_OrderingWeight (cf_TasteScore cfg)) (sc_MaxTxPerBlock (cf_Sequencer cfg) * 10) = Some mp"
    and "pd_mempool (sn_producer s0) = mp" and "pd_state (sn_producer s0) = sm"
    and "pd_feeModel (sn_producer s0) = NewDynamicFeeModel"
    and "pd_sizer (sn_producer s0) = Some (NewAdaptiveBlockSizer (sizer_config_of cfg))"
    and "tc_cache (sn_tastescore s0) = Map.empty" and "ba_lastBatchBlock (sn_batcher s0) = 0"
    and "ba_batchIndex (sn_batcher s0) = 0" and "ba_pendingBatches (sn_batcher s0) = Map.empty"
proof -
  have w: "wrap_int (sc_MaxTxPerBlock (cf_Sequencer cfg) * 10) = sc_MaxTxPerBlock (cf_Sequencer cfg) * 10"
    using assms(2) by (simp add: config_sound_def wrap_int_def)
  show ?thesis
    using assms(1) that
    by (auto simp: start_sequencer_def Let_def w pd_New_def SetAdaptiveSizer_def SetReceiptStore_def pd_SetMetrics_def
        ba_New_def ba_SetMetrics_def tc_New_def split: option.splits sum.splits)
qed

text \<open>The components start with what the handler of \<open>main\<close> is built from.\<close>

lemma start_handler:
  assumes "start_sequencer B memory open_disk cfg gen = Inr s0"
  shows "\<exists>mp sm. handler_of s0 = rh_SetMetrics (rh_SetAdaptiveSizer (rh_SetLanedPool (rh_SetReceiptStore
    (NewHandler mp sm (Some (tc_New (ts_Enabled (cf_TasteScore cfg)) (ts_CacheTTL (cf_TasteScore cfg))
       (ts_Chains (cf_TasteScore cfg)))) (sc_ChainID (cf_Sequencer cfg)) NewDynamicFeeModel) NewReceiptStore))
    (NewAdaptiveBlockSizer (sizer_config_of cfg))) NewMetrics"
  using assms
  by (auto simp: start_sequencer_def Let_def handler_of_def NewHandler_def rh_SetLanedPool_def rh_SetReceiptStore_def
      rh_SetAdaptiveSizer_def rh_SetMetrics_def pd_New_def SetAdaptiveSizer_def SetReceiptStore_def pd_SetMetrics_def
      split: option.splits sum.splits)

definition start_limits :: "config \<Rightarrow> (u64 \<times> u64 \<times> int \<times> int) option \<times> int \<times> int \<times> int" where
  "start_limits cfg = (let a = cf_AdaptiveBlock cfg in
     (Some (ac_MinGasLimit a, ac_MaxGasLimit a, ac_MinMaxTx a, ac_MaxMaxTx a), 100000000, 100000000000,
      sc_MaxTxPerBlock (cf_Sequencer cfg) * 10))"

lemma start_seq_ok:
  assumes "start_sequencer B memory open_disk cfg gen = Inr s0" and "config_sound cfg"
    and "chain_ok B (pd_state (sn_producer s0))" and "unit_api (rl_score R)"
  shows "seq_ok B R (start_limits cfg) s0 []"
proof -
  obtain mp where mp: "lm_New (ts_OrderingWeight (cf_TasteScore cfg)) (sc_MaxTxPerBlock (cf_Sequencer cfg) * 10) = Some mp"
    and f: "pd_mempool (sn_producer s0) = mp" "pd_feeModel (sn_producer s0) = NewDynamicFeeModel"
      "pd_sizer (sn_producer s0) = Some (NewAdaptiveBlockSizer (sizer_config_of cfg))"
      "tc_cache (sn_tastescore s0) = Map.empty" "ba_lastBatchBlock (sn_batcher s0) = 0"
      "ba_batchIndex (sn_batcher s0) = 0" "ba_pendingBatches (sn_batcher s0) = Map.empty"
    by (rule start_fields [OF assms(1,2)])
  have c: "0 \<le> sc_MaxTxPerBlock (cf_Sequencer cfg)" "unit_f64 (ts_OrderingWeight (cf_TasteScore cfg))"
    "sizer_sound (NewAdaptiveBlockSizer (sizer_config_of cfg))" "sizer_bounded (NewAdaptiveBlockSizer (sizer_config_of cfg))"
    using assms(2) by (simp_all add: config_sound_def)
  have cap: "lm_maxSize mp = sc_MaxTxPerBlock (cf_Sequencer cfg) * 10" and empty: "lm_Pending mp = []"
    using mp c(1) by (auto simp: lm_New_def lm_Pending_def heap_init_def split: if_splits)
  have inv: "lm_inv mp" using lm_reach_inv [OF c(2) lm_reach.New [OF mp]] by simp
  have "pool_ok mp" using inv cap empty c(1) by (simp add: pool_ok_def pending_ok_def)
  moreover have "limits_of s0 = start_limits cfg"
    using cap by (simp add: limits_of_def start_limits_def f Let_def NewAdaptiveBlockSizer_def sizer_config_of_def NewDynamicFeeModel_def)
  moreover have "scores_ok R (handler_of s0)" using assms(4) by (simp add: scores_ok_def cache_ok_def f)
  moreover have "run_ok (batcher_of s0) []" by (simp add: run_ok_def f)
  ultimately show ?thesis
    using assms(3) c new_fees_bounded by (simp add: seq_ok_def Let_def f)
qed

lemma start_empty:
  assumes "start_sequencer B memory open_disk cfg gen = Inr s0"
  shows "lm_Pending (pd_mempool (sn_producer s0)) = []" and "ba_lastBatchBlock (sn_batcher s0) = 0"
  using assms
  by (auto simp: start_sequencer_def Let_def lm_New_def lm_Pending_def heap_init_def pd_New_def SetAdaptiveSizer_def
      SetReceiptStore_def pd_SetMetrics_def ba_New_def ba_SetMetrics_def split: option.splits sum.splits if_splits)

text \<open>A run of the program: from a start with a sound configuration on a database whose chain can be read.\<close>

definition program_run :: "('d, 's) libs \<Rightarrow> rpc_lib \<Rightarrow> (bytes \<Rightarrow> rpc_request option) \<Rightarrow> batch_libs \<Rightarrow> u64 l1_client \<Rightarrow>
    config \<Rightarrow> (u64, 'd) sequencer \<Rightarrow> (u64, 'd) sequencer \<Rightarrow> event list \<Rightarrow> bool" where
  "program_run B R parse Z L1 cfg s0 s tr \<longleftrightarrow> (\<exists>memory open_disk gen.
     start_sequencer B memory open_disk cfg gen = Inr s0 \<and> chain_ok B (pd_state (sn_producer s0)) \<and>
     run (seq_step B R parse Z L1) s0 s tr)"

text \<open>What is assumed of the libraries: their laws, scores between 0 and 1, and transactions with hashes of
  32 bytes and gas that does not wrap in a block.\<close>

definition program_laws :: "('d, 's) libs \<Rightarrow> rpc_lib \<Rightarrow> bool" where
  "program_laws B R \<longleftrightarrow> libs_laws B \<and> unit_api (rl_score R) \<and> txs_sane R"

lemma program_run_ok:
  assumes "program_run B R parse Z L1 cfg s0 s tr" and "program_laws B R" and "config_sound cfg"
  shows "seq_ok B R (start_limits cfg) s (batches_in tr)" and "run spec_step (spec_of B s0) (spec_of B s) tr"
    and "sp_pending (spec_of B s0) = {#} \<and> sp_sent (spec_of B s0) = 0"
proof -
  obtain memory open_disk gen where x: "start_sequencer B memory open_disk cfg gen = Inr s0"
    "chain_ok B (pd_state (sn_producer s0))" "run (seq_step B R parse Z L1) s0 s tr"
    using assms(1) unfolding program_run_def by blast
  have laws: "libs_laws B" "txs_sane R" using assms(2) by (simp_all add: program_laws_def)
  have s0: "seq_ok B R (start_limits cfg) s0 []"
    using start_seq_ok [OF x(1) assms(3) x(2)] assms(2) by (simp add: program_laws_def)
  show "seq_ok B R (start_limits cfg) s (batches_in tr)" "run spec_step (spec_of B s0) (spec_of B s) tr"
    using sq.run_inv [OF x(3), of "start_limits cfg"] sq.run_sim [OF x(3), of "start_limits cfg"] s0 laws by simp_all
  show "sp_pending (spec_of B s0) = {#} \<and> sp_sent (spec_of B s0) = 0"
    using start_empty [OF x(1)] by (simp add: spec_of_def pool_hashes_def)
qed

subsection \<open>Steps that return\<close>

lemma estimateGas_returns:
  fixes B :: "('d, 's) libs"
  shows "estimateGas B X env h params \<noteq> None"
proof -
  have "ev_EstimateGas L s msg bctx \<noteq> None" if g: "bc_GasLimit bctx = 30000000" for L :: "'s evm_lib" and s msg bctx
  proof (cases "probe L s msg bctx 30000000")
    case True
    have "(if ms_To msg = None then 53000 else 21000) < (30000000 :: u64)" by simp
    then obtain r where "estimate_loop (probe L s msg bctx) (if ms_To msg = None then 53000 else 21000) 30000000 = Some r"
      using estimate_loop_spec [where succeeds = "probe L s msg bctx" and hi = 30000000] True by fastforce
    then show ?thesis using True by (auto simp: ev_EstimateGas_def Let_def g probe_def split: prod.splits)
  next
    case False
    then show ?thesis by (auto simp: ev_EstimateGas_def Let_def g probe_def split: prod.splits)
  qed
  then show ?thesis
    by (auto simp: estimateGas_def mg_EstimateGas_def buildBlockContext_def split: sum.splits option.splits)
qed

lemma Handle_returns:
  assumes "rq_Method req \<noteq> ''eth_getLogs''"
  shows "Handle B P R env h req \<noteq> None"
proof -
  have "dispatch B P R env (count_request h) (rq_Method req) (rq_Params req) \<noteq> None"
    using assms estimateGas_returns by (auto simp: dispatch_def split: prod.splits option.splits)
  then show ?thesis by (auto simp: Handle_def split: outcome.splits sum.splits)
qed

lemma stored_blocks_read:
  "\<forall>n \<in> set ns. stored_block B m n \<Longrightarrow> \<exists>bds. read_blocks B m ns = Inr bds"
proof (induction ns)
  case (Cons n ns)
  obtain b where b: "mg_GetBlock B m n = Some b" "\<forall>t \<in> set (bk_Transactions b). enc_tx (lb_C B) t \<noteq> None"
    using Cons.prems by (auto simp: stored_block_def split: option.splits)
  have "tx_data (lb_C B) ts \<noteq> None" if "\<forall>t \<in> set ts. enc_tx (lb_C B) t \<noteq> None" for ts
    using that by (induction ts) auto
  from this [of "bk_Transactions b"] b(2) have "block_data_of (lb_C B) b \<noteq> None" by (simp add: block_data_of_def)
  then obtain bd where "block_data_of (lb_C B) b = Some bd" by blast
  then show ?case using b Cons by auto
qed simp

lemma submit_frame:
  assumes "chain_ok B (ba_state b)" and "ba_lastBatchBlock b < mg_currentBlock (ba_state b)"
  shows "\<exists>frame. buildBatchFrame B (ba_state b) (ba_chainID b) (ba_lastBatchBlock b + 1) (mg_currentBlock (ba_state b)) t
    = Some (Inr frame)"
proof -
  let ?s = "ba_lastBatchBlock b + 1" and ?e = "mg_currentBlock (ba_state b)"
  have e: "unat ?e + 1 < 2 ^ 64" using assms(1) by (simp add: chain_ok_def)
  have s: "unat ?s = Suc (unat (ba_lastBatchBlock b))"
    using assms(2) unat_u64_bound [of ?e] by (subst unat_add_no_wrap) (simp_all add: u64_less_nat)
  have "stored_block B (ba_state b) n" if "n \<in> set (block_range ?s ?e)" for n
  proof -
    note m = that
    obtain k where "k \<in> {unat ?s..<Suc (unat ?e)}" and n: "n = of_nat k"
      using m unfolding block_range_def set_map set_upt by blast
    then have k: "unat ?s \<le> k" "k \<le> unat ?e" by simp_all
    then have "unat n = k" using n unat_u64_bound [of ?e] by (simp add: unat_of_nat del: unat_u64_bound)
    then show ?thesis using k s assms(1) by (simp add: chain_ok_def u64_le_nat u64_less_nat)
  qed
  then obtain bds where "read_blocks B (ba_state b) (block_range ?s ?e) = Inr bds" using stored_blocks_read by blast
  moreover have "unat ?s \<le> Suc (unat ?e)" using s assms(2) by (simp add: u64_less_nat)
  ultimately show ?thesis
    using collect_blocks_eq [OF e, of ?s B "ba_state b" "[]"] by (simp add: buildBatchFrame_def)
qed

lemma submit_returns:
  assumes "chain_ok B (ba_state b)"
  shows "submitBatch B Z L1 b now \<noteq> None"
proof (cases "mg_currentBlock (ba_state b) \<le> ba_lastBatchBlock b")
  case False
  then obtain frame where "buildBatchFrame B (ba_state b) (ba_chainID b) (ba_lastBatchBlock b + 1)
      (mg_currentBlock (ba_state b)) (word_of_int (now div 1000000000)) = Some (Inr frame)"
    using submit_frame [OF assms] by fastforce
  then show ?thesis
    by (auto simp: submitBatch_def Let_def mg_CurrentBlock_def split: option.split prod.split)
qed (simp add: submitBatch_def mg_CurrentBlock_def)

lemma tick_returns:
  assumes "pool_ok (pd_mempool p)" and "libs_laws B"
  shows "produceBlock B laned_ops p now \<noteq> None"
proof -
  have ops: "tp_Add laned_ops = lm_Add" "tp_PopBatch laned_ops = lm_PopBatch" by (simp_all add: laned_ops_def)
  have inv: "lm_inv (pd_mempool p)" "lm_Len (pd_mempool p) \<le> lm_maxSize (pd_mempool p)" "pending_ok (lm_Pending (pd_mempool p))"
    using assms(1) by (auto simp: pool_ok_def lm_inv_def lm_Len_def)
  show ?thesis using lm.tick_full [OF ops assms(2) inv, of now] by auto
qed

text \<open>L1 and the encoder take everything: the simulated client does, and RLP encodes every frame.\<close>

definition l1_accepts :: "'c l1_client \<Rightarrow> batch_libs \<Rightarrow> bool" where
  "l1_accepts L1 Z \<longleftrightarrow> (\<forall>c d. snd (l1_SendBatchTx L1 c d) \<noteq> None) \<and> (\<forall>f. bl_enc_frame Z f \<noteq> None) \<and>
     (\<forall>d. bl_zlib_write Z d \<noteq> None)"

lemma simulated_accepts: "snd (l1_SendBatchTx (simulated_l1 g) c d) \<noteq> None"
  by (simp add: simulated_l1_def sim_SendBatchTx_def Let_def)

lemma submit_accepts:
  assumes "chain_ok B (ba_state b)" and "ba_lastBatchBlock b < mg_currentBlock (ba_state b)" and "l1_accepts L1 Z"
  shows "\<exists>b' bt data. submitBatch B Z L1 b now = Some (b', Some (bt, data))"
proof -
  obtain frame where f: "buildBatchFrame B (ba_state b) (ba_chainID b) (ba_lastBatchBlock b + 1)
      (mg_currentBlock (ba_state b)) (word_of_int (now div 1000000000)) = Some (Inr frame)"
    using submit_frame [OF assms(1,2)] by blast
  obtain encoded where e: "bl_enc_frame Z frame = Some encoded" using assms(3) unfolding l1_accepts_def by blast
  obtain compressed where c: "compressData Z encoded = Some compressed"
    using assms(3) unfolding l1_accepts_def compressData_def by blast
  obtain c1 latest where l: "l1_LatestL1Block L1 (ba_client b) = (c1, latest)" by fastforce
  obtain c2 h where t: "l1_SendBatchTx L1 c1 compressed = (c2, Some h)"
    using assms(3) by (metis l1_accepts_def not_None_eq prod.exhaust_sel)
  show ?thesis
    using assms(2) f e c l t by (simp add: submitBatch_def Let_def mg_CurrentBlock_def not_le [symmetric])
qed

lemma start_batcher:
  "start_sequencer B memory open_disk cfg gen = Inr s0 \<Longrightarrow> ba_batchIndex (batcher_of s0) = 0 \<and> ba_lastBatchBlock (batcher_of s0) = 0"
  by (auto simp: start_sequencer_def Let_def ba_New_def ba_SetMetrics_def split: option.splits sum.splits)

end
