(* ===== verification/Disk.thy ===== *)
theory Disk
  imports Sequencer_Invariant
begin

section \<open>The database across restarts\<close>

text \<open>
  What is on disk when the program stops, and what a start makes of it. A database reopens when a chain
  database built from it is the one in memory and the genesis root is there; every step keeps that
  (\<open>seq_step_reopens\<close>). A process may also be killed inside a step, with a part of its writes done
  (\<open>left_on_disk\<close>). A start on what is left finds the whole chain (\<open>restart_start\<close>).
\<close>

subsection \<open>Databases that reopen\<close>

definition reopens :: "('d, 's) libs \<Rightarrow> 'd manager \<Rightarrow> bool" where
  "reopens B m \<longleftrightarrow> (let c = mg_chainDB m in
     NewChainDB (lb_E B) (cdb_db c) = c \<and> cdb_currentBlock c = mg_currentBlock m \<and>
     (mg_currentBlock m \<noteq> 0 \<longrightarrow> cdb_stateRoot c = mg_stateRoot m) \<and>
     (\<exists>gr. ed_Get (lb_E B) (cdb_db c) keyGenesisRoot = Some gr \<and> length gr = 32 \<and> gr \<noteq> zero_hash))"

text \<open>The root of a trie is a hash of 32 bytes; that of a trie that was committed is not the zero hash.\<close>

definition roots_nonzero :: "('d, 's) libs \<Rightarrow> bool" where
  "roots_nonzero B \<longleftrightarrow> (\<forall>d s n h. snd (tl_Commit (lb_T B) d s n) = Some h \<longrightarrow> h \<noteq> zero_hash)"

definition same_tip :: "('d, 's) libs \<Rightarrow> 'd manager \<Rightarrow> 'd manager \<Rightarrow> bool" where
  "same_tip B m m' \<longleftrightarrow> mg_currentBlock m' = mg_currentBlock m \<and> mg_stateRoot m' = mg_stateRoot m \<and>
     cdb_currentBlock (mg_chainDB m') = cdb_currentBlock (mg_chainDB m) \<and>
     cdb_stateRoot (mg_chainDB m') = cdb_stateRoot (mg_chainDB m) \<and>
     (\<forall>k \<in> {KCurrentBlock, KLatestRoot, KGenesisRoot}.
        ed_Get (lb_E B) (cdb_db (mg_chainDB m')) (key_bytes k) = ed_Get (lb_E B) (cdb_db (mg_chainDB m)) (key_bytes k))"

lemma same_tip_refl [simp]: "same_tip B m m"
  by (simp add: same_tip_def)

lemma same_tip_trans: "same_tip B m m' \<Longrightarrow> same_tip B m' m'' \<Longrightarrow> same_tip B m m''"
  by (simp add: same_tip_def)

lemma same_tip_reopens: "same_tip B m m' \<Longrightarrow> reopens B m \<Longrightarrow> reopens B m'"
  using NewChainDB_cong [of "lb_E B" "mg_chainDB m" "mg_chainDB m'"] by (simp add: same_tip_def reopens_def Let_def)

lemma SetL1Origin_same_tip:
  assumes "ethdb_laws (lb_E B)"
  shows "same_tip B m (SetL1Origin B m x)"
proof (cases "cdb_WriteL1Origin (lb_E B) (lb_C B) (mg_chainDB m) x")
  case (Inr c)
  then obtain data d where c: "c = (mg_chainDB m)\<lparr>cdb_db := d\<rparr>" "ed_Put (lb_E B) (cdb_db (mg_chainDB m)) keyL1Origin data = Some d"
    by (auto simp: cdb_WriteL1Origin_def split: option.splits)
  have "keyL1Origin \<noteq> keyCurrentBlock" "keyL1Origin \<noteq> keyLatestRoot" "keyL1Origin \<noteq> keyGenesisRoot"
    by (simp_all add: key_defs)
  then show ?thesis
    using Inr c(1) ed_Put_get [OF assms c(2)] by (simp add: same_tip_def SetL1Origin_def)
qed (simp add: same_tip_def SetL1Origin_def)

lemma AddBatch_same_tip:
  assumes "ethdb_laws (lb_E B)"
  shows "same_tip B m (AddBatch B m bt)"
proof (cases "cdb_WriteBatch (lb_E B) (lb_C B) (mg_chainDB m) bt")
  case (Inr c)
  then show ?thesis
    using WriteBatch_fields [OF Inr] WriteBatch_get(1) [OF assms Inr, of KCurrentBlock]
      WriteBatch_get(1) [OF assms Inr, of KLatestRoot] WriteBatch_get(1) [OF assms Inr, of KGenesisRoot]
    by (simp add: same_tip_def AddBatch_def)
qed (simp add: same_tip_def AddBatch_def)

lemma submit_same_tip:
  assumes "submitBatch B Z L1 b now = Some (b', out)" and "ethdb_laws (lb_E B)"
  shows "same_tip B (ba_state b) (ba_state b')"
  using submit_state [OF assms(1)] SetL1Origin_same_tip [OF assms(2)] AddBatch_same_tip [OF assms(2)]
    same_tip_trans same_tip_refl by metis

text \<open>A block that fails, and one that is written.\<close>

lemma failed_same_tip:
  assumes "trie_laws (lb_E B) (lb_T B)" and "ExecuteAndCommitBlock B m txs n ts ph bf = (m', skipped, Inl e)"
  shows "same_tip B m m'"
proof -
  have "\<exists>d. mg_chainDB m' = (mg_chainDB m)\<lparr>cdb_db := d\<rparr>"
    using assms(2) by (auto simp: ExecuteAndCommitBlock_def Let_def split: option.splits prod.splits sum.splits
        intro: exI [of _ "cdb_db (mg_chainDB m)"])
  then have "cdb_currentBlock (mg_chainDB m') = cdb_currentBlock (mg_chainDB m)"
    "cdb_stateRoot (mg_chainDB m') = cdb_stateRoot (mg_chainDB m)" by auto
  then show ?thesis using Execute_failed [OF assms] by (auto simp: same_tip_def simp del: key_bytes.simps key_bytes_meta(1))
qed

lemma committed_reopens:
  assumes "libs_laws B" and "txs_ok txs" and "ExecuteAndCommitBlock B m txs n ts ph bf = (m', skipped, Inr b)"
    and "reopens B m"
  shows "reopens B m'"
proof -
  obtain disk' where w: "written (lb_E B) (lb_C B) b ((mg_chainDB m)\<lparr>cdb_db := disk'\<rparr>) (mg_chainDB m')"
    and keep: "\<forall>k. key_ok k \<longrightarrow> ed_Get (lb_E B) disk' (key_bytes k) = ed_Get (lb_E B) (cdb_db (mg_chainDB m)) (key_bytes k)"
    and tip: "mg_currentBlock m' = hd_Number (bk_Header b)" "mg_stateRoot m' = hd_StateRoot (bk_Header b)"
    by (rule committed_written [OF assms(1-3)])
  have wr: "cdb_WriteBlock (lb_E B) (lb_C B) ((mg_chainDB m)\<lparr>cdb_db := disk'\<rparr>) b = Inr (mg_chainDB m')"
    using w by (simp add: written_def)
  have "ed_Get (lb_E B) (cdb_db (mg_chainDB m')) keyGenesisRoot = ed_Get (lb_E B) (cdb_db (mg_chainDB m)) keyGenesisRoot"
    using WriteBlock_genesis [OF w] keep [rule_format, of KGenesisRoot] by simp
  then show ?thesis
    using assms(4) NewChainDB_written [OF w] WriteBlock_ok(2,3) [OF wr] tip by (simp add: reopens_def Let_def)
qed

text \<open>A tick executes a batch that a pool handed out.\<close>

lemma tick_executes:
  assumes "produceBlock B laned_ops p now = Some p'" and "pool_ok (pd_mempool p)"
  obtains txs n ts ph bf where "txs_ok txs" and "pd_state p' = fst (ExecuteAndCommitBlock B (pd_state p) txs n ts ph bf)"
proof -
  obtain k g where lim: "block_limits p = (k, g)" by fastforce
  obtain b q where pop: "PopBatchLaned (pd_mempool p) k g = (b, q)" by fastforce
  have "txs_ok (map Tx b)"
    using lm.drained_txs_ok(1) [of "pd_mempool p" k g b q] pop assms(2) by (simp add: pool_ok_def lm_PopBatch_def)
  moreover have "pd_state p' = fst (ExecuteAndCommitBlock B (pd_state p) (map Tx b) (mg_currentBlock (pd_state p) + 1)
      (word_of_int (now div 1000000000)) (mg_GetBlockHash B (pd_state p) (mg_currentBlock (pd_state p)))
      (fm_BaseFee (pd_feeModel p)))"
    using assms(1) lim pop
    by (auto simp: produceBlock_def Let_def mg_CurrentBlock_def laned_ops_def lm_PopBatch_def
        split: prod.splits sum.splits option.splits if_splits)
  ultimately show ?thesis using that by blast
qed

lemma tick_reopens:
  assumes "produceBlock B laned_ops p now = Some p'" and "pool_ok (pd_mempool p)" and "libs_laws B"
    and "reopens B (pd_state p)"
  shows "reopens B (pd_state p')"
proof -
  obtain txs n ts ph bf where x: "txs_ok txs" "pd_state p' = fst (ExecuteAndCommitBlock B (pd_state p) txs n ts ph bf)"
    using tick_executes [OF assms(1,2)] by metis
  obtain skipped r where ex: "ExecuteAndCommitBlock B (pd_state p) txs n ts ph bf = (pd_state p', skipped, r)"
    using x(2) by (metis prod.exhaust_sel)
  show ?thesis
  proof (cases r)
    case (Inl e)
    then have "same_tip B (pd_state p) (pd_state p')"
      using failed_same_tip [of B "pd_state p"] ex assms(3) by (simp add: libs_laws_def)
    then show ?thesis using assms(4) by (rule same_tip_reopens)
  next
    case (Inr b)
    show ?thesis by (rule committed_reopens [OF assms(3) x(1) ex [unfolded Inr] assms(4)])
  qed
qed

abbreviation seq_mgr :: "('c, 'd) sequencer \<Rightarrow> 'd manager" where
  "seq_mgr s \<equiv> pd_state (sn_producer s)"

text \<open>No request changes the manager.\<close>

lemma http_mgr: "http_step B R parse s env path meth body = Some (reply, s') \<Longrightarrow> seq_mgr s' = seq_mgr s"
  by (auto simp: http_step_def put_handler_def elim!: serveHTTP_cases handleHTTP_cases dest!: Handle_core simp: same_core_def)

lemma ws_mgr:
  assumes "ws_step B R s env conn r = Some (a, s')"
  shows "seq_mgr s' = seq_mgr s"
proof -
  obtain m h' go where h: "HandleWS B laned_ops R env conn r (sn_ws s, handler_of s) = Some ((m, h'), a, go)"
    and s': "s' = (put_handler s h')\<lparr>sn_ws := m\<rparr>"
    using assms by (auto simp: ws_step_def)
  have "rh_state h' = rh_state (handler_of s)"
    using h by (auto simp: HandleWS_def handleSubscribe_def handleUnsubscribe_def Let_def same_core_def
        dest!: Handle_core split: ws_read.splits if_splits option.splits prod.splits)
  then show ?thesis by (simp add: s' put_handler_def)
qed

lemma seq_step_reopens:
  assumes "seq_step B R parse Z L1 s e s'" and "seq_ok B R lims s hist" and "libs_laws B" and "reopens B (seq_mgr s)"
  shows "reopens B (seq_mgr s')"
  using assms(1)
proof cases
  case Http
  then show ?thesis using http_mgr assms(4) by metis
next
  case Ws
  then show ?thesis using ws_mgr assms(4) by metis
next
  case (Tick now)
  then show ?thesis
    using tick_reopens [of B "sn_producer s"] assms(2-4) by (auto simp: tick_step_def seq_ok_def Let_def)
next
  case (Submit now out)
  then show ?thesis
    using submit_same_tip [of B Z L1 "batcher_of s"] same_tip_reopens [OF _ assms(4)] assms(3)
    by (fastforce simp: submit_step_def put_batcher_def libs_laws_def)
next
  case Confirm
  then show ?thesis using assms(4) by (simp add: confirm_step_def put_batcher_def checkConfirmations_def)
qed

subsection \<open>Starts\<close>

text \<open>A blank database holds no chain.\<close>

definition blank :: "('d, 's) libs \<Rightarrow> 'd \<Rightarrow> bool" where
  "blank B d \<longleftrightarrow> ed_Get (lb_E B) d keyGenesisRoot = None \<and> ed_Get (lb_E B) d keyCurrentBlock = None"

lemma blank_manager:
  assumes "NewManager B cid a gen d = Inr m" and "blank B d" and "libs_laws B" and "roots_nonzero B"
  shows "mg_currentBlock m = 0 \<and> reopens B m"
proof -
  obtain sdb d1 root d2 d3 where c: "tl_Commit (lb_T B) d sdb 0 = (d1, Some root)"
    and t: "tl_TrieCommit (lb_T B) d1 root = (d2, True)" and p: "ed_Put (lb_E B) d2 keyGenesisRoot root = Some d3"
    and m: "mg_currentBlock m = 0" "mg_chainDB m = (NewChainDB (lb_E B) d)\<lparr>cdb_db := d3\<rparr>"
    using assms(1,2)
    by (auto simp: NewManager_def blank_def cdb_ReadGenesisRoot_def CommitState_def cdb_WriteGenesisRoot_def Let_def
        split: option.splits sum.splits prod.splits if_splits)
  have root: "length root = 32" "root \<noteq> zero_hash"
    using assms(3,4) arg_cong [OF c, of snd] by (simp_all add: libs_laws_def trie_laws_def roots_nonzero_def)
  have E: "ethdb_laws (lb_E B)" and T: "trie_laws (lb_E B) (lb_T B)" using assms(3) by (simp_all add: libs_laws_def)
  have keep: "ed_Get (lb_E B) d2 (key_bytes k) = ed_Get (lb_E B) d (key_bytes k)" if "key_ok k" for k
    using T that arg_cong [OF c, of fst] arg_cong [OF t, of fst] unfolding trie_laws_def by (metis fst_conv)
  have k: "keyGenesisRoot \<noteq> keyCurrentBlock" "keyGenesisRoot \<noteq> keyLatestRoot" by (simp_all add: key_defs)
  have same: "ed_Get (lb_E B) d3 keyCurrentBlock = ed_Get (lb_E B) d keyCurrentBlock"
    "ed_Get (lb_E B) d3 keyLatestRoot = ed_Get (lb_E B) d keyLatestRoot"
    using ed_Put_get [OF E p] k keep [of KCurrentBlock] keep [of KLatestRoot] by auto
  have "NewChainDB (lb_E B) d3 = mg_chainDB m"
    using NewChainDB_cong [of "lb_E B" "NewChainDB (lb_E B) d" "mg_chainDB m"] same m(2) by simp
  moreover have "cdb_currentBlock (mg_chainDB m) = 0" using assms(2) m(2) by (simp add: NewChainDB_def blank_def)
  moreover have "ed_Get (lb_E B) d3 keyGenesisRoot = Some root" using ed_Put_get [OF E p] by simp
  ultimately show ?thesis using m root by (simp add: reopens_def Let_def)
qed

lemma restarted_manager:
  assumes "reopens B m" and "geth_laws (lb_g B)"
  obtains m2 where "NewManager B cid a gen (cdb_db (mg_chainDB m)) = Inr m2" and "mg_chainDB m2 = mg_chainDB m"
    and "mg_currentBlock m2 = mg_currentBlock m" and "mg_currentBlock m \<noteq> 0 \<Longrightarrow> mg_stateRoot m2 = mg_stateRoot m"
proof -
  obtain gr where gr: "ed_Get (lb_E B) (cdb_db (mg_chainDB m)) keyGenesisRoot = Some gr" "length gr = 32" "gr \<noteq> zero_hash"
    and c: "NewChainDB (lb_E B) (cdb_db (mg_chainDB m)) = mg_chainDB m"
      "cdb_currentBlock (mg_chainDB m) = mg_currentBlock m"
      "mg_currentBlock m \<noteq> 0 \<longrightarrow> cdb_stateRoot (mg_chainDB m) = mg_stateRoot m"
    using assms(1) by (auto simp: reopens_def Let_def)
  have "cdb_ReadGenesisRoot (lb_E B) (lb_g B) (mg_chainDB m) = Inr gr"
    using assms(2) gr(1,2) by (simp add: cdb_ReadGenesisRoot_def geth_BytesToHash)
  then show ?thesis
    using that gr(3) c by (simp add: NewManager_def Let_def cdb_CurrentBlock_def cdb_LatestStateRoot_def)
qed

definition start_on :: "('d, 's) libs \<Rightarrow> 'd \<Rightarrow> config \<Rightarrow> genesis \<Rightarrow> start_error + (u64, 'd) sequencer" where
  "start_on B d cfg gen = start_sequencer B d (\<lambda>path. Some d) cfg gen"

lemma start_on_eq:
  assumes "config_sound cfg"
  shows "(\<exists>e. NewManager B (sc_ChainID (cf_Sequencer cfg)) (gl_HexToAddress (lb_G B)
        ''0xf39Fd6e51aad88F6F4ce6aB8827279cffFb92266'') gen d = Inl e \<and> start_on B d cfg gen = Inl (ErrStateManager e)) \<or>
    (\<exists>m s. NewManager B (sc_ChainID (cf_Sequencer cfg)) (gl_HexToAddress (lb_G B)
        ''0xf39Fd6e51aad88F6F4ce6aB8827279cffFb92266'') gen d = Inr m \<and> start_on B d cfg gen = Inr s \<and> seq_mgr s = m)"
proof -
  have disk: "NewStateStore d (\<lambda>path. Some d) x = Some d" for x by (simp add: NewStateStore_def)
  have "0 \<le> wrap_int (sc_MaxTxPerBlock (cf_Sequencer cfg) * 10)"
    using assms by (simp add: config_sound_def wrap_int_def)
  then obtain mp where "lm_New (ts_OrderingWeight (cf_TasteScore cfg)) (wrap_int (sc_MaxTxPerBlock (cf_Sequencer cfg) * 10)) = Some mp"
    by (auto simp: lm_New_def)
  then show ?thesis
    by (auto simp: start_on_def start_sequencer_def Let_def disk pd_New_def SetAdaptiveSizer_def SetReceiptStore_def
        pd_SetMetrics_def split: sum.splits)
qed

definition disk_of :: "('c, 'd) sequencer \<Rightarrow> 'd" where
  "disk_of s = cdb_db (mg_chainDB (seq_mgr s))"

subsection \<open>What a kill leaves\<close>

text \<open>
  The database of a process that was killed: between two steps; in a tick, while the state is committed or
  before the block is written (one atomic batch); in a submission, after the L1 origin was stored and before
  the batch is. The state of the trie and the origin can be any.
\<close>

inductive left_on_disk :: "('d, 's) libs \<Rightarrow> 'd manager \<Rightarrow> 'd \<Rightarrow> bool" for B m where
  Between_steps: "left_on_disk B m (cdb_db (mg_chainDB m))"
| In_commit: "left_on_disk B m (fst (tl_Commit (lb_T B) (cdb_db (mg_chainDB m)) sdb n))"
| Before_block: "left_on_disk B m (fst (CommitState (lb_T B) (cdb_db (mg_chainDB m)) sdb n))"
| Before_batch: "left_on_disk B m (cdb_db (mg_chainDB (SetL1Origin B m origin)))"

definition with_disk :: "'d manager \<Rightarrow> 'd \<Rightarrow> 'd manager" where
  "with_disk m d = m\<lparr>mg_chainDB := (mg_chainDB m)\<lparr>cdb_db := d\<rparr>\<rparr>"

lemma kept_disk:
  assumes "\<And>k. key_ok k \<Longrightarrow> ed_Get (lb_E B) d (key_bytes k) = ed_Get (lb_E B) (cdb_db (mg_chainDB m)) (key_bytes k)"
  shows "same_tip B m (with_disk m d) \<and> (\<forall>n. mg_GetBlock B (with_disk m d) n = mg_GetBlock B m n)"
  using assms [of KCurrentBlock] assms [of KLatestRoot] assms [of KGenesisRoot] assms [of "KBlock n" for n]
  by (simp add: same_tip_def with_disk_def mg_GetBlock_def cdb_ReadBlock_def)

lemma left_on_disk_same:
  assumes "left_on_disk B m d" and "libs_laws B"
  shows "same_tip B m (with_disk m d) \<and> (\<forall>n. mg_GetBlock B (with_disk m d) n = mg_GetBlock B m n)"
proof -
  have laws: "ethdb_laws (lb_E B)" "trie_laws (lb_E B) (lb_T B)" using assms(2) by (simp_all add: libs_laws_def)
  from assms(1) show ?thesis
  proof cases
    case Between_steps
    then show ?thesis by (intro kept_disk) simp
  next
    case In_commit
    then show ?thesis using laws(2) by (intro kept_disk) (simp add: trie_laws_def)
  next
    case Before_block
    then show ?thesis by (intro kept_disk) (simp add: CommitState_keeps [OF laws(2) prod.collapse [symmetric]])
  next
    case (Before_batch origin)
    have "mg_chainDB (with_disk m d) = mg_chainDB (SetL1Origin B m origin)"
      by (auto simp: with_disk_def Before_batch SetL1Origin_def cdb_WriteL1Origin_def split: option.splits sum.splits)
    then show ?thesis
      using SetL1Origin_same_tip [OF laws(1), of m origin] SetL1Origin_block [OF laws(1), of m origin]
      by (simp add: same_tip_def mg_GetBlock_def with_disk_def)
  qed
qed

text \<open>A start that is killed before the root of the genesis is stored leaves a blank database.\<close>

lemma blank_left:
  assumes "blank B d" and "libs_laws B"
  shows "blank B (fst (tl_Commit (lb_T B) d sdb n))" and "blank B (fst (CommitState (lb_T B) d sdb n))"
proof -
  have T: "trie_laws (lb_E B) (lb_T B)" using assms(2) by (simp add: libs_laws_def)
  have "ed_Get (lb_E B) d' (key_bytes k) = ed_Get (lb_E B) d (key_bytes k)"
    if "key_ok k" "d' = fst (tl_Commit (lb_T B) d sdb n) \<or> d' = fst (CommitState (lb_T B) d sdb n)" for d' k
    using that T CommitState_keeps [OF T prod.collapse [symmetric]] by (auto simp: trie_laws_def)
  from this [of KGenesisRoot] this [of KCurrentBlock] assms(1)
  show "blank B (fst (tl_Commit (lb_T B) d sdb n))" "blank B (fst (CommitState (lb_T B) d sdb n))"
    by (simp_all add: blank_def)
qed

text \<open>A start on it succeeds and finds the chain.\<close>

lemma restart_start:
  assumes "reopens B (seq_mgr s)" and "libs_laws B" and "config_sound cfg" and "left_on_disk B (seq_mgr s) d"
  obtains s0 where "start_on B d cfg gen = Inr s0" and "mg_currentBlock (seq_mgr s0) = mg_currentBlock (seq_mgr s)"
    and "\<And>n. mg_GetBlock B (seq_mgr s0) n = mg_GetBlock B (seq_mgr s) n" and "reopens B (seq_mgr s0)"
    and "mg_currentBlock (seq_mgr s) \<noteq> 0 \<Longrightarrow> mg_stateRoot (seq_mgr s0) = mg_stateRoot (seq_mgr s)"
proof -
  define m where "m = with_disk (seq_mgr s) d"
  have g: "geth_laws (lb_g B)" using assms(2) by (simp add: libs_laws_def)
  have same: "same_tip B (seq_mgr s) m" "\<And>n. mg_GetBlock B m n = mg_GetBlock B (seq_mgr s) n"
    using left_on_disk_same [OF assms(4,2)] by (simp_all add: m_def)
  have re: "reopens B m" using same_tip_reopens [OF same(1) assms(1)] .
  have d: "cdb_db (mg_chainDB m) = d" by (simp add: m_def with_disk_def)
  obtain m2 where m2: "NewManager B (sc_ChainID (cf_Sequencer cfg)) (gl_HexToAddress (lb_G B)
        ''0xf39Fd6e51aad88F6F4ce6aB8827279cffFb92266'') gen d = Inr m2"
    "mg_chainDB m2 = mg_chainDB m" "mg_currentBlock m2 = mg_currentBlock m"
    "mg_currentBlock m \<noteq> 0 \<Longrightarrow> mg_stateRoot m2 = mg_stateRoot m"
    using restarted_manager [OF re g] unfolding d by metis
  have re2: "reopens B m2" using re m2(2-4) by (auto simp: reopens_def Let_def)
  obtain s0 where s0: "start_on B d cfg gen = Inr s0" "seq_mgr s0 = m2"
    using m2(1) start_on_eq [OF assms(3), of B gen d] by fastforce
  show ?thesis
  proof (rule that [OF s0(1)])
    show "mg_currentBlock (seq_mgr s0) = mg_currentBlock (seq_mgr s)" using same(1) m2(3) by (simp add: s0(2) same_tip_def)
    show "mg_GetBlock B (seq_mgr s0) n = mg_GetBlock B (seq_mgr s) n" for n
      using same(2) [of n] m2(2) by (simp add: s0(2) mg_GetBlock_def)
    show "reopens B (seq_mgr s0)" using re2 by (simp add: s0(2))
    show "mg_stateRoot (seq_mgr s0) = mg_stateRoot (seq_mgr s)" if "mg_currentBlock (seq_mgr s) \<noteq> 0"
      using that same(1) m2(4) by (simp add: s0(2) same_tip_def)
  qed
qed

end
