(* ===== verification/Process.thy ===== *)
theory Process
  imports Disk
begin

section \<open>The process: main from its first goroutine to its exit\<close>

text \<open>
  \<open>main\<close> reads its files and builds the components (\<open>main_start\<close>), starts the listeners, the two loops and the
  page of the counters one after the other, attaches the counters to components that are already running,
  waits for a signal, and stops everything. A state of the process is where \<open>main\<close> is, what each goroutine is
  doing, and the sequencer of theory \<open>Sequencer\<close>; its steps are those of \<open>main\<close>, of the listeners and of the two
  \<open>select\<close> loops, in any order. A failed start and a panic are steps too; a panic in a request is not, as
  net/http recovers it. The locale \<open>simulation\<close> is interpreted on it (\<open>pr\<close>): in every stage the process does what
  the abstract sequencer allows, and its database reopens, so it may be killed at any moment.
  Invariants of the stages (\<open>process_staged\<close>) say which loops run and count when, and \<open>process_can_exit\<close> that
  \<open>main\<close> can always get to its end.
\<close>

subsection \<open>State\<close>

text \<open>Where \<open>main\<close> is. The last three stages are for good.\<close>

datatype stage = Built | Starting | Serving | Producing | Batching | Metering | Wired_producer | Wired_handler
  | Waiting | Stopping | Exited int | Crashed

text \<open>A listener, and a loop: spawned means that its goroutine has not made its ticker yet.\<close>

datatype listener = Unopened | Opening | Listening | Broken string | Shut

datatype loop = Unspawned | Spawned | Looping | Returned

record ('c, 'd) process =
  pr_stage :: stage
  pr_seq :: "('c, 'd) sequencer"
  pr_http :: listener
  pr_ws :: listener
  pr_conns :: "nat set"
  pr_producer :: loop
  pr_batcher :: loop
  pr_metered_producer :: bool
  pr_metered_handler :: bool
  pr_metered_batcher :: bool
  pr_cancelled :: bool

definition built :: "('c, 'd) sequencer \<Rightarrow> ('c, 'd) process" where
  "built s = \<lparr>pr_stage = Built, pr_seq = s, pr_http = Unopened, pr_ws = Unopened, pr_conns = {},
     pr_producer = Unspawned, pr_batcher = Unspawned, pr_metered_producer = False, pr_metered_handler = False,
     pr_metered_batcher = False, pr_cancelled = False\<rparr>"

text \<open>
  Before that \<open>main\<close> reads two files and builds the components, or leaves (\<open>PanicMempool\<close> is a panic, the other
  errors are logged). The contents of the files are arguments; the genesis file may be missing.
\<close>

datatype launch_error = ErrConfig config_error | ErrComponents start_error

definition main_start :: "config_lib \<Rightarrow> (string \<Rightarrow> genesis option) \<Rightarrow> ('d, 's) libs \<Rightarrow> 'd \<Rightarrow> (string \<Rightarrow> 'd option) \<Rightarrow>
    string option \<Rightarrow> string option \<Rightarrow> launch_error + config \<times> (u64, 'd) process" where
  "main_start CL parse B memory open_disk cfg_file gen_file = (case Load CL cfg_file of
     Inl e \<Rightarrow> Inl (ErrConfig e)
   | Inr cfg \<Rightarrow> (case start_sequencer B memory open_disk cfg (genesis_of parse gen_file) of
       Inl e \<Rightarrow> Inl (ErrComponents e)
     | Inr s \<Rightarrow> Inr (cfg, built s)))"

lemma main_start_built:
  assumes "main_start CL parse B memory open_disk cfg_file gen_file = Inr (cfg, p0)"
  obtains s0 where "start_sequencer B memory open_disk cfg (genesis_of parse gen_file) = Inr s0" and "p0 = built s0"
  using assms by (auto simp: main_start_def split: sum.splits)

definition alive :: "('c, 'd) process \<Rightarrow> bool" where
  "alive p \<longleftrightarrow> (case pr_stage p of Exited code \<Rightarrow> False | Crashed \<Rightarrow> False | _ \<Rightarrow> True)"

text \<open>A component without counters works on a sequencer whose counters are hidden, and leaves them as they are.\<close>

definition set_metrics :: "('c, 'd) sequencer \<Rightarrow> metrics option \<Rightarrow> ('c, 'd) sequencer" where
  "set_metrics s mt = s\<lparr>sn_producer := (sn_producer s)\<lparr>pd_metrics := mt\<rparr>\<rparr>"

definition hide :: "bool \<Rightarrow> ('c, 'd) sequencer \<Rightarrow> ('c, 'd) sequencer" where
  "hide metered s = (if metered then s else set_metrics s None)"

definition unhide :: "bool \<Rightarrow> ('c, 'd) sequencer \<Rightarrow> ('c, 'd) sequencer \<Rightarrow> ('c, 'd) sequencer" where
  "unhide metered s s' = (if metered then s' else set_metrics s' (pd_metrics (sn_producer s)))"

text \<open>\<open>time.NewTicker\<close> panics on an interval that is not positive; the product is one of \<open>int64\<close>.\<close>

definition producer_ticks :: "config \<Rightarrow> bool" where
  "producer_ticks cfg \<longleftrightarrow> 0 < sc_BlockTime (cf_Sequencer cfg)"

definition batcher_ticks :: "config \<Rightarrow> bool" where
  "batcher_ticks cfg \<longleftrightarrow> 0 < lc_SubmissionInterval (cf_L1 cfg) \<and> 0 < wrap_int (lc_SubmissionInterval (cf_L1 cfg) * 2)"

subsection \<open>Steps\<close>

text \<open>
  The label is what is seen of a step, if anything. First \<open>main\<close>: it starts the servers and waits for an
  error or for a timer (\<open>select\<close> picks any ready case, so the timer may win over an error), starts the loops,
  attaches the counters, and after the signal cancels the context, which is all that \<open>Stop\<close> does to a loop.
  It leaves when both servers are down; closing the database is part of that step.
\<close>

inductive main_step :: "('c, 'd) process \<Rightarrow> event option \<Rightarrow> ('c, 'd) process \<Rightarrow> bool" where
  Start_servers: "pr_stage p = Built \<Longrightarrow>
    main_step p None (p\<lparr>pr_stage := Starting, pr_http := Opening, pr_ws := Opening\<rparr>)"
| Start_fails: "pr_stage p = Starting \<Longrightarrow> pr_http p = Broken e \<or> pr_ws p = Broken e \<Longrightarrow>
    main_step p None (p\<lparr>pr_stage := Exited 1\<rparr>)"
| Start_returns: "pr_stage p = Starting \<Longrightarrow> main_step p None (p\<lparr>pr_stage := Serving\<rparr>)"
| Go_producer: "pr_stage p = Serving \<Longrightarrow>
    main_step p None (p\<lparr>pr_stage := Producing, pr_producer := Spawned\<rparr>)"
| Go_batcher: "pr_stage p = Producing \<Longrightarrow>
    main_step p None (p\<lparr>pr_stage := Batching, pr_batcher := Spawned\<rparr>)"
| Serve_metrics: "pr_stage p = Batching \<Longrightarrow> main_step p None (p\<lparr>pr_stage := Metering\<rparr>)"
| Wire_producer: "pr_stage p = Metering \<Longrightarrow>
    main_step p None (p\<lparr>pr_stage := Wired_producer, pr_metered_producer := True\<rparr>)"
| Wire_handler: "pr_stage p = Wired_producer \<Longrightarrow>
    main_step p None (p\<lparr>pr_stage := Wired_handler, pr_metered_handler := True\<rparr>)"
| Wire_batcher: "pr_stage p = Wired_handler \<Longrightarrow>
    main_step p None (p\<lparr>pr_stage := Waiting, pr_metered_batcher := True\<rparr>)"
| Signal: "pr_stage p = Waiting \<Longrightarrow> main_step p None (p\<lparr>pr_stage := Stopping, pr_cancelled := True\<rparr>)"
| Exit: "pr_stage p = Stopping \<Longrightarrow> pr_http p \<noteq> Listening \<Longrightarrow> pr_ws p \<noteq> Listening \<Longrightarrow>
    main_step p None (p\<lparr>pr_stage := Exited 0\<rparr>)"

text \<open>The servers go down one after the other; WebSocket connections outlive their listener.\<close>

inductive shutdown_step :: "('c, 'd) process \<Rightarrow> event option \<Rightarrow> ('c, 'd) process \<Rightarrow> bool" where
  Shutdown_http: "pr_stage p = Stopping \<Longrightarrow> pr_http p = Listening \<Longrightarrow>
    shutdown_step p None (p\<lparr>pr_http := Shut\<rparr>)"
| Shutdown_ws: "pr_stage p = Stopping \<Longrightarrow> pr_http p \<noteq> Listening \<Longrightarrow> pr_ws p = Listening \<Longrightarrow>
    shutdown_step p None (p\<lparr>pr_ws := Shut\<rparr>)"

text \<open>What the two listeners do: they open or break, and serve requests.\<close>

inductive server_step :: "('d, 's) libs \<Rightarrow> rpc_lib \<Rightarrow> (bytes \<Rightarrow> rpc_request option) \<Rightarrow> ('c, 'd) process \<Rightarrow> event option \<Rightarrow> ('c, 'd) process \<Rightarrow> bool"
  for B R parse where
  Http_listens: "alive p \<Longrightarrow> pr_http p = Opening \<Longrightarrow> server_step B R parse p None (p\<lparr>pr_http := Listening\<rparr>)"
| Http_breaks: "alive p \<Longrightarrow> pr_http p \<in> {Opening, Listening} \<Longrightarrow>
    server_step B R parse p None (p\<lparr>pr_http := Broken (''http server: '' @ e)\<rparr>)"
| Ws_listens: "alive p \<Longrightarrow> pr_ws p = Opening \<Longrightarrow> server_step B R parse p None (p\<lparr>pr_ws := Listening\<rparr>)"
| Ws_breaks: "alive p \<Longrightarrow> pr_ws p \<in> {Opening, Listening} \<Longrightarrow>
    server_step B R parse p None (p\<lparr>pr_ws := Broken (''ws server: '' @ e)\<rparr>)"
| Http_request: "alive p \<Longrightarrow> pr_http p = Listening \<Longrightarrow>
    http_step B R parse (hide (pr_metered_handler p) (pr_seq p)) env path method body = Some (reply, s') \<Longrightarrow>
    server_step B R parse p (Some (Request (http_accepted parse body reply)))
      (p\<lparr>pr_seq := unhide (pr_metered_handler p) (pr_seq p) s'\<rparr>)"
| Ws_connects: "alive p \<Longrightarrow> pr_ws p = Listening \<Longrightarrow> conn \<notin> pr_conns p \<Longrightarrow>
    server_step B R parse p None (p\<lparr>pr_conns := insert conn (pr_conns p)\<rparr>)"
| Ws_message: "alive p \<Longrightarrow> conn \<in> pr_conns p \<Longrightarrow>
    ws_step B R (hide (pr_metered_handler p) (pr_seq p)) env conn r = Some (a, s') \<Longrightarrow>
    server_step B R parse p (Some (Request (ws_accepted r a)))
      (p\<lparr>pr_seq := unhide (pr_metered_handler p) (pr_seq p) s',
         pr_conns := (if r = ReadFailed then pr_conns p - {conn} else pr_conns p)\<rparr>)"

text \<open>The loop of the producer; a tick may win over the cancelled context.\<close>

inductive producer_step :: "config \<Rightarrow> ('d, 's) libs \<Rightarrow> ('c, 'd) process \<Rightarrow> event option \<Rightarrow> ('c, 'd) process \<Rightarrow> bool"
  for cfg B where
  Producer_starts: "alive p \<Longrightarrow> pr_producer p = Spawned \<Longrightarrow> producer_ticks cfg \<Longrightarrow>
    producer_step cfg B p None (p\<lparr>pr_producer := Looping\<rparr>)"
| Producer_panics: "alive p \<Longrightarrow> pr_producer p = Spawned \<Longrightarrow> \<not> producer_ticks cfg \<Longrightarrow>
    producer_step cfg B p None (p\<lparr>pr_stage := Crashed\<rparr>)"
| Producer_returns: "alive p \<Longrightarrow> pr_producer p = Looping \<Longrightarrow> pr_cancelled p \<Longrightarrow>
    producer_step cfg B p None (p\<lparr>pr_producer := Returned\<rparr>)"
| Producer_tick: "alive p \<Longrightarrow> pr_producer p = Looping \<Longrightarrow>
    unat (mg_currentBlock (seq_mgr (pr_seq p))) + 2 < 2 ^ 64 \<Longrightarrow>
    tick_step B (hide (pr_metered_producer p) (pr_seq p)) now = Some s' \<Longrightarrow>
    producer_step cfg B p (Some Tick) (p\<lparr>pr_seq := unhide (pr_metered_producer p) (pr_seq p) s'\<rparr>)"
| Tick_panics: "alive p \<Longrightarrow> pr_producer p = Looping \<Longrightarrow>
    tick_step B (hide (pr_metered_producer p) (pr_seq p)) now = None \<Longrightarrow>
    producer_step cfg B p None (p\<lparr>pr_stage := Crashed\<rparr>)"

text \<open>The loop of the batcher.\<close>

inductive batcher_step :: "config \<Rightarrow> ('d, 's) libs \<Rightarrow> batch_libs \<Rightarrow> 'c l1_client \<Rightarrow> ('c, 'd) process \<Rightarrow> event option \<Rightarrow> ('c, 'd) process \<Rightarrow> bool"
  for cfg B Z L1 where
  Batcher_starts: "alive p \<Longrightarrow> pr_batcher p = Spawned \<Longrightarrow> batcher_ticks cfg \<Longrightarrow>
    batcher_step cfg B Z L1 p None (p\<lparr>pr_batcher := Looping\<rparr>)"
| Batcher_panics: "alive p \<Longrightarrow> pr_batcher p = Spawned \<Longrightarrow> \<not> batcher_ticks cfg \<Longrightarrow>
    batcher_step cfg B Z L1 p None (p\<lparr>pr_stage := Crashed\<rparr>)"
| Batcher_returns: "alive p \<Longrightarrow> pr_batcher p = Looping \<Longrightarrow> pr_cancelled p \<Longrightarrow>
    batcher_step cfg B Z L1 p None (p\<lparr>pr_batcher := Returned\<rparr>)"
| Batcher_submits: "alive p \<Longrightarrow> pr_batcher p = Looping \<Longrightarrow>
    \<forall>n \<le> mg_currentBlock (seq_mgr (pr_seq p)). \<not> clash n (ba_batchIndex (sn_batcher (pr_seq p)) + 1) \<Longrightarrow>
    submit_step B Z L1 (hide (pr_metered_batcher p) (pr_seq p)) now = Some (out, s') \<Longrightarrow>
    batcher_step cfg B Z L1 p (Some (Submission (map_option fst out)))
      (p\<lparr>pr_seq := unhide (pr_metered_batcher p) (pr_seq p) s'\<rparr>)"
| Batcher_confirms: "alive p \<Longrightarrow> pr_batcher p = Looping \<Longrightarrow>
    batcher_step cfg B Z L1 p (Some Confirmation)
      (p\<lparr>pr_seq := unhide (pr_metered_batcher p) (pr_seq p) (confirm_step L1 (hide (pr_metered_batcher p) (pr_seq p)))\<rparr>)"

text \<open>All of them, in any order.\<close>

inductive proc_step :: "config \<Rightarrow> ('d, 's) libs \<Rightarrow> rpc_lib \<Rightarrow> (bytes \<Rightarrow> rpc_request option) \<Rightarrow> batch_libs \<Rightarrow>
    'c l1_client \<Rightarrow> ('c, 'd) process \<Rightarrow> event option \<Rightarrow> ('c, 'd) process \<Rightarrow> bool"
  for cfg B R parse Z L1 where
  Main: "main_step p l p' \<Longrightarrow> proc_step cfg B R parse Z L1 p l p'"
| Shutdown: "shutdown_step p l p' \<Longrightarrow> proc_step cfg B R parse Z L1 p l p'"
| Server: "server_step B R parse p l p' \<Longrightarrow> proc_step cfg B R parse Z L1 p l p'"
| Producer: "producer_step cfg B p l p' \<Longrightarrow> proc_step cfg B R parse Z L1 p l p'"
| Batcher: "batcher_step cfg B Z L1 p l p' \<Longrightarrow> proc_step cfg B R parse Z L1 p l p'"

lemmas proc_cases = proc_step.cases main_step.cases shutdown_step.cases server_step.cases producer_step.cases batcher_step.cases

text \<open>The steps that change the sequencer do what a step of the sequencer does.\<close>

definition works :: "('d, 's) libs \<Rightarrow> rpc_lib \<Rightarrow> (bytes \<Rightarrow> rpc_request option) \<Rightarrow> batch_libs \<Rightarrow>
    'c l1_client \<Rightarrow> ('c, 'd) sequencer \<Rightarrow> event option \<Rightarrow> ('c, 'd) sequencer \<Rightarrow> bool" where
  "works B R parse Z L1 s l s' \<longleftrightarrow> (case l of None \<Rightarrow> s' = s
     | Some e \<Rightarrow> (\<exists>w s1. seq_step B R parse Z L1 (hide w s) e s1 \<and> s' = unhide w s s1))"

lemma hide_fields [simp]: "seq_mgr (hide w s) = seq_mgr s" "sn_batcher (hide w s) = sn_batcher s"
  "pd_mempool (sn_producer (hide w s)) = pd_mempool (sn_producer s)"
  by (simp_all add: hide_def set_metrics_def)

lemma works_step: "seq_step B R parse Z L1 (hide w s) e s1 \<Longrightarrow> works B R parse Z L1 s (Some e) (unhide w s s1)"
  by (auto simp: works_def)

lemma proc_step_works:
  assumes "proc_step cfg B R parse Z L1 p l p'"
  shows "works B R parse Z L1 (pr_seq p) l (pr_seq p')"
  using assms
proof cases
  case Main
  then show ?thesis by cases (simp_all add: works_def)
next
  case Shutdown
  then show ?thesis by cases (simp_all add: works_def)
next
  case Server
  then show ?thesis by cases (auto intro!: works_step seq_step.Http seq_step.Ws, auto simp: works_def)
next
  case Producer
  then show ?thesis by cases (auto intro!: works_step seq_step.Tick, auto simp: works_def)
next
  case Batcher
  then show ?thesis by cases (auto intro!: works_step seq_step.Submit seq_step.Confirm, auto simp: works_def)
qed

lemma set_metrics_sel [simp]: "sn_batcher (set_metrics s mt) = sn_batcher s" "sn_tastescore (set_metrics s mt) = sn_tastescore s"
  "pd_mempool (sn_producer (set_metrics s mt)) = pd_mempool (sn_producer s)"
  "pd_feeModel (sn_producer (set_metrics s mt)) = pd_feeModel (sn_producer s)"
  "pd_sizer (sn_producer (set_metrics s mt)) = pd_sizer (sn_producer s)" "seq_mgr (set_metrics s mt) = seq_mgr s"
  by (simp_all add: set_metrics_def)

lemma set_metrics_same [simp]: "seq_ok B R lims (set_metrics s mt) hist = seq_ok B R lims s hist"
  "spec_of B (set_metrics s mt) = spec_of B s"
  by (simp_all add: seq_ok_def limits_of_def Let_def scores_ok_def run_ok_def spec_of_def)

lemma hide_same [simp]: "seq_ok B R lims (hide w s) hist = seq_ok B R lims s hist" "spec_of B (hide w s) = spec_of B s"
  "seq_ok B R lims (unhide w s s') hist = seq_ok B R lims s' hist" "spec_of B (unhide w s s') = spec_of B s'"
  "seq_mgr (unhide w s s') = seq_mgr s'"
  by (simp_all add: hide_def unhide_def)

subsection \<open>The process implements the specification\<close>

definition visible :: "event option list \<Rightarrow> event list" where
  "visible tr = concat (map (\<lambda>l. case l of None \<Rightarrow> [] | Some e \<Rightarrow> [e]) tr)"

lemma visible_simps [simp]: "visible [] = []" "visible (tr @ [None]) = visible tr"
  "visible (tr @ [Some e]) = visible tr @ [e]" "visible (None # tr) = visible tr"
  by (simp_all add: visible_def)

definition quiet :: "('a \<Rightarrow> 'e \<Rightarrow> 'a \<Rightarrow> bool) \<Rightarrow> 'a \<Rightarrow> 'e option \<Rightarrow> 'a \<Rightarrow> bool" where
  "quiet step a l b \<longleftrightarrow> (case l of None \<Rightarrow> b = a | Some e \<Rightarrow> step a e b)"

lemma quiet_run: "run (quiet spec_step) a b tr \<Longrightarrow> run spec_step a b (visible tr)"
proof (induction rule: run.induct)
  case (Step b tr l c)
  then show ?case by (cases l) (auto simp: quiet_def intro: run.Step)
qed (simp add: run.Start)

text \<open>What every step keeps; the flag asks for the database too.\<close>

definition process_inv :: "('d, 's) libs \<Rightarrow> rpc_lib \<Rightarrow> (u64 \<times> u64 \<times> int \<times> int) option \<times> int \<times> int \<times> int \<Rightarrow> bool \<Rightarrow>
    ('c, 'd) process \<Rightarrow> event option list \<Rightarrow> bool" where
  "process_inv B R lims disk p tr \<longleftrightarrow> libs_laws B \<and> txs_sane R \<and> seq_ok B R lims (pr_seq p) (batches_in (visible tr)) \<and>
     (disk \<longrightarrow> reopens B (seq_mgr (pr_seq p)))"

interpretation pr: simulation "proc_step cfg B R parse Z L1" "quiet spec_step" "process_inv B R lims disk"
  "\<lambda>p. spec_of B (pr_seq p)" for cfg B R parse Z L1 lims disk
proof unfold_locales
  have *: "process_inv B R lims disk p' (tr @ [l]) \<and> quiet spec_step (spec_of B (pr_seq p)) l (spec_of B (pr_seq p'))"
    if inv: "process_inv B R lims disk p tr" and step: "proc_step cfg B R parse Z L1 p l p'" for p tr l p'
  proof (cases l)
    case None
    then show ?thesis using inv proc_step_works [OF step] by (simp add: works_def process_inv_def quiet_def)
  next
    case (Some e)
    obtain w s1 where s1: "seq_step B R parse Z L1 (hide w (pr_seq p)) e s1" "pr_seq p' = unhide w (pr_seq p) s1"
      using proc_step_works [OF step] Some by (auto simp: works_def)
    have "libs_laws B \<and> txs_sane R \<and> seq_ok B R lims (hide w (pr_seq p)) (batches_in (visible tr))"
      using inv by (simp add: process_inv_def)
    note a = sq.step_inv [OF this s1(1)] sq.step_sim [OF this s1(1)]
    have "disk \<longrightarrow> reopens B (seq_mgr s1)"
      using seq_step_reopens [OF s1(1), where lims = lims and hist = "batches_in (visible tr)"] inv by (auto simp: process_inv_def)
    then show ?thesis using a s1(2) Some by (simp add: process_inv_def quiet_def)
  qed
  show "process_inv B R lims disk p' (tr @ [l])" "quiet spec_step (spec_of B (pr_seq p)) l (spec_of B (pr_seq p'))"
    if "process_inv B R lims disk p tr" "proc_step cfg B R parse Z L1 p l p'" for p tr l p'
    using * that by blast+
qed

text \<open>A run of the process from a start.\<close>

lemma process_run:
  assumes "run (proc_step cfg B R parse Z L1) (built s0) p tr" and "seq_ok B R lims s0 []" and "libs_laws B" and "txs_sane R"
  shows "seq_ok B R lims (pr_seq p) (batches_in (visible tr))" and "run spec_step (spec_of B s0) (spec_of B (pr_seq p)) (visible tr)"
    and "reopens B (seq_mgr s0) \<Longrightarrow> reopens B (seq_mgr (pr_seq p))"
proof -
  have inv: "process_inv B R lims disk (built s0) []" if "disk \<longrightarrow> reopens B (seq_mgr s0)" for disk
    using assms(2-4) that by (simp add: process_inv_def built_def)
  show "seq_ok B R lims (pr_seq p) (batches_in (visible tr))"
    using pr.run_inv [OF assms(1) inv, of False] by (simp add: process_inv_def)
  show "run spec_step (spec_of B s0) (spec_of B (pr_seq p)) (visible tr)"
    using quiet_run [OF pr.run_sim [OF assms(1) inv, of False]] by (simp add: built_def)
  show "reopens B (seq_mgr (pr_seq p))" if "reopens B (seq_mgr s0)"
    using pr.run_inv [OF assms(1) inv, of True] that by (simp add: process_inv_def)
qed

subsection \<open>The order of the stages\<close>

text \<open>What each stage implies for the goroutines, the counters and the events so far.\<close>

lemma alive_iff: "alive p \<longleftrightarrow> (\<forall>code. pr_stage p \<noteq> Exited code) \<and> pr_stage p \<noteq> Crashed"
  by (cases "pr_stage p") (simp_all add: alive_def)

definition early :: "stage \<Rightarrow> bool" where
  "early st \<longleftrightarrow> (case st of Built \<Rightarrow> True | Starting \<Rightarrow> True | Serving \<Rightarrow> True | Exited code \<Rightarrow> code \<noteq> 0 | _ \<Rightarrow> False)"

definition loops_staged :: "('c, 'd) process \<Rightarrow> bool" where
  "loops_staged p \<longleftrightarrow> (early (pr_stage p) \<longrightarrow> pr_producer p = Unspawned) \<and>
     (early (pr_stage p) \<or> pr_stage p = Producing \<longrightarrow> pr_batcher p = Unspawned)"

definition idle :: "loop \<Rightarrow> bool" where
  "idle l \<longleftrightarrow> l = Unspawned \<or> l = Spawned"

lemma idle_simps [simp]: "idle Unspawned" "idle Spawned" "\<not> idle Looping" "\<not> idle Returned"
  by (simp_all add: idle_def)

definition loops_tick :: "config \<Rightarrow> ('c, 'd) process \<Rightarrow> event list \<Rightarrow> bool" where
  "loops_tick cfg p evs \<longleftrightarrow> (if idle (pr_producer p) then Tick \<notin> set evs else producer_ticks cfg) \<and>
     (if idle (pr_batcher p) then batches_in evs = [] \<and> Confirmation \<notin> set evs else batcher_ticks cfg)"

definition nets_staged :: "('c, 'd) process \<Rightarrow> event list \<Rightarrow> bool" where
  "nets_staged p evs \<longleftrightarrow>
     (if pr_stage p = Built then pr_http p = Unopened \<and> pr_ws p = Unopened \<and> pr_conns p = {} \<and> evs = []
      else pr_http p \<noteq> Unopened \<and> pr_ws p \<noteq> Unopened)"

definition meters_staged :: "('c, 'd) process \<Rightarrow> bool" where
  "meters_staged p \<longleftrightarrow> (pr_stage p \<in> {Wired_producer, Wired_handler} \<longrightarrow> pr_metered_producer p) \<and>
     (pr_stage p = Wired_handler \<longrightarrow> pr_metered_handler p) \<and>
     (pr_stage p \<in> {Waiting, Stopping, Exited 0} \<longrightarrow> pr_metered_producer p \<and> pr_metered_handler p \<and> pr_metered_batcher p)"

definition stops_staged :: "('c, 'd) process \<Rightarrow> bool" where
  "stops_staged p \<longleftrightarrow> (pr_producer p = Returned \<or> pr_batcher p = Returned \<longrightarrow> pr_cancelled p) \<and>
     (pr_cancelled p \<longrightarrow> pr_stage p \<in> {Stopping, Exited 0, Crashed})"

lemmas staged_defs = loops_staged_def loops_tick_def nets_staged_def meters_staged_def stops_staged_def

lemma early_simps [simp]: "early Built" "early Starting" "early Serving" "early (Exited code) \<longleftrightarrow> code \<noteq> 0"
  "\<not> early Producing" "\<not> early Batching" "\<not> early Metering" "\<not> early Wired_producer" "\<not> early Wired_handler"
  "\<not> early Waiting" "\<not> early Stopping" "\<not> early Crashed"
  by (simp_all add: early_def)

lemma loops_staged_step: "proc_step cfg B R parse Z L1 p l p' \<Longrightarrow> loops_staged p \<Longrightarrow> loops_staged p'"
  by (elim proc_cases) (auto simp: loops_staged_def)

lemma meters_staged_step: "proc_step cfg B R parse Z L1 p l p' \<Longrightarrow> meters_staged p \<Longrightarrow> meters_staged p'"
  by (elim proc_cases) (auto simp: meters_staged_def)

lemma stops_staged_step: "proc_step cfg B R parse Z L1 p l p' \<Longrightarrow> stops_staged p \<Longrightarrow> stops_staged p'"
  by (elim proc_cases) (auto simp: stops_staged_def alive_iff)

lemma nets_staged_step: "proc_step cfg B R parse Z L1 p l p' \<Longrightarrow> loops_staged p \<Longrightarrow> nets_staged p (visible tr) \<Longrightarrow> nets_staged p' (visible (tr @ [l]))"
  by (elim proc_cases) (auto simp: nets_staged_def loops_staged_def split: if_splits)

lemma loops_tick_step:
  "proc_step cfg B R parse Z L1 p l p' \<Longrightarrow> loops_staged p \<Longrightarrow> loops_tick cfg p (visible tr) \<Longrightarrow>
   loops_tick cfg p' (visible (tr @ [l]))"
  by (elim proc_cases) (auto simp: loops_tick_def loops_staged_def)

text \<open>All of it, in every run from a start.\<close>

lemma process_staged:
  assumes "run (proc_step cfg B R parse Z L1) (built s0) p tr"
  shows "loops_staged p \<and> meters_staged p \<and> stops_staged p \<and> nets_staged p (visible tr) \<and> loops_tick cfg p (visible tr)"
  using assms
proof (induction rule: run.induct)
  case Start
  then show ?case by (simp add: built_def staged_defs)
next
  case (Step p tr l p')
  then show ?case
    using loops_staged_step [OF Step(2)] meters_staged_step [OF Step(2)] stops_staged_step [OF Step(2)]
      nets_staged_step [OF Step(2)] loops_tick_step [OF Step(2)] by blast
qed

text \<open>No ticker, or a start that failed: no block, no batch.\<close>

lemma no_ticks: "loops_staged p \<Longrightarrow> loops_tick cfg p evs \<Longrightarrow> \<not> producer_ticks cfg \<or> pr_stage p = Exited 1 \<Longrightarrow> Tick \<notin> set evs"
  by (cases "idle (pr_producer p)") (auto simp: loops_staged_def loops_tick_def)

lemma no_batches: "loops_staged p \<Longrightarrow> loops_tick cfg p evs \<Longrightarrow> \<not> batcher_ticks cfg \<or> pr_stage p = Exited 1 \<Longrightarrow> batches_in evs = []"
  by (cases "idle (pr_batcher p)") (auto simp: loops_staged_def loops_tick_def)

subsection \<open>Panics\<close>

lemma proc_step_alive: "proc_step cfg B R parse Z L1 p l p' \<Longrightarrow> alive p"
  by (elim proc_cases) (auto simp: alive_iff)

lemma proc_step_crash:
  "proc_step cfg B R parse Z L1 p l p' \<Longrightarrow> pr_stage p' = Crashed \<Longrightarrow>
   \<not> producer_ticks cfg \<or> \<not> batcher_ticks cfg \<or> (\<exists>w now. tick_step B (hide w (pr_seq p)) now = None)"
  by (elim proc_cases) (auto simp: alive_iff)

lemma process_crash:
  assumes "run (proc_step cfg B R parse Z L1) (built s0) p tr" and "seq_ok B R lims s0 []" and "libs_laws B" and "txs_sane R"
    and "pr_stage p = Crashed"
  shows "\<not> producer_ticks cfg \<or> \<not> batcher_ticks cfg"
  using assms(1)
proof (cases rule: run.cases)
  case Start
  then show ?thesis using assms(5) by (simp add: built_def)
next
  case (Step q tr' l)
  have ok: "seq_ok B R lims (pr_seq q) (batches_in (visible tr'))" by (rule process_run(1) [OF Step(2) assms(2-4)])
  have "tick_step B (hide w (pr_seq q)) now \<noteq> None" for w now
    using ok tick_returns [OF _ assms(3), of "sn_producer (hide w (pr_seq q))" now]
    by (auto simp: tick_step_def seq_ok_def Let_def)
  then show ?thesis using proc_step_crash [OF Step(3) assms(5)] by blast
qed

subsection \<open>The way to the exit\<close>

text \<open>Whatever a live process is doing, \<open>main\<close> can go on to its exit without a step of the sequencer.\<close>

definition can_exit :: "(('c, 'd) process \<Rightarrow> event option \<Rightarrow> ('c, 'd) process \<Rightarrow> bool) \<Rightarrow> ('c, 'd) process \<Rightarrow> bool" where
  "can_exit step p \<longleftrightarrow> (\<exists>p' tr. run step p p' tr \<and> pr_stage p' = Exited 0 \<and> visible tr = [] \<and> pr_seq p' = pr_seq p)"

lemma can_exit_step: "step p None p' \<Longrightarrow> pr_seq p' = pr_seq p \<Longrightarrow> can_exit step p' \<Longrightarrow> can_exit step p"
  unfolding can_exit_def using run_cons visible_simps(4) by metis

lemmas main_can_exit = can_exit_step [OF proc_step.Main]

lemmas shutdown_can_exit = can_exit_step [OF proc_step.Shutdown]

lemma stopping_exits:
  assumes "pr_stage p = Stopping"
  shows "can_exit (proc_step cfg B R parse Z L1) p"
proof -
  let ?exits = "can_exit (proc_step cfg B R parse Z L1)"
  have last: "?exits q" if "pr_stage q = Exited 0" for q
    unfolding can_exit_def by (intro exI [of _ q] exI [of _ "[]"]) (simp add: that run.Start)
  have down: "?exits q" if "pr_stage q = Stopping" "pr_http q \<noteq> Listening" "pr_ws q \<noteq> Listening" for q
    by (rule main_can_exit, rule main_step.Exit [OF that]) (simp_all add: last)
  have ws: "?exits q" if "pr_stage q = Stopping" "pr_http q \<noteq> Listening" for q
  proof (cases "pr_ws q = Listening")
    case True
    show ?thesis by (rule shutdown_can_exit, rule shutdown_step.Shutdown_ws [OF that True]) (simp_all add: down that)
  qed (simp add: down that)
  show ?thesis
  proof (cases "pr_http p = Listening")
    case True
    show ?thesis by (rule shutdown_can_exit, rule shutdown_step.Shutdown_http [OF assms True]) (simp_all add: ws assms)
  qed (simp add: ws assms)
qed

lemma process_can_exit:
  assumes "alive p"
  shows "can_exit (proc_step cfg B R parse Z L1) p"
proof -
  let ?exits = "can_exit (proc_step cfg B R parse Z L1)"
  have Waiting: "?exits q" if "pr_stage q = Waiting" for q
    by (rule main_can_exit, rule main_step.Signal [OF that]) (simp_all add: stopping_exits)
  have Wired_handler: "?exits q" if "pr_stage q = Wired_handler" for q
    by (rule main_can_exit, rule main_step.Wire_batcher [OF that]) (simp_all add: Waiting)
  have Wired_producer: "?exits q" if "pr_stage q = Wired_producer" for q
    by (rule main_can_exit, rule main_step.Wire_handler [OF that]) (simp_all add: Wired_handler)
  have Metering: "?exits q" if "pr_stage q = Metering" for q
    by (rule main_can_exit, rule main_step.Wire_producer [OF that]) (simp_all add: Wired_producer)
  have Batching: "?exits q" if "pr_stage q = Batching" for q
    by (rule main_can_exit, rule main_step.Serve_metrics [OF that]) (simp_all add: Metering)
  have Producing: "?exits q" if "pr_stage q = Producing" for q
    by (rule main_can_exit, rule main_step.Go_batcher [OF that]) (simp_all add: Batching)
  have Serving: "?exits q" if "pr_stage q = Serving" for q
    by (rule main_can_exit, rule main_step.Go_producer [OF that]) (simp_all add: Producing)
  have Starting: "?exits q" if "pr_stage q = Starting" for q
    by (rule main_can_exit, rule main_step.Start_returns [OF that]) (simp_all add: Serving)
  have Built: "?exits q" if "pr_stage q = Built" for q
    by (rule main_can_exit, rule main_step.Start_servers [OF that]) (simp_all add: Starting)
  show ?thesis
    by (cases "pr_stage p") (use assms Built Starting Serving Producing Batching Metering Wired_producer Wired_handler Waiting
        stopping_exits in \<open>simp_all add: alive_iff\<close>)
qed

end
