(* ===== verification/Sessions.thy ===== *)
theory Sessions
  imports Process
begin

section \<open>Stopping and starting again\<close>

text \<open>
  Executions with any number of restarts, from an empty database, each with a configuration and a genesis
  file of its own. A session is a run of the process that ends anywhere: after a shutdown, after a panic,
  or by being killed, between two steps or in the middle of one (\<open>left_on_disk\<close>). What is in memory then is
  gone: the pending transactions, the fee, the scores, and the position of the batcher. What is on disk is
  the chain (\<open>sessions_ok\<close>).
\<close>

inductive sessions :: "('d, 's) libs \<Rightarrow> rpc_lib \<Rightarrow> (bytes \<Rightarrow> rpc_request option) \<Rightarrow> batch_libs \<Rightarrow> u64 l1_client \<Rightarrow>
    'd \<Rightarrow> (u64, 'd) process \<Rightarrow> event list list \<Rightarrow> bool"
  for B R parse Z L1 d0 where
  First: "config_sound cfg \<Longrightarrow> start_on B d0 cfg gen = Inr s0 \<Longrightarrow> run (proc_step cfg B R parse Z L1) (built s0) p tr \<Longrightarrow>
    sessions B R parse Z L1 d0 p [visible tr]"
| Again: "sessions B R parse Z L1 d0 q trs \<Longrightarrow> left_on_disk B (seq_mgr (pr_seq q)) d \<Longrightarrow> config_sound cfg \<Longrightarrow>
    start_on B d cfg gen = Inr s0 \<Longrightarrow> run (proc_step cfg B R parse Z L1) (built s0) p tr \<Longrightarrow> sessions B R parse Z L1 d0 p (trs @ [visible tr])"

lemma session_run:
  assumes "config_sound cfg" and "start_on B d cfg gen = Inr s0" and "run (proc_step cfg B R parse Z L1) (built s0) p tr"
    and "program_laws B R" and "chain_ok B (seq_mgr s0)" and "reopens B (seq_mgr s0)"
  shows "chain_ok B (seq_mgr (pr_seq p)) \<and> reopens B (seq_mgr (pr_seq p)) \<and>
    conserved (spec_of B s0) (spec_of B (pr_seq p)) (visible tr) \<and> sp_pending (spec_of B s0) = {#}"
proof -
  have st: "start_sequencer B d (\<lambda>path. Some d) cfg gen = Inr s0" using assms(2) by (simp add: start_on_def)
  have laws: "libs_laws B" "txs_sane R" "unit_api (rl_score R)" using assms(4) by (simp_all add: program_laws_def)
  note r = process_run [OF assms(3) start_seq_ok [OF st assms(1,5) laws(3)] laws(1,2)]
  show ?thesis
    using spec_run_conserves [OF r(2)] r(1) r(3) [OF assms(6)] start_empty [OF st]
    by (simp add: seq_ok_def Let_def spec_of_def pool_hashes_def)
qed

text \<open>After any number of sessions, nothing is in the chain or pending more often than it was accepted.\<close>

definition accounted :: "spec_state \<Rightarrow> event list list \<Rightarrow> bool" where
  "accounted a trs \<longleftrightarrow> sp_pending a + mset (concat (sp_chain a)) \<subseteq># mset (concat (map accepted_in trs))"

lemma accounted_chain: "accounted a trs \<Longrightarrow> mset (concat (sp_chain a)) \<subseteq># mset (concat (map accepted_in trs))"
  unfolding accounted_def subseteq_mset_def count_union by (metis add_leE)

lemma accounted_session:
  assumes "conserved a b tr" and "sp_pending a = {#}" and "mset (concat (sp_chain a)) \<subseteq># mset (concat (map accepted_in trs))"
  shows "accounted b (trs @ [tr])"
  using assms by (simp add: accounted_def conserved_def)

lemma sessions_ok:
  assumes "sessions B R parse Z L1 d0 p trs" and "blank B d0" and "program_laws B R" and "roots_nonzero B"
  shows "chain_ok B (seq_mgr (pr_seq p)) \<and> reopens B (seq_mgr (pr_seq p)) \<and> accounted (spec_of B (pr_seq p)) trs"
  using assms(1)
proof (induction rule: sessions.induct)
  case (First cfg gen s0 p tr)
  have laws: "libs_laws B" using assms(3) by (simp add: program_laws_def)
  obtain m where m: "NewManager B (sc_ChainID (cf_Sequencer cfg)) (gl_HexToAddress (lb_G B)
        ''0xf39Fd6e51aad88F6F4ce6aB8827279cffFb92266'') gen d0 = Inr m" "seq_mgr s0 = m"
    using start_on_eq [OF First(1), of B gen d0] First(2) by auto
  have tip: "mg_currentBlock m = 0" "reopens B m" using blank_manager [OF m(1) assms(2) laws assms(4)] by simp_all
  then have ok: "chain_ok B (seq_mgr s0)" "reopens B (seq_mgr s0)" "sp_chain (spec_of B s0) = []"
    by (simp_all add: m(2) chain_ok_def chain_view_def spec_of_def)
  note r = session_run [OF First(1-3) assms(3) ok(1,2)]
  have "accounted (spec_of B (pr_seq p)) ([] @ [visible tr])"
    by (rule accounted_session [of "spec_of B s0"]) (use r ok(3) in simp_all)
  then show ?case using r by simp
next
  case (Again q trs d cfg gen s0 p tr)
  let ?q = "pr_seq q"
  have laws: "libs_laws B" using assms(3) by (simp add: program_laws_def)
  have IH: "chain_ok B (seq_mgr ?q)" "reopens B (seq_mgr ?q)" "accounted (spec_of B ?q) trs" using Again.IH by simp_all
  obtain s where s: "start_on B d cfg gen = Inr s" "mg_currentBlock (seq_mgr s) = mg_currentBlock (seq_mgr ?q)"
    "\<And>n. mg_GetBlock B (seq_mgr s) n = mg_GetBlock B (seq_mgr ?q) n" "reopens B (seq_mgr s)"
    using restart_start [OF IH(2) laws Again.hyps(3,2), of gen] by metis
  have s0: "s = s0" using s(1) Again.hyps(4) by simp
  note chain = chain_view_cong [OF s(2,3), unfolded s0]
  have ok: "chain_ok B (seq_mgr s0)" "reopens B (seq_mgr s0)" using IH(1) chain(2) s(4) s0 by simp_all
  have "mset (concat (sp_chain (spec_of B s0))) \<subseteq># mset (concat (map accepted_in trs))"
    using accounted_chain [OF IH(3)] chain(1) by (simp add: spec_of_def)
  then show ?case
    using session_run [OF Again.hyps(3-5) assms(3) ok] accounted_session by blast
qed

end
