(* ===== verification/Instances.thy ===== *)
theory Instances
  imports Sessions
begin

section \<open>Concrete starts and runs\<close>

text \<open>
  Instances of the libraries with which the model of the whole program is evaluated: a start on an empty
  database, a first transaction, a process that gets as far as its first block, a database that another
  process left behind. The properties of the root theory are applied to them.
\<close>

subsection \<open>Starts\<close>

lemma default_start:
  assumes "NewManager B 42069 (gl_HexToAddress (lb_G B) ''0xf39Fd6e51aad88F6F4ce6aB8827279cffFb92266'') gen d = Inr sm"
  obtains s0 where "start_sequencer B d (\<lambda>path. Some d) DefaultConfig gen = Inr s0"
    and "pd_state (sn_producer s0) = sm" and "sn_chainID s0 = 42069" and "lm_Pending (pd_mempool (sn_producer s0)) = []"
    and "lm_maxSize (pd_mempool (sn_producer s0)) = 50000"
proof -
  have d: "data_dir DefaultConfig = ''/data''" by (simp add: data_dir_def DefaultConfig_def)
  show ?thesis
    using that assms by (auto simp: start_sequencer_def Let_def NewStateStore_def d lm_New_def wrap_int_def DefaultConfig_def
        pd_New_def SetAdaptiveSizer_def SetReceiptStore_def pd_SetMetrics_def lm_Pending_def heap_init_def)
qed

lemma example_sane: "txs_sane example_rpc"
  by (simp add: txs_sane_def example_rpc_def example_tx_def)

lemma example_laws: "program_laws (example_libs (empty_block 1)) example_rpc"
  using example_libs_laws [of "empty_block 1"] example_scores [of example_manager] example_sane
  by (simp add: program_laws_def scores_ok_def)

definition one_request :: "bytes \<Rightarrow> rpc_request option" where
  "one_request body = Some (send_request one_text JNull)"

text \<open>A request with a first transaction, whether the handler counts or not.\<close>

lemma example_accepts:
  assumes "seq_ok (example_libs b) example_rpc lims s []" and "sn_chainID s = 42069"
    and "lm_Pending (pd_mempool (sn_producer s)) = []" and "lm_maxSize (pd_mempool (sn_producer s)) = 50000"
  obtains reply s' where "http_step (example_libs b) example_rpc one_request s example_env ''/'' ''POST'' (Some []) = Some (reply, s')"
    and "http_accepted one_request (Some []) reply = Some (replicate 32 1)"
proof -
  let ?B = "example_libs b"
  have inv: "lm_inv (rh_mempool (handler_of s))" and sc: "scores_ok example_rpc (handler_of s)"
    using assms(1) by (simp_all add: seq_ok_def Let_def pool_ok_def)
  have ops: "tp_Add laned_ops = lm_Add" by (simp add: laned_ops_def)
  have t: "sends example_rpc (rh_chainID (handler_of s)) one_text (example_tx 1 21000 0) zero_address" by (rule example_sends)
  have free: "\<not> lm_Has (rh_mempool (handler_of s)) (tx_Hash (example_tx 1 21000 0))"
    "lm_Len (rh_mempool (handler_of s)) < lm_maxSize (rh_mempool (handler_of s))"
    using lm.has_iff [OF inv] lm.len_eq [OF inv] assms(3,4) by simp_all
  obtain resp h' where r: "Handle ?B laned_ops example_rpc example_env (handler_of s) (send_request one_text JNull) = Some (resp, h')"
    "rs_Reply resp = RpcResult (VHash (tx_Hash (example_tx 1 21000 0)))"
    using lm.send_outcome [OF ops inv t sc, of ?B example_env JNull] free by (auto split: if_splits)
  have "http_step ?B example_rpc one_request s example_env ''/'' ''POST'' (Some []) = Some (HttpRpc resp, put_handler s h')"
    using r(1) by (simp add: http_step_def serveHTTP_def handleHTTP_def read_limited_def one_request_def)
  moreover have "http_accepted one_request (Some []) (HttpRpc resp) = Some (replicate 32 1)"
    using r(2) by (simp add: http_accepted_def read_limited_def one_request_def accepted_def send_request_def example_tx_def)
  ultimately show ?thesis using that by blast
qed

text \<open>A start on an empty database.\<close>

lemma example_start:
  obtains s0 where "start_on (example_libs b) Map.empty DefaultConfig DefaultGenesis = Inr s0"
    and "seq_ok (example_libs b) example_rpc (start_limits DefaultConfig) s0 []" and "sn_chainID s0 = 42069"
    and "lm_Pending (pd_mempool (sn_producer s0)) = []" and "lm_maxSize (pd_mempool (sn_producer s0)) = 50000"
    and "mg_currentBlock (seq_mgr s0) = 0" and "cdb_db (mg_chainDB (seq_mgr s0)) = [keyGenesisRoot \<mapsto> replicate 32 9]"
    and "mg_l1Origin (seq_mgr s0) = no_l1_origin" and "mg_sequencerAddr (seq_mgr s0) = zero_address"
proof -
  let ?B = "example_libs b"
  obtain m where m: "NewManager ?B 42069 zero_address DefaultGenesis Map.empty = Inr m"
    "cdb_db (mg_chainDB m) = [keyGenesisRoot \<mapsto> replicate 32 9]" by (rule example_new_manager)
  obtain s0 where s0: "start_on ?B Map.empty DefaultConfig DefaultGenesis = Inr s0"
    "seq_mgr s0 = m" "sn_chainID s0 = 42069" "lm_Pending (pd_mempool (sn_producer s0)) = []"
    "lm_maxSize (pd_mempool (sn_producer s0)) = 50000"
    using default_start [of ?B DefaultGenesis Map.empty m] m(1) by (auto simp: example_genesis_lib_def start_on_def)
  have f: "mg_currentBlock m = 0" "mg_l1Origin m = no_l1_origin" "mg_sequencerAddr m = zero_address"
    using m(1) by (auto simp: NewManager_def Let_def cdb_ReadGenesisRoot_def mem_db_def NewChainDB_def split: option.splits
        sum.splits prod.splits)
  then have chain: "chain_ok ?B (seq_mgr s0)" by (simp add: chain_ok_def s0(2))
  have "unit_api (rl_score example_rpc)" using example_laws by (simp add: program_laws_def)
  then have "seq_ok ?B example_rpc (start_limits DefaultConfig) s0 []"
    using start_seq_ok [OF _ default_config_sound chain] s0(1) by (simp add: start_on_def)
  then show ?thesis using that s0 f m(2) by simp
qed

lemma example_first_tx:
  obtains s0 s where "program_run (example_libs (empty_block 1)) example_rpc one_request Z L1 DefaultConfig s0 s
      [Request (Some (replicate 32 1))]"
proof -
  let ?B = "example_libs (empty_block 1)"
  obtain s0 where s0: "start_on ?B Map.empty DefaultConfig DefaultGenesis = Inr s0"
    "seq_ok ?B example_rpc (start_limits DefaultConfig) s0 []" "sn_chainID s0 = 42069"
    "lm_Pending (pd_mempool (sn_producer s0)) = []" "lm_maxSize (pd_mempool (sn_producer s0)) = 50000"
    by (rule example_start)
  obtain reply s' where r: "http_step ?B example_rpc one_request s0 example_env ''/'' ''POST'' (Some []) = Some (reply, s')"
    "http_accepted one_request (Some []) reply = Some (replicate 32 1)" by (rule example_accepts [OF s0(2-5)])
  have "seq_step ?B example_rpc one_request Z L1 s0 (Request (Some (replicate 32 1))) s'"
    using seq_step.Http [OF r(1)] r(2) by simp
  then show ?thesis using that s0(1,2) run_one unfolding program_run_def start_on_def seq_ok_def Let_def by metis
qed

text \<open>The same in the process, before the handler counts: the listeners open, and a request comes in.\<close>

lemma example_process:
  obtains s0 p tr where "start_on (example_libs (empty_block 1)) Map.empty DefaultConfig DefaultGenesis = Inr s0"
    and "chain_ok (example_libs (empty_block 1)) (seq_mgr s0)"
    and "run (proc_step DefaultConfig (example_libs (empty_block 1)) example_rpc one_request Z L1) (built s0) p tr"
    and "visible tr = [Request (Some (replicate 32 1))]" and "pr_stage p = Starting"
proof -
  let ?B = "example_libs (empty_block 1)" and ?step = "proc_step DefaultConfig (example_libs (empty_block 1)) example_rpc one_request Z L1"
  obtain s0 where s0: "start_on ?B Map.empty DefaultConfig DefaultGenesis = Inr s0"
    "seq_ok ?B example_rpc (start_limits DefaultConfig) s0 []" "sn_chainID s0 = 42069"
    "lm_Pending (pd_mempool (sn_producer s0)) = []" "lm_maxSize (pd_mempool (sn_producer s0)) = 50000"
    by (rule example_start)
  define p1 where "p1 = (built s0)\<lparr>pr_stage := Starting, pr_http := Opening, pr_ws := Opening\<rparr>"
  define p2 where "p2 = p1\<lparr>pr_http := Listening\<rparr>"
  have "?step (built s0) None p1" unfolding p1_def by (intro proc_step.Main main_step.Start_servers) (simp add: built_def)
  then have r1: "run ?step (built s0) p1 [None]" by (rule run_one)
  have "?step p1 None p2" unfolding p2_def by (intro proc_step.Server server_step.Http_listens) (simp_all add: p1_def alive_iff)
  with r1 have r2: "run ?step (built s0) p2 ([None] @ [None])" by (rule run.Step)
  have p2: "alive p2" "pr_http p2 = Listening" "pr_seq p2 = s0" "\<not> pr_metered_handler p2" "pr_stage p2 = Starting"
    by (simp_all add: p2_def p1_def built_def alive_iff)
  have "sn_chainID (hide False s0) = 42069" using s0(3) by (simp add: hide_def set_metrics_def)
  then obtain reply s' where "http_step ?B example_rpc one_request (hide False s0) example_env ''/'' ''POST'' (Some []) = Some (reply, s')"
    "http_accepted one_request (Some []) reply = Some (replicate 32 1)"
    using example_accepts [of "empty_block 1" "start_limits DefaultConfig" "hide False s0"] s0(2,4,5)
    by (metis hide_fields(3) hide_same(1))
  then have "\<exists>p. ?step p2 (Some (Request (Some (replicate 32 1)))) p \<and> pr_stage p = Starting"
    using proc_step.Server [OF server_step.Http_request [of p2 ?B example_rpc one_request example_env "''/''" "''POST''" "Some []" reply s'], of DefaultConfig Z L1] p2
    by fastforce
  then obtain p where p: "?step p2 (Some (Request (Some (replicate 32 1)))) p" "pr_stage p = Starting" by blast
  have "chain_ok ?B (seq_mgr s0)" using s0(2) by (simp add: seq_ok_def Let_def)
  moreover have "run ?step (built s0) p (([None] @ [None]) @ [Some (Request (Some (replicate 32 1)))])"
    using r2 p(1) by (rule run.Step)
  ultimately show ?thesis using that [OF s0(1)] p(2) by (simp add: visible_def)
qed

text \<open>The same from the files: a configuration that names nothing and no genesis file.\<close>

definition blank_config :: config_lib where
  "blank_config = \<lparr>cl_ExpandEnv = id, cl_Unmarshal = (\<lambda>data. Some)\<rparr>"

lemma main_start_example:
  "start_on B d DefaultConfig DefaultGenesis = Inr s0 \<Longrightarrow>
   main_start blank_config (\<lambda>data. None) B d (\<lambda>path. Some d) (Some '''') None = Inr (DefaultConfig, built s0)"
  by (simp add: main_start_def blank_config_def Load_def genesis_of_def LoadGenesis_def start_on_def)

text \<open>A block that the database of the example takes, and the tick that makes it.\<close>

definition fed_block :: l2_block where
  "fed_block = (empty_block 1)\<lparr>bk_Header := (bk_Header (empty_block 1))\<lparr>hd_BaseFee := Some 1000000000\<rparr>\<rparr>"

lemma fed_execute:
  assumes "cdb_db (mg_chainDB m) = d" and "mg_l1Origin m = no_l1_origin" and "mg_sequencerAddr m = zero_address"
  shows "\<exists>m'. ExecuteAndCommitBlock (example_libs fed_block) m [] 1 0 zero_hash 1000000000 = (m', [], Inr fed_block) \<and>
    mg_currentBlock m' = 1"
proof -
  have h: "computeBlockHash example_geth n r 0 zero_hash = zero_hash" for n r
    by (rule computeBlockHash_parent) simp_all
  have f: "fed_block = \<lparr>bk_Header = \<lparr>hd_Number = 1, hd_Hash = zero_hash, hd_ParentHash = zero_hash,
     hd_Timestamp = 0, hd_StateRoot = replicate 32 9, hd_GasUsed = 0, hd_GasLimit = 30000000,
     hd_TxCount = 0, hd_SequencerAddr = zero_address, hd_L1Origin = no_l1_origin, hd_BaseFee = Some 1000000000\<rparr>,
     bk_Transactions = [], bk_Receipts = []\<rparr>" by (simp add: fed_block_def empty_block_def)
  have "ExecuteTransactions L s [] ctx = (s, [], [], 0)" for L :: "ledger evm_lib" and s ctx
    by (simp add: ExecuteTransactions_def)
  then show ?thesis
    using assms by (simp add: ExecuteAndCommitBlock_def Let_def h example_trie_def CommitState_def OpenState_def
        executed_txs_def block_gas_limit_def cdb_WriteBlock_def example_codec_def only_def mem_db_def f)
qed

lemma fed_laws: "blank (example_libs fed_block) Map.empty" "program_laws (example_libs fed_block) example_rpc"
  "roots_nonzero (example_libs fed_block)"
  using example_libs_laws [of fed_block] example_laws
  by (simp_all add: blank_def mem_db_def program_laws_def roots_nonzero_def example_trie_def zero_hash_def)

lemma fed_tick:
  assumes "seq_ok (example_libs fed_block) example_rpc lims s []" and "lm_Pending (pd_mempool (sn_producer s)) = []"
    and "mg_currentBlock (seq_mgr s) = 0" and "cdb_db (mg_chainDB (seq_mgr s)) = [keyGenesisRoot \<mapsto> replicate 32 9]"
    and "mg_l1Origin (seq_mgr s) = no_l1_origin" and "mg_sequencerAddr (seq_mgr s) = zero_address"
    and "fm_BaseFee (pd_feeModel (sn_producer s)) = 1000000000"
  obtains s' where "tick_step (example_libs fed_block) s 0 = Some s'" and "mg_currentBlock (seq_mgr s') = 1"
proof -
  let ?B = "example_libs fed_block" and ?p = "sn_producer s"
  have inv: "lm_inv (pd_mempool ?p)" using assms(1) by (simp add: seq_ok_def pool_ok_def Let_def)
  obtain k g where lim: "block_limits ?p = (k, g)" by fastforce
  obtain b q where pop: "lm_PopBatch (pd_mempool ?p) k g = (b, q)" by fastforce
  have "b = []" using lm.pop_partition [OF inv pop] assms(2) by simp
  then have pop': "tp_PopBatch laned_ops (pd_mempool ?p) k g = ([], q)" using pop by (simp add: laned_ops_def)
  have "keyGenesisRoot \<noteq> prefixBlock @ u64_bytes 0" by (simp add: key_defs)
  then have ph: "mg_GetBlockHash ?B (seq_mgr s) 0 = zero_hash"
    using assms(4) by (simp add: mg_GetBlockHash_def cdb_ReadBlockHash_def cdb_ReadBlock_def mem_db_def)
  obtain m' where ex: "ExecuteAndCommitBlock ?B (seq_mgr s) [] 1 0 zero_hash 1000000000 = (m', [], Inr fed_block)"
    "mg_currentBlock m' = 1" using fed_execute [OF assms(4-6)] by blast
  have len: "length (bk_Receipts fed_block) = length (bk_Transactions fed_block)" by (simp add: fed_block_def empty_block_def)
  obtain p' where "produceBlock ?B laned_ops ?p 0 = Some p'" "pd_state p' = m'"
    using produceBlock_committed [OF lim pop', of ?B 0 m' "[]" fed_block] ex len by (auto simp: assms(3,7) ph)
  then show ?thesis using that ex(2) by (simp add: tick_step_def)
qed

text \<open>The process up to its first ticker.\<close>

lemma example_looping:
  obtains p where "run (proc_step DefaultConfig B R parse Z L1) (built s) p [None, None, None, None]"
    and "alive p" and "pr_producer p = Looping" and "pr_seq p = s" and "\<not> pr_metered_producer p"
proof -
  let ?step = "proc_step DefaultConfig B R parse Z L1"
  define p1 where "p1 = (built s)\<lparr>pr_stage := Starting, pr_http := Opening, pr_ws := Opening\<rparr>"
  define p2 where "p2 = p1\<lparr>pr_stage := Serving\<rparr>"
  define p3 where "p3 = p2\<lparr>pr_stage := Producing, pr_producer := Spawned\<rparr>"
  define p4 where "p4 = p3\<lparr>pr_producer := Looping\<rparr>"
  have "?step (built s) None p1" unfolding p1_def by (intro proc_step.Main main_step.Start_servers) (simp add: built_def)
  then have "run ?step (built s) p1 [None]" by (rule run_one)
  moreover have "?step p1 None p2" unfolding p2_def by (intro proc_step.Main main_step.Start_returns) (simp add: p1_def)
  ultimately have "run ?step (built s) p2 ([None] @ [None])" by (rule run.Step)
  moreover have "?step p2 None p3" unfolding p3_def by (intro proc_step.Main main_step.Go_producer) (simp add: p2_def)
  ultimately have "run ?step (built s) p3 (([None] @ [None]) @ [None])" by (rule run.Step)
  moreover have "?step p3 None p4"
    unfolding p4_def by (intro proc_step.Producer producer_step.Producer_starts) (simp_all add: p3_def alive_iff producer_ticks_def DefaultConfig_def)
  ultimately have "run ?step (built s) p4 ((([None] @ [None]) @ [None]) @ [None])" by (rule run.Step)
  then show ?thesis using that [of p4] by (simp add: p4_def p3_def p2_def p1_def built_def alive_iff)
qed

text \<open>A first session that commits a block.\<close>

lemma example_session:
  obtains p where "sessions (example_libs fed_block) example_rpc one_request Z L1 Map.empty p [[Tick]]"
    and "mg_currentBlock (seq_mgr (pr_seq p)) = 1"
proof -
  let ?B = "example_libs fed_block" and ?step = "proc_step DefaultConfig (example_libs fed_block) example_rpc one_request Z L1"
  obtain s0 where s0: "start_on ?B Map.empty DefaultConfig DefaultGenesis = Inr s0"
    "seq_ok ?B example_rpc (start_limits DefaultConfig) s0 []" "lm_Pending (pd_mempool (sn_producer s0)) = []"
    "mg_currentBlock (seq_mgr s0) = 0" "cdb_db (mg_chainDB (seq_mgr s0)) = [keyGenesisRoot \<mapsto> replicate 32 9]"
    "mg_l1Origin (seq_mgr s0) = no_l1_origin" "mg_sequencerAddr (seq_mgr s0) = zero_address"
    by (rule example_start)
  have st: "start_sequencer ?B Map.empty (\<lambda>path. Some Map.empty) DefaultConfig DefaultGenesis = Inr s0"
    using s0(1) by (simp add: start_on_def)
  have fee: "fm_BaseFee (pd_feeModel (sn_producer (hide False s0))) = 1000000000"
    by (rule start_fields [OF st default_config_sound]) (simp add: NewDynamicFeeModel_def fm_BaseFee_def hide_def)
  obtain p where p: "run ?step (built s0) p [None, None, None, None]" "alive p" "pr_producer p = Looping" "pr_seq p = s0"
    "\<not> pr_metered_producer p" by (rule example_looping)
  obtain s' where s': "tick_step ?B (hide False s0) 0 = Some s'" "mg_currentBlock (seq_mgr s') = 1"
    by (rule fed_tick [of _ "hide False s0"]) (use s0(2-7) fee in simp_all)
  have "?step p (Some Tick) (p\<lparr>pr_seq := unhide False s0 s'\<rparr>)"
    using proc_step.Producer [OF producer_step.Producer_tick [OF p(2,3), of ?B 0 s' DefaultConfig], of example_rpc one_request Z L1] p(4,5) s'(1) s0(4) by simp
  with p(1) have "run ?step (built s0) (p\<lparr>pr_seq := unhide False s0 s'\<rparr>) ([None, None, None, None] @ [Some Tick])"
    by (rule run.Step)
  from sessions.First [OF default_config_sound s0(1) this] show ?thesis
    using that [of "p\<lparr>pr_seq := unhide False s0 s'\<rparr>"] s'(2) by (simp add: visible_def)
qed

text \<open>A chain found on disk: every key holds one byte, apart from the genesis root and the tip.\<close>

definition old_disk :: "bytes \<Rightarrow> bytes \<rightharpoonup> bytes" where
  "old_disk tip = (\<lambda>k. if k = keyGenesisRoot then Some (replicate 32 9) else if k = keyCurrentBlock then Some tip else Some [1])"

definition old_libs :: "((bytes \<rightharpoonup> bytes), ledger) libs" where
  "old_libs = (example_libs (empty_block 1))\<lparr>lb_C := (example_codec (empty_block 1) (example_batch 1))\<lparr>
     dec_block := \<lambda>d. if d = [2] then None else Some (empty_block 1), enc_batch := \<lambda>bt. Some [2]\<rparr>\<rparr>"

definition total_batch_libs :: batch_libs where
  "total_batch_libs = \<lparr>bl_enc_frame = (\<lambda>f. Some []), bl_dec_frame = (\<lambda>d. None), bl_zlib_write = Some, bl_zlib_read = Some\<rparr>"

lemma total_accepts: "l1_accepts (simulated_l1 example_geth) total_batch_libs"
  using simulated_accepts by (simp add: l1_accepts_def total_batch_libs_def)

lemma old_start:
  assumes "lb_E B = mem_db" and "lb_g B = example_geth" and "dec_block (lb_C B) [1] = Some (empty_block 1)"
  obtains s0 where "start_sequencer B (old_disk tip) (\<lambda>path. Some (old_disk tip)) DefaultConfig DefaultGenesis = Inr s0"
    and "mg_currentBlock (pd_state (sn_producer s0)) = bytes_u64 tip"
    and "\<And>n. stored_block B (pd_state (sn_producer s0)) n"
proof -
  have "cdb_ReadGenesisRoot (lb_E B) (lb_g B) (NewChainDB (lb_E B) (old_disk tip)) = Inr (replicate 32 9)"
    by (simp add: cdb_ReadGenesisRoot_def assms(1,2) mem_db_def NewChainDB_def old_disk_def example_geth_def)
  then obtain m where m: "NewManager B 42069 (gl_HexToAddress (lb_G B)
      ''0xf39Fd6e51aad88F6F4ce6aB8827279cffFb92266'') DefaultGenesis (old_disk tip) = Inr m"
    "mg_chainDB m = NewChainDB (lb_E B) (old_disk tip)" "mg_currentBlock m = cdb_currentBlock (NewChainDB (lb_E B) (old_disk tip))"
    by (simp add: NewManager_def Let_def zero_hash_def cdb_CurrentBlock_def)
  have k: "prefixBlock @ k \<noteq> keyGenesisRoot" "prefixBlock @ k \<noteq> keyCurrentBlock" "keyCurrentBlock \<noteq> keyGenesisRoot" for k
    by (simp_all add: key_defs)
  have "mg_currentBlock m = bytes_u64 tip"
    using k(3) by (simp add: m(3) NewChainDB_def assms(1) mem_db_def old_disk_def bytes_u64_def)
  moreover have "stored_block B m n" for n
    using k by (simp add: stored_block_def mg_GetBlock_def cdb_ReadBlock_def m(2) NewChainDB_def assms(1,3) mem_db_def
        old_disk_def empty_block_def)
  ultimately show ?thesis using that default_start [OF m(1)] by metis
qed

end
