(* ===== verification/Spec2Isabelle.thy ===== *)
theory Spec2Isabelle
  imports Metrics_Page Instances
begin

text \<open>
  The InSo sequencer, a single-node L2 sequencer in Go, as definitions and theorems of Isabelle/HOL.

  \<^bold>\<open>The program.\<close> \<open>cmd/sequencer/main.go\<close> builds a state manager over a key-value store, a mempool of three
  lanes, a fee model, an adaptive block sizer, a store of compute receipts, a client of a score API and
  a batcher, and runs them concurrently: JSON-RPC handlers put transactions into the pool and read
  everything else; a ticker drains the pool into a block, executes it and commits it; a second ticker
  sends the new blocks to L1 in batches. All of them share the same pool, manager and counters. A signal
  stops the loops and the servers; the next start finds the chain in the database.

  \<^bold>\<open>Theories, from the data up.\<close>
    \<^item> \<open>Prelude\<close>, \<open>Float64\<close>, \<open>Go_Heap\<close>, \<open>Go_Bytes\<close>, \<open>Json\<close>: words as \<open>uint64\<close>, IEEE 754 binary64 with
      round-to-even on rationals, \<open>container/heap\<close> as written in Go's library, byte encodings and
      SHA-256, and what \<open>encoding/json\<close> makes of a value.
    \<^item> \<open>Pkg_Types\<close>: \<open>pkg/types\<close>, blocks, batches, transaction metadata with its priority.
    \<^item> \<open>Tx_Queue\<close>, \<open>Tx_Pool\<close>, \<open>Mempool\<close>, \<open>Lanes\<close>: \<open>internal/mempool\<close>. The interface \<open>TxPool\<close> is the record
      \<open>pool_ops\<close> and the locale \<open>tx_pool\<close>; both pools interpret it (\<open>mp\<close>, \<open>lm\<close>).
    \<^item> \<open>Adaptive\<close>, \<open>Fees\<close>: block sizing and base fee (\<open>internal/producer/adaptive.go\<close>, \<open>internal/fees\<close>).
    \<^item> \<open>Receipts\<close>, \<open>Chain_DB\<close>, \<open>Evm\<close>: \<open>internal/execution\<close>; \<open>State_Manager\<close>: genesis, state store and
      \<open>internal/state\<close>.
    \<^item> \<open>Metrics\<close>, \<open>Metrics_Page\<close>: the counters and the text a monitor scrapes.
    \<^item> \<open>Producer\<close>, \<open>Batcher\<close>, \<open>Taste_Score\<close>: a tick, a submission, the score client and its cache.
    \<^item> \<open>Rpc_Types\<close>, \<open>Rpc_Logs\<close>, \<open>Rpc_Eth\<close>, \<open>Rpc_Inso\<close>, \<open>Rpc_Handler\<close>: \<open>internal/rpc/handler.go\<close>, every
      method and the dispatch; \<open>Websocket\<close>, \<open>Rpc_Server\<close>: subscriptions and the HTTP endpoints.
    \<^item> \<open>Config\<close>, \<open>Sequencer\<close>: the configuration, and the program as a whole: its start and the step relation
      \<open>seq_step\<close> over requests, ticks, submissions and confirmations, which may come in any order.
    \<^item> \<open>Seq_Spec\<close>, \<open>Sequencer_Invariant\<close>: what the program promises, as an abstract sequencer (a bag of pending
      transactions, a chain, the number of blocks sent to L1) with a locale for simulations, and the
      invariant of the program's runs with the interpretation \<open>sq\<close>: each step of the program is a step of the
      specification.
    \<^item> \<open>Disk\<close>: what the database holds when the program stops or is killed (\<open>left_on_disk\<close>), and
      what \<open>NewManager\<close> makes of it.
    \<^item> \<open>Process\<close>: \<open>main\<close> from the start of the listeners to the exit, with \<open>Server.Start\<close>, \<open>Server.Stop\<close> and
      the loops of \<open>Producer.Start\<close> and \<open>Batcher.Start\<close>, as step relations (\<open>main_step\<close>, \<open>shutdown_step\<close>,
      \<open>server_step\<close>, \<open>producer_step\<close>, \<open>batcher_step\<close>) that interleave in \<open>proc_step\<close>; the interpretation \<open>pr\<close>
      relates it to the same specification. \<open>Sessions\<close>: any number of processes one after the other on one
      database. \<open>Instances\<close>: libraries, starts and runs on which the witnesses evaluate the model.
      This theory holds the properties of the whole program.

  Definitions carry the names of the Go functions, with a prefix where two types share one (\<open>mp_Add\<close>,
  \<open>lm_Add\<close>); records have the fields of the structs. Mutexes make each method one step. A Go map is a
  map; where its iteration order can matter the order is an argument. A pointer that may be nil is an
  option, an error is the left side of a sum with a datatype of the errors, and \<open>None\<close> in a result that is
  an option is a panic or a call that does not return. \<open>time.Now\<close> and the answers of remote services are
  arguments.

  \<^bold>\<open>Parameters and their laws.\<close> go-ethereum's state, EVM, trie, signer, RLP and hashing, JSON codecs,
  deflate and the key-value store are records of functions (\<open>evm_lib\<close>, \<open>trie_lib\<close>, \<open>ethdb\<close>, \<open>codec\<close>,
  \<open>geth\<close>, \<open>genesis_lib\<close>, \<open>batch_libs\<close>, \<open>rpc_lib\<close>). What the code relies on are named predicates: reading back a
  write (\<open>ethdb_laws\<close>), decoding what was encoded (\<open>codec_laws\<close>, \<open>batch_laws\<close>), the machine returns no more
  gas than it was given (\<open>evm_gas_law\<close>), the trie keeps the keys of the chain (\<open>trie_laws\<close>). Each has an
  instance in the witnesses, which evaluate the model on concrete inputs.

  \<^bold>\<open>What the theorems show.\<close> Pools: well-formedness in every reachable state, draining in priority order
  within gas and count, lane shares. Execution: gas accounting, conservation of the total balance,
  minimality of the gas estimate. Chain: what is written is read, also after a restart, and writes leave
  the rest alone. Producer: a tick loses no transaction, in success and failure. Batcher: batches cover
  the chain without gap or overlap and decode to it. RPC: the outcome of every send, reads change
  nothing, log queries are complete. Composition: the process implements its specification, so it loses no
  accepted transaction while it lives; fees and limits stay in the configured bounds, no step gets stuck,
  new blocks reach L1; it panics only on intervals that are not positive and can always get to its exit; a
  start after a stop or a kill has the whole chain, and over all sessions the chain holds only what was accepted.
  Other theorems show behaviour that the code or its comments do not intend: all blocks share one hash,
  a log query up to the largest block number does not return, refunds are paid again, keys of blocks and
  batches clash, and a restarted batcher writes over a block.

  \<^bold>\<open>Loops and bounds.\<close> Loops over lists are structural recursion or have a measure; the loops on \<open>uint64\<close>
  that may not end (batch frames, log queries, gas estimate) are \<open>partial_function (option)\<close>, with theorems
  for when they return. Runs assume block numbers below \<open>2 ^ 64 - 2\<close>, transactions whose gas plus 30
  million does not wrap, scores of the API between 0 and 1, and a configuration with \<open>config_sound\<close>, which
  the default one has; runs over restarts also that a committed trie does not have the zero root, and that
  a write to the database which returned is there after a stop.

  \<^bold>\<open>Not modelled.\<close> Logging, command-line flags and how a signal arrives; sockets, timeouts and the routing of
  net/http, whose listeners are states that open, break and shut; the WebSocket upgrade; opening and closing
  the database files, and blocks that the operating system loses after a write returned; data races on the
  fields that \<open>main\<close> sets while the loops run (setting one is a step). The getters that nothing calls are
  left out.
\<close>

subsection \<open>Properties\<close>

text \<open>No accepted transaction is lost: in every run each hash that \<open>eth_sendRawTransaction\<close> answered with is
  pending or in a block that can be read.\<close>

theorem accepted_never_lost:
  assumes "program_run B R parse Z L1 cfg s0 s tr" and "program_laws B R" and "config_sound cfg" and "h \<in> set (accepted_in tr)"
  shows "(\<exists>m \<in> set (lm_Pending (pd_mempool (sn_producer s))). tx_Hash (Tx m) = h) \<or>
    (\<exists>n b t. n \<le> mg_currentBlock (pd_state (sn_producer s)) \<and> mg_GetBlock B (pd_state (sn_producer s)) n = Some b \<and>
       t \<in> set (bk_Transactions b) \<and> tx_Hash t = h)"
proof -
  note c = spec_run_conserves [OF program_run_ok(2) [OF assms(1-3)], unfolded conserved_def, THEN conjunct1]
  have "h \<in># sp_pending (spec_of B s) + mset (concat (sp_chain (spec_of B s)))" unfolding c using assms(4) by simp
  then have "h \<in># sp_pending (spec_of B s) \<or> h \<in># mset (concat (sp_chain (spec_of B s)))" by (simp add: union_iff)
  then show ?thesis
  proof
    assume "h \<in># sp_pending (spec_of B s)"
    then show ?thesis by (auto simp: spec_of_def pool_hashes_def meta_hash_def)
  next
    assume "h \<in># mset (concat (sp_chain (spec_of B s)))"
    then obtain k where k: "k \<le> unat (mg_currentBlock (pd_state (sn_producer s)))"
      "h \<in> set (block_hashes B (pd_state (sn_producer s)) (of_nat k))"
      by (auto simp: spec_of_def chain_view_def less_Suc_eq_le simp del: upt_Suc)
    then obtain b where "mg_GetBlock B (pd_state (sn_producer s)) (of_nat k) = Some b" "h \<in> tx_Hash ` set (bk_Transactions b)"
      by (cases "mg_GetBlock B (pd_state (sn_producer s)) (of_nat k)") (simp_all add: block_hashes_def)
    then show ?thesis using of_nat_le [OF k(1)] by blast
  qed
qed









text \<open>The same between the stages: every run (requests over HTTP and WebSocket, ticks that succeed
  or fail, submissions, confirmations, in any order) is, event for event, a run of the abstract
  sequencer. So the pending transactions and those of the chain are together, with their multiplicity,
  the ones of the chain at the start and those that \<open>eth_sendRawTransaction\<close> accepted: none is lost, none
  invented, none put into blocks more often than it was accepted. The chain only grows, and no pending
  transaction occurs twice.\<close>

theorem sequencer_implements_spec:
  assumes "program_run B R parse Z L1 cfg s0 s tr" and "program_laws B R" and "config_sound cfg"
  shows "run spec_step (spec_of B s0) (spec_of B s) tr \<and> spec_ok (spec_of B s) \<and>
    pool_hashes (pd_mempool (sn_producer s)) + mset (concat (chain_view B (pd_state (sn_producer s)))) =
      mset (concat (chain_view B (pd_state (sn_producer s0)))) + mset (accepted_in tr) \<and>
    prefix (chain_view B (pd_state (sn_producer s0))) (chain_view B (pd_state (sn_producer s)))"
proof -
  note r = program_run_ok(2) [OF assms] and start = program_run_ok(3) [OF assms]
  have "spec_ok (spec_of B s0)" using start by (simp add: spec_ok_def)
  with spec_run_ok [OF r] spec_run_conserves [OF r] r start show ?thesis
    by (simp add: conserved_def spec_of_def)
qed

lemma sequencer_implements_spec_witness:
  "\<exists>s0 s. program_run (example_libs (empty_block 1)) example_rpc one_request total_batch_libs (simulated_l1 example_geth)
      DefaultConfig s0 s [Request (Some (replicate 32 1))] \<and>
    pool_hashes (pd_mempool (sn_producer s)) + mset (concat (chain_view (example_libs (empty_block 1)) (pd_state (sn_producer s)))) =
      mset (concat (chain_view (example_libs (empty_block 1)) (pd_state (sn_producer s0)))) + {# replicate 32 1 #}"
proof -
  obtain s0 s where s: "program_run (example_libs (empty_block 1)) example_rpc one_request total_batch_libs
      (simulated_l1 example_geth) DefaultConfig s0 s [Request (Some (replicate 32 1))]" by (rule example_first_tx)
  from sequencer_implements_spec [OF s example_laws default_config_sound] s show ?thesis
    by (auto simp: accepted_in_def)
qed







text \<open>C37. A restart can destroy a block: the batcher counts from 1 again, and the key of batch 1 is the key of
  block 29697. On a chain that long, the first batch after a restart is written over that block, and
  reading it decodes the batch.\<close>

theorem restart_overwrites_block:
  assumes "ethdb_laws (lb_E B)" and "start_sequencer B memory open_disk cfg gen = Inr s0"
    and "29697 \<le> mg_currentBlock (pd_state (sn_producer s0))"
    and "submit_step B Z L1 s0 now = Some (Some (bt, data), s1)"
    and "\<And>c. \<exists>c'. cdb_WriteBatch (lb_E B) (lb_C B) c bt = Inr c'"
  shows "29697 \<le> mg_currentBlock (pd_state (sn_producer s1)) \<and> bt_StartBlock bt = 1 \<and>
    mg_GetBlock B (pd_state (sn_producer s1)) 29697 = dec_block (lb_C B) (the (enc_batch (lb_C B) bt))"
proof -
  obtain b where b: "submitBatch B Z L1 (batcher_of s0) now = Some (b, Some (bt, data))" "s1 = put_batcher s0 b"
    using assms(4) by (auto simp: submit_step_def)
  obtain m1 where f: "bt_Index bt = 1" "bt_StartBlock bt = 1" "ba_state b = AddBatch B m1 bt"
    "mg_currentBlock m1 = mg_currentBlock (pd_state (sn_producer s0))"
    using b(1) start_batcher [OF assms(2)] by (cases rule: submit_cases) auto
  obtain c' where c': "cdb_WriteBatch (lb_E B) (lb_C B) (mg_chainDB m1) bt = Inr c'" using assms(5) by blast
  have "nat_bytes 29697 = [0x74, 1]" "nat_bytes 1 = [1]" by (simp_all add: nat_bytes_pos)
  then have "clash 29697 (bt_Index bt)" by (simp add: clash_def u64_bytes_def f(1))
  from WriteBatch_clash [OF assms(1) c' this] WriteBatch_get(2) [OF assms(1) c', of KLatestBatch]
  have "mg_GetBlock B (ba_state b) 29697 = dec_block (lb_C B) (the (enc_batch (lb_C B) bt))"
    by (auto simp: f(3) AddBatch_def c' mg_GetBlock_def cdb_ReadBlock_def split: option.split)
  then show ?thesis using b(2) f assms(3) by (simp add: put_batcher_def)
qed

lemma restart_overwrites_block_witness:
  "\<exists>s0 s1 bt data. mg_GetBlock old_libs (pd_state (sn_producer s0)) 29697 = Some (empty_block 1) \<and>
    submit_step old_libs total_batch_libs (simulated_l1 example_geth) s0 0 = Some (Some (bt, data), s1) \<and>
    mg_GetBlock old_libs (pd_state (sn_producer s1)) 29697 = None"
proof -
  let ?d = "old_disk [0x74, 1]"
  have B: "lb_E old_libs = mem_db" "lb_g old_libs = example_geth" "dec_block (lb_C old_libs) d = (if d = [2] then None else Some (empty_block 1))"
    "enc_batch (lb_C old_libs) bt = Some [2]" for d bt
    by (simp_all add: old_libs_def)
  obtain s0 where s0: "start_sequencer old_libs ?d (\<lambda>path. Some ?d) DefaultConfig DefaultGenesis = Inr s0"
    "mg_currentBlock (pd_state (sn_producer s0)) = bytes_u64 [0x74, 1]" "\<And>n. stored_block old_libs (pd_state (sn_producer s0)) n"
    using old_start [of old_libs "[0x74, 1]"] B by auto
  have tip: "mg_currentBlock (pd_state (sn_producer s0)) = 29697" by (simp add: s0(2) bytes_u64_def bytes_nat_def)
  have chain: "chain_ok old_libs (ba_state (batcher_of s0))" by (simp add: chain_ok_def s0(3) tip)
  have "ba_lastBatchBlock (batcher_of s0) < mg_currentBlock (ba_state (batcher_of s0))"
    using start_batcher [OF s0(1)] tip by simp
  from submit_accepts [OF chain this total_accepts, of 0]
  obtain bt data s1 where sub: "submit_step old_libs total_batch_libs (simulated_l1 example_geth) s0 0 = Some (Some (bt, data), s1)"
    by (auto simp: submit_step_def)
  have w: "\<exists>c'. cdb_WriteBatch (lb_E old_libs) (lb_C old_libs) c bt = Inr c'" for c
    by (simp add: B cdb_WriteBatch_def mem_db_def Let_def)
  have laws: "ethdb_laws (lb_E old_libs)" by (simp add: B mem_db_laws)
  obtain blk where "mg_GetBlock old_libs (pd_state (sn_producer s0)) 29697 = Some blk"
    using s0(3) [of 29697] by (auto simp: stored_block_def split: option.splits)
  then have "mg_GetBlock old_libs (pd_state (sn_producer s0)) 29697 = Some (empty_block 1)"
    by (auto simp: mg_GetBlock_def cdb_ReadBlock_def B split: option.splits if_splits)
  with restart_overwrites_block [OF laws s0(1) _ sub w] tip sub show ?thesis by (auto simp: B)
qed

end
